(* ===== verification/Prelude.thy ===== *)
theory Prelude
  imports Main "HOL-Library.AList" "HOL-Library.List_Lexorder" "HOL-Library.Char_ord"
begin

text \<open>
  Shared material of the development: the errors the Python code can raise, results as sums,
  loops that stop at the first error, the Python \<open>dict\<close> as an ordered association list, and
  the generic transition-system contract that the state machines of the service instantiate.
\<close>

named_theorems res_simps \<open>evaluation of result-returning code\<close>
named_theorems frame_simps \<open>what an operation leaves alone\<close>

section \<open>Errors and results\<close>

text \<open>
  The exceptions that matter: the built-in ones raised by the language itself, the three driver
  exceptions the service calls transient, and any other exception of the database driver.
\<close>

datatype pyerr =
    TypeError
  | AttributeError
  | KeyError
  | IndexError
  | ZeroDivisionError
  | AssertionError
  | ValueError string
  | RuntimeError string
  | JSONDecodeError
  | ServiceUnavailable
  | SessionExpired
  | DatabaseUnavailableError
  | DriverError string

type_synonym 'a res = "pyerr + 'a"

fun rbind :: "'a res \<Rightarrow> ('a \<Rightarrow> 'b res) \<Rightarrow> 'b res" where
  "rbind (Inl e) f = Inl e"
| "rbind (Inr x) f = f x"

lemma rbind_Inr_iff [res_simps]: "(rbind m f = Inr y) = (\<exists>x. m = Inr x \<and> f x = Inr y)"
  by (cases m) auto

lemma rbind_Inl_iff [res_simps]:
  "(rbind m f = Inl e) = (m = Inl e \<or> (\<exists>x. m = Inr x \<and> f x = Inl e))"
  by (cases m) auto

text \<open>A \<open>for\<close> loop whose body may raise, threading a state; and a comprehension.\<close>

fun rfold :: "('a \<Rightarrow> 's \<Rightarrow> 's res) \<Rightarrow> 'a list \<Rightarrow> 's \<Rightarrow> 's res" where
  "rfold f [] s = Inr s"
| "rfold f (x # xs) s = rbind (f x s) (rfold f xs)"

fun rmap :: "('a \<Rightarrow> 'b res) \<Rightarrow> 'a list \<Rightarrow> 'b list res" where
  "rmap f [] = Inr []"
| "rmap f (x # xs) = rbind (f x) (\<lambda>y. rbind (rmap f xs) (\<lambda>ys. Inr (y # ys)))"

lemma rmap_Inr_iff: "(rmap f xs = Inr ys) = list_all2 (\<lambda>x y. f x = Inr y) xs ys"
  by (induction xs arbitrary: ys) (auto simp: res_simps list_all2_Cons1)

lemma list_all2_left: "list_all2 R xs ys \<Longrightarrow> x \<in> set xs \<Longrightarrow> \<exists>y \<in> set ys. R x y"
  by (induction rule: list_all2_induct) auto

lemma list_all2_right: "list_all2 R xs ys \<Longrightarrow> y \<in> set ys \<Longrightarrow> \<exists>x \<in> set xs. R x y"
  by (induction rule: list_all2_induct) auto

lemma rmap_Inl: "rmap f xs = Inl e \<Longrightarrow> \<exists>x \<in> set xs. f x = Inl e"
  by (induction xs) (auto simp: res_simps)

lemma rmap_length: "rmap f xs = Inr ys \<Longrightarrow> length ys = length xs"
  by (auto simp: rmap_Inr_iff dest: list_all2_lengthD)

lemma rfold_append: "rfold f (xs @ ys) s = rbind (rfold f xs s) (rfold f ys)"
proof (induction xs arbitrary: s)
  case Nil
  then show ?case by simp
next
  case (Cons x xs)
  then show ?case by (cases "f x s") auto
qed

lemma rfold_invariant:
  assumes "\<And>x s s'. x \<in> set xs \<Longrightarrow> P s \<Longrightarrow> f x s = Inr s' \<Longrightarrow> P s'"
    and "P s" and "rfold f xs s = Inr s'"
  shows "P s'"
  using assms
proof (induction xs arbitrary: s)
  case Nil
  then show ?case by simp
next
  case (Cons x xs)
  then obtain t where "f x s = Inr t" and rest: "rfold f xs t = Inr s'"
    by (auto simp: res_simps)
  then have "P t" using Cons.prems by (meson list.set_intros(1))
  with rest show ?case using Cons by (meson list.set_intros(2))
qed

section \<open>Python dictionaries as ordered association lists\<close>

text \<open>
  A Python \<open>dict\<close> keeps insertion order and has distinct keys. \<open>AList.update\<close> is exactly
  \<open>d[k] = v\<close>: in place for a present key, at the end for a new one.
\<close>

definition setdefault :: "'k \<Rightarrow> 'v \<Rightarrow> ('k \<times> 'v) list \<Rightarrow> ('k \<times> 'v) list" where
  "setdefault k v d = (case map_of d k of None \<Rightarrow> d @ [(k, v)] | Some _ \<Rightarrow> d)"

definition dkeys :: "('k \<times> 'v) list \<Rightarrow> 'k list" where
  "dkeys d = map fst d"

definition dvalues :: "('k \<times> 'v) list \<Rightarrow> 'v list" where
  "dvalues d = map snd d"

lemma map_of_append_None: "map_of d k = None \<Longrightarrow> map_of (d @ [(k, v)]) = (map_of d)(k \<mapsto> v)"
  by (auto simp: fun_eq_iff map_add_def split: option.splits)

lemma map_of_setdefault:
  "map_of (setdefault k v d) = (case map_of d k of None \<Rightarrow> (map_of d)(k \<mapsto> v) | Some _ \<Rightarrow> map_of d)"
  by (auto simp: setdefault_def map_of_append_None simp del: map_of_append split: option.splits)

lemma distinct_setdefault: "distinct (map fst d) \<Longrightarrow> distinct (map fst (setdefault k v d))"
  by (auto simp: setdefault_def map_of_eq_None_iff split: option.splits)

lemma set_keys_setdefault: "fst ` set (setdefault k v d) = insert k (fst ` set d)"
proof (cases "map_of d k")
  case None
  then show ?thesis by (auto simp: setdefault_def)
next
  case (Some x)
  then have "k \<in> fst ` set d" by (metis domI dom_map_of_conv_image_fst)
  with Some show ?thesis by (auto simp: setdefault_def)
qed

lemma AList_update_new: "k \<notin> fst ` set d \<Longrightarrow> AList.update k v d = d @ [(k, v)]"
  by (induction d) auto

section \<open>Transition systems\<close>

inductive reach :: "('s \<Rightarrow> bool) \<Rightarrow> ('s \<Rightarrow> 's \<Rightarrow> bool) \<Rightarrow> 's \<Rightarrow> bool"
  for start :: "'s \<Rightarrow> bool" and step :: "'s \<Rightarrow> 's \<Rightarrow> bool" where
  reach_start: "start s \<Longrightarrow> reach start step s"
| reach_step: "reach start step s \<Longrightarrow> step s t \<Longrightarrow> reach start step t"

text \<open>The contract of an invariant: it holds initially and every step keeps it.\<close>

locale inductive_invariant =
  fixes start :: "'s \<Rightarrow> bool" and step :: "'s \<Rightarrow> 's \<Rightarrow> bool" and inv :: "'s \<Rightarrow> bool"
  assumes inv_start: "start s \<Longrightarrow> inv s"
    and inv_step: "inv s \<Longrightarrow> step s t \<Longrightarrow> inv t"
begin

lemma reachable_inv: "reach start step s \<Longrightarrow> inv s"
  by (induction rule: reach.induct) (auto intro: inv_start inv_step)

lemma steps_inv: "step\<^sup>*\<^sup>* s t \<Longrightarrow> inv s \<Longrightarrow> inv t"
  by (induction rule: rtranclp_induct) (auto intro: inv_step)

end

end
