(* ===== verification/Json.thy ===== *)
theory Json
  imports Prelude
begin

text \<open>
  JSON values as Python sees them after \<open>orjson.loads\<close>, with the parts of the language the
  service uses on them: \<open>dict.get\<close>, truthiness, iteration, hashability, \<open>str\<close> and \<open>==\<close>.

  A string is its UTF-8 encoding (one \<open>char\<close> per byte), so equality, concatenation and the
  code-point order of Python agree with those of \<open>string\<close>. A float is carried by its Python
  \<open>repr\<close>, which determines it. A dict is its list of items in insertion order with distinct keys.
  \<open>py_str\<close> of a list or a dict is Python's \<open>repr\<close> for printable text; the escapes of
  non-printable characters beyond ASCII are not modelled.
\<close>

datatype json =
    JNull
  | JBool bool
  | JInt int
  | JFloat string
  | JStr string
  | JArr "json list"
  | JObj "(string \<times> json) list"

type_synonym obj = "(string \<times> json) list"

section \<open>Lookup\<close>

text \<open>\<open>d.get(k)\<close> (with \<open>None\<close> as JNull) and \<open>d.get(k, default)\<close>.\<close>

definition dget :: "obj \<Rightarrow> string \<Rightarrow> json" where
  "dget d k = (case map_of d k of None \<Rightarrow> JNull | Some v \<Rightarrow> v)"

definition dget_default :: "obj \<Rightarrow> string \<Rightarrow> json \<Rightarrow> json" where
  "dget_default d k v = (case map_of d k of None \<Rightarrow> v | Some w \<Rightarrow> w)"

text \<open>The same on a value that need not be a dict: anything else has no attribute \<open>get\<close>.\<close>

fun jget_default :: "json \<Rightarrow> string \<Rightarrow> json \<Rightarrow> json res" where
  "jget_default (JObj d) k v = Inr (dget_default d k v)"
| "jget_default _ k v = Inl AttributeError"

abbreviation jget :: "json \<Rightarrow> string \<Rightarrow> json res" where
  "jget j k \<equiv> jget_default j k JNull"

lemma dget_default_JNull [simp]: "dget_default d k JNull = dget d k"
  by (simp add: dget_def dget_default_def)

lemma dget_Nil [simp]: "dget [] k = JNull"
  by (simp add: dget_def)

lemma dget_Cons [simp]: "dget ((k', v) # d) k = (if k' = k then v else dget d k)"
  by (simp add: dget_def)

lemma dget_default_Cons [simp]:
  "dget_default ((k', v) # d) k w = (if k' = k then v else dget_default d k w)"
  by (simp add: dget_default_def)

lemma dget_default_Nil [simp]: "dget_default [] k w = w"
  by (simp add: dget_default_def)

section \<open>Truthiness, iteration, hashability\<close>

fun truthy :: "json \<Rightarrow> bool" where
  "truthy JNull = False"
| "truthy (JBool b) = b"
| "truthy (JInt i) = (i \<noteq> 0)"
| "truthy (JFloat f) = (f \<noteq> ''0.0'' \<and> f \<noteq> ''-0.0'')"
| "truthy (JStr s) = (s \<noteq> [])"
| "truthy (JArr xs) = (xs \<noteq> [])"
| "truthy (JObj d) = (d \<noteq> [])"

text \<open>\<open>x or y\<close>.\<close>

definition py_or :: "json \<Rightarrow> json \<Rightarrow> json" where
  "py_or x y = (if truthy x then x else y)"

text \<open>\<open>for x in v\<close>: a string yields its characters, a dict its keys.\<close>

fun py_iter :: "json \<Rightarrow> json list res" where
  "py_iter (JArr xs) = Inr xs"
| "py_iter (JStr s) = Inr (map (\<lambda>c. JStr [c]) s)"
| "py_iter (JObj d) = Inr (map (\<lambda>(k, v). JStr k) d)"
| "py_iter _ = Inl TypeError"

fun hashable :: "json \<Rightarrow> bool" where
  "hashable (JArr xs) = False"
| "hashable (JObj d) = False"
| "hashable _ = True"

fun is_dict :: "json \<Rightarrow> bool" where
  "is_dict (JObj d) = True"
| "is_dict _ = False"

section \<open>\<open>str\<close>\<close>

fun nat_digits :: "nat \<Rightarrow> string" where
  "nat_digits n = (if n < 10 then [char_of (48 + n)] else nat_digits (n div 10) @ [char_of (48 + n mod 10)])"

declare nat_digits.simps [simp del]

definition int_str :: "int \<Rightarrow> string" where
  "int_str i = (if i < 0 then CHR ''-'' # nat_digits (nat (- i)) else nat_digits (nat i))"

definition hex_digit :: "nat \<Rightarrow> char" where
  "hex_digit n = (if n < 10 then char_of (48 + n) else char_of (87 + n))"

definition repr_char :: "char \<Rightarrow> char \<Rightarrow> string" where
  "repr_char q c =
     (if c = q \<or> c = CHR 0x5C then [CHR 0x5C, c]
      else if c = CHR 0x09 then [CHR 0x5C, CHR ''t'']
      else if c = CHR 0x0A then [CHR 0x5C, CHR ''n'']
      else if c = CHR 0x0D then [CHR 0x5C, CHR ''r'']
      else if of_char c < (32::nat) \<or> c = CHR 0x7F
        then [CHR 0x5C, CHR ''x'', hex_digit (of_char c div 16), hex_digit (of_char c mod 16)]
      else [c])"

definition repr_str :: "string \<Rightarrow> string" where
  "repr_str s =
     (let q = (if CHR 0x27 \<in> set s \<and> CHR 0x22 \<notin> set s then CHR 0x22 else CHR 0x27)
      in q # concat (map (repr_char q) s) @ [q])"

fun join :: "string \<Rightarrow> string list \<Rightarrow> string" where
  "join sep [] = []"
| "join sep [x] = x"
| "join sep (x # y # ys) = x @ sep @ join sep (y # ys)"

fun py_repr :: "json \<Rightarrow> string" where
  "py_repr JNull = ''None''"
| "py_repr (JBool b) = (if b then ''True'' else ''False'')"
| "py_repr (JInt i) = int_str i"
| "py_repr (JFloat f) = f"
| "py_repr (JStr s) = repr_str s"
| "py_repr (JArr xs) = ''['' @ join '', '' (map py_repr xs) @ '']''"
| "py_repr (JObj d) = ''{'' @ join '', '' (map (\<lambda>(k, v). repr_str k @ '': '' @ py_repr v) d) @ ''}''"

definition py_str :: "json \<Rightarrow> string" where
  "py_str j = (case j of JStr s \<Rightarrow> s | _ \<Rightarrow> py_repr j)"

lemma py_str_JStr [simp]: "py_str (JStr s) = s"
  by (simp add: py_str_def)

text \<open>The decimal rendering is the identity on values: distinct integers have distinct texts.\<close>

lemma nat_digits_nonempty [simp]: "nat_digits n \<noteq> []"
  by (subst nat_digits.simps) simp

fun digits_value :: "string \<Rightarrow> nat" where
  "digits_value s = foldl (\<lambda>a c. 10 * a + (of_char c - 48)) 0 s"

lemma digits_value_nat_digits: "digits_value (nat_digits n) = n"
proof (induction n rule: nat_digits.induct)
  case (1 n)
  then show ?case
    by (subst nat_digits.simps) (auto simp: of_char_of)
qed

lemma nat_digits_inj: "nat_digits m = nat_digits n \<Longrightarrow> m = n"
  by (metis digits_value_nat_digits)

lemma minus_code: "of_char (CHR ''-'') = (45::nat)"
  by simp

lemma digit_not_minus: "d < (10::nat) \<Longrightarrow> CHR ''-'' \<noteq> char_of (48 + d)"
proof
  assume "d < 10" and "CHR ''-'' = char_of (48 + d)"
  then have "(45::nat) = of_char (char_of (48 + d) :: char)" 
    by (metis minus_code)
  with \<open>d < 10\<close> show False by (simp add: of_char_of)
qed

lemma nat_digits_no_minus: "CHR ''-'' \<notin> set (nat_digits n)"
proof (induction n rule: nat_digits.induct)
  case (1 n)
  then show ?case
    by (subst nat_digits.simps) (simp add: digit_not_minus)
qed

lemma nat_digits_not_minus: "nat_digits m \<noteq> CHR ''-'' # s" "CHR ''-'' # s \<noteq> nat_digits m"
  using nat_digits_no_minus [of m] by (metis list.set_intros(1))+

lemma int_str_inj: "int_str i = int_str j \<Longrightarrow> i = j"
  by (auto simp: int_str_def nat_digits_not_minus dest!: nat_digits_inj split: if_splits)

lemma py_str_JInt_inj: "py_str (JInt i) = py_str (JInt j) \<Longrightarrow> i = j"
  by (simp add: py_str_def int_str_inj)

end
