(* ===== verification/Graph.thy ===== *)
theory Graph
  imports Json
begin

text \<open>
  The part of the shared Neo4j graph that the service reads or writes, and the effect of the
  Cypher clauses its statements are built from (\<open>MATCH\<close> on a unique key, \<open>SET\<close>, \<open>MERGE\<close>,
  \<open>DELETE\<close>). Catalog nodes are keyed by label and \<open>id\<close>, which the database constrains to be
  unique; edges are lists, because Neo4j allows parallel edges and other services write here too.
  \<open>other_rels\<close> are the media touched by any relationship that is neither an \<open>ISSUED_ON\<close> into
  them nor their own outgoing \<open>IN_FAMILY\<close>.
\<close>

datatype nlabel = Artist | Label | Master | Release

type_synonym props = "string \<rightharpoonup> json"

record arel =
  a_type :: string
  a_src :: string
  a_tgt :: string
  a_source :: "string option"

record issued_on =
  i_rel :: string
  i_med :: string
  i_source :: "string option"
  i_qty :: "int option"

record graph =
  nodes :: "nlabel \<times> string \<Rightarrow> props option"
  arels :: "arel list"
  mediums :: "string \<Rightarrow> props option"
  families :: "string set"
  in_family :: "(string \<times> string) list"
  issued :: "issued_on list"
  other_rels :: "string set"

section \<open>Node properties\<close>

text \<open>\<open>SET v.p = x\<close>: assigning null removes the property.\<close>

definition set_prop :: "string \<Rightarrow> json \<Rightarrow> props \<Rightarrow> props" where
  "set_prop p v n = n(p := (if v = JNull then None else Some v))"

lemma set_prop_same [simp]: "set_prop p v n p = (if v = JNull then None else Some v)"
  by (simp add: set_prop_def)

lemma set_prop_other [simp]: "q \<noteq> p \<Longrightarrow> set_prop p v n q = n q"
  by (simp add: set_prop_def)

lemma set_prop_overwrite [simp]: "set_prop p v (set_prop p w n) = set_prop p v n"
  by (simp add: set_prop_def)

lemma set_prop_swap: "p \<noteq> q \<Longrightarrow> set_prop p v (set_prop q w n) = set_prop q w (set_prop p v n)"
  by (auto simp: set_prop_def)

definition upd_node :: "nlabel \<times> string \<Rightarrow> (props \<Rightarrow> props) \<Rightarrow> graph \<Rightarrow> graph" where
  "upd_node k f g = (case nodes g k of None \<Rightarrow> g | Some n \<Rightarrow> g\<lparr>nodes := (nodes g)(k \<mapsto> f n)\<rparr>)"

lemma nodes_upd_node:
  "nodes (upd_node k f g) k' = (if k' = k then map_option f (nodes g k) else nodes g k')"
  by (simp add: upd_node_def split: option.split)

lemma upd_node_frame [frame_simps]:
  "arels (upd_node k f g) = arels g" "mediums (upd_node k f g) = mediums g"
  "families (upd_node k f g) = families g" "in_family (upd_node k f g) = in_family g"
  "issued (upd_node k f g) = issued g" "other_rels (upd_node k f g) = other_rels g"
  by (simp_all add: upd_node_def split: option.split)

section \<open>Artist relationships\<close>

text \<open>
  \<open>MATCH (a:Artist {id: s}) MATCH (b:Artist {id: d}) MERGE (a)-[r:t]->(b)
  SET r.source = 'musicbrainz'\<close>: nothing when an end is missing; otherwise every existing edge of
  the type between the two is matched and stamped, or one is created. The result holds the
  number of created edges and of result rows.
\<close>

definition rel_matches :: "string \<Rightarrow> string \<Rightarrow> string \<Rightarrow> arel \<Rightarrow> bool" where
  "rel_matches t s d e = (a_type e = t \<and> a_src e = s \<and> a_tgt e = d)"

definition merge_rel :: "string \<Rightarrow> string \<Rightarrow> string \<Rightarrow> graph \<Rightarrow> nat \<times> nat \<times> graph" where
  "merge_rel t s d g =
     (if nodes g (Artist, s) = None \<or> nodes g (Artist, d) = None then (0, 0, g)
      else case length (filter (rel_matches t s d) (arels g)) of
        0 \<Rightarrow> (1, 1, g\<lparr>arels := arels g @
               [\<lparr>a_type = t, a_src = s, a_tgt = d, a_source = Some ''musicbrainz''\<rparr>]\<rparr>)
      | n \<Rightarrow> (0, n, g\<lparr>arels := map (\<lambda>e. if rel_matches t s d e
               then e\<lparr>a_source := Some ''musicbrainz''\<rparr> else e) (arels g)\<rparr>))"

text \<open>The abstract view of the artist edges: which edge is present with which source.\<close>

definition edge_set :: "graph \<Rightarrow> (string \<times> string \<times> string) set" where
  "edge_set g = (\<lambda>e. (a_type e, a_src e, a_tgt e)) ` set (arels g)"

definition rel_count :: "graph \<Rightarrow> string \<Rightarrow> string \<Rightarrow> string \<Rightarrow> nat" where
  "rel_count g t s d = length (filter (rel_matches t s d) (arels g))"

lemma rel_count_pos: "(0 < rel_count g t s d) = ((t, s, d) \<in> edge_set g)"
  by (auto simp: rel_count_def edge_set_def rel_matches_def filter_empty_conv image_iff)

definition artist_exists :: "graph \<Rightarrow> string \<Rightarrow> bool" where
  "artist_exists g a = (nodes g (Artist, a) \<noteq> None)"

lemma merge_rel_frame [frame_simps]:
  assumes "merge_rel t s d g = (c, m, g')"
  shows "nodes g' = nodes g" "mediums g' = mediums g" "families g' = families g"
    "in_family g' = in_family g" "issued g' = issued g" "other_rels g' = other_rels g"
  using assms by (auto simp: merge_rel_def split: if_splits nat.splits)

lemma rel_matches_stamp [simp]:
  "rel_matches t s d \<circ> (\<lambda>e. if P e then e\<lparr>a_source := v\<rparr> else e) = rel_matches t s d"
  by (auto simp: rel_matches_def fun_eq_iff)

lemma merge_rel_count:
  assumes "merge_rel t s d g = (c, m, g')"
  shows "rel_count g' t' s' d' =
    (if (t', s', d') = (t, s, d) \<and> artist_exists g s \<and> artist_exists g d
     then max 1 (rel_count g t s d) else rel_count g t' s' d')"
proof (cases "artist_exists g s \<and> artist_exists g d")
  case False
  with assms show ?thesis by (auto simp: merge_rel_def artist_exists_def split: if_splits)
next
  case True
  show ?thesis
  proof (cases "rel_count g t s d")
    case 0
    with True assms have "g' = g\<lparr>arels := arels g @
        [\<lparr>a_type = t, a_src = s, a_tgt = d, a_source = Some ''musicbrainz''\<rparr>]\<rparr>"
      by (auto simp: merge_rel_def artist_exists_def rel_count_def split: if_splits)
    with 0 True show ?thesis by (auto simp: rel_count_def rel_matches_def)
  next
    case (Suc n)
    with True assms have "g' = g\<lparr>arels := map (\<lambda>e. if rel_matches t s d e
        then e\<lparr>a_source := Some ''musicbrainz''\<rparr> else e) (arels g)\<rparr>"
      by (auto simp: merge_rel_def artist_exists_def rel_count_def split: if_splits)
    with Suc True show ?thesis by (auto simp: rel_count_def)
  qed
qed

lemma merge_rel_result:
  assumes "merge_rel t s d g = (c, m, g')"
  shows "m = (if artist_exists g s \<and> artist_exists g d then max 1 (rel_count g t s d) else 0)"
    and "c = (if artist_exists g s \<and> artist_exists g d \<and> rel_count g t s d = 0 then 1 else 0)"
  using assms by (auto simp: merge_rel_def artist_exists_def rel_count_def split: if_splits nat.splits)

lemma edge_set_merge_rel:
  assumes "merge_rel t s d g = (c, m, g')"
  shows "edge_set g' = edge_set g \<union>
    (if artist_exists g s \<and> artist_exists g d then {(t, s, d)} else {})"
proof -
  have "((t', s', d') \<in> edge_set g') = ((t', s', d') \<in> edge_set g \<or>
      (artist_exists g s \<and> artist_exists g d \<and> (t', s', d') = (t, s, d)))" for t' s' d'
    using merge_rel_count [OF assms, of t' s' d']
    by (auto simp flip: rel_count_pos split: if_splits)
  then show ?thesis by auto
qed

section \<open>The media vocabulary\<close>

definition merge_medium :: "string \<Rightarrow> json \<Rightarrow> json \<Rightarrow> graph \<Rightarrow> graph" where
  "merge_medium m fam lab g = (case mediums g m of
      None \<Rightarrow> g\<lparr>mediums := (mediums g)(m \<mapsto>
                  set_prop ''label'' lab (set_prop ''family'' fam Map.empty))\<rparr>
    | Some _ \<Rightarrow> g)"

definition merge_family :: "string \<Rightarrow> graph \<Rightarrow> graph" where
  "merge_family f g = g\<lparr>families := insert f (families g)\<rparr>"

definition merge_in_family :: "string \<Rightarrow> string \<Rightarrow> graph \<Rightarrow> graph" where
  "merge_in_family m f g = (if (m, f) \<in> set (in_family g) then g
     else g\<lparr>in_family := in_family g @ [(m, f)]\<rparr>)"

definition issued_matches :: "string \<Rightarrow> string \<Rightarrow> string \<Rightarrow> issued_on \<Rightarrow> bool" where
  "issued_matches r m src e = (i_rel e = r \<and> i_med e = m \<and> i_source e = Some src)"

text \<open>\<open>MERGE (r)-[e:ISSUED_ON {source: src}]->(m) SET e.qty = q\<close>.\<close>

definition merge_issued :: "string \<Rightarrow> string \<Rightarrow> string \<Rightarrow> int \<Rightarrow> graph \<Rightarrow> graph" where
  "merge_issued r m src q g =
     (if filter (issued_matches r m src) (issued g) = []
      then g\<lparr>issued := issued g @ [\<lparr>i_rel = r, i_med = m, i_source = Some src, i_qty = Some q\<rparr>]\<rparr>
      else g\<lparr>issued := map (\<lambda>e. if issued_matches r m src e then e\<lparr>i_qty := Some q\<rparr> else e) (issued g)\<rparr>)"

definition orphan :: "graph \<Rightarrow> string \<Rightarrow> bool" where
  "orphan g m = ((\<forall>e \<in> set (issued g). i_med e \<noteq> m) \<and> m \<notin> other_rels g)"

definition delete_medium :: "string \<Rightarrow> graph \<Rightarrow> graph" where
  "delete_medium m g = g\<lparr>mediums := (mediums g)(m := None),
                         in_family := filter (\<lambda>p. fst p \<noteq> m) (in_family g)\<rparr>"

text \<open>
  The abstract view of the \<open>ISSUED_ON\<close> edges: for a release, a medium and a source, the set of
  quantities its edges carry (empty when there is no such edge).
\<close>

definition issued_view :: "graph \<Rightarrow> string \<times> string \<times> string option \<Rightarrow> int option set" where
  "issued_view g k = {q. \<exists>e \<in> set (issued g). (i_rel e, i_med e, i_source e) = k \<and> i_qty e = q}"

lemma issued_view_cong: "issued g = issued g' \<Longrightarrow> issued_view g = issued_view g'"
  by (simp add: issued_view_def fun_eq_iff)

lemma issued_view_filter:
  assumes "issued g' = filter P (issued g)"
    and "\<And>e. (i_rel e, i_med e, i_source e) = k \<Longrightarrow> P e = b"
  shows "issued_view g' k = (if b then issued_view g k else {})"
  unfolding issued_view_def assms(1) using assms(2) by (cases b) fastforce+

lemma issued_view_map_qty:
  assumes "issued g' = map (\<lambda>e. if issued_matches r m s e then e\<lparr>i_qty := Some q\<rparr> else e) (issued g)"
  shows "issued_view g' k =
    (if k = (r, m, Some s) \<and> issued_view g k \<noteq> {} then {Some q} else issued_view g k)"
proof (cases "k = (r, m, Some s)")
  case True
  then show ?thesis
    unfolding issued_view_def assms
    by (auto simp: issued_matches_def simp del: if_image_distrib)
next
  case False
  then have "\<not> issued_matches r m s e" if "(i_rel e, i_med e, i_source e) = k" for e
    using that by (auto simp: issued_matches_def)
  with False show ?thesis
    unfolding issued_view_def assms by auto
qed

lemma issued_view_merge_issued:
  "issued_view (merge_issued r m s q g) = (issued_view g)((r, m, Some s) := {Some q})"
proof (cases "issued_view g (r, m, Some s) = {}")
  case True
  then have "filter (issued_matches r m s) (issued g) = []"
    by (auto simp: filter_empty_conv issued_matches_def issued_view_def)
  then show ?thesis using True
    by (auto simp: issued_view_def merge_issued_def fun_eq_iff)
next
  case False
  then have "filter (issued_matches r m s) (issued g) \<noteq> []"
    by (auto simp: filter_empty_conv issued_matches_def issued_view_def)
  then have "issued_view (merge_issued r m s q g) k = ((issued_view g)((r, m, Some s) := {Some q})) k" for k
    using False by (subst issued_view_map_qty [of _ r m s q g]) (auto simp: merge_issued_def)
  then show ?thesis by (rule ext)
qed

lemma issued_view_empty_iff:
  "(issued_view g (r, m, s) = {}) = (\<forall>e \<in> set (issued g). \<not> (i_rel e = r \<and> i_med e = m \<and> i_source e = s))"
  by (auto simp: issued_view_def)

lemma no_edges_iff: "(\<forall>e \<in> set (issued g). i_med e \<noteq> m) = (\<forall>r s. issued_view g (r, m, s) = {})"
  by (auto simp: issued_view_empty_iff)

section \<open>Well-formed graphs\<close>

text \<open>
  Neo4j has no dangling edges: both ends of every edge exist. A plain \<open>DELETE\<close> of a node that
  still has relationships aborts the transaction, so an operation that keeps this invariant is
  one that never runs into that abort.
\<close>

definition wf_graph :: "graph \<Rightarrow> bool" where
  "wf_graph g \<longleftrightarrow>
     (\<forall>e \<in> set (arels g). artist_exists g (a_src e) \<and> artist_exists g (a_tgt e)) \<and>
     (\<forall>e \<in> set (issued g). nodes g (Release, i_rel e) \<noteq> None \<and> mediums g (i_med e) \<noteq> None) \<and>
     (\<forall>(m, f) \<in> set (in_family g). mediums g m \<noteq> None \<and> f \<in> families g) \<and>
     (\<forall>m \<in> other_rels g. mediums g m \<noteq> None)"

lemma wf_graph_upd_node: "wf_graph g \<Longrightarrow> wf_graph (upd_node k f g)"
  by (auto simp: wf_graph_def frame_simps nodes_upd_node artist_exists_def)

lemma wf_graph_merge_rel: "merge_rel t s d g = (c, m, g') \<Longrightarrow> wf_graph g \<Longrightarrow> wf_graph g'"
  by (auto simp: wf_graph_def merge_rel_def artist_exists_def split: if_splits nat.splits)

lemma wf_graph_merge_medium: "wf_graph g \<Longrightarrow> wf_graph (merge_medium m fam lab g)"
  by (auto simp: wf_graph_def merge_medium_def artist_exists_def split: option.split)

lemma wf_graph_merge_family: "wf_graph g \<Longrightarrow> wf_graph (merge_family f g)"
  by (auto simp: wf_graph_def merge_family_def artist_exists_def)

lemma wf_graph_merge_in_family:
  "wf_graph g \<Longrightarrow> mediums g m \<noteq> None \<Longrightarrow> f \<in> families g \<Longrightarrow> wf_graph (merge_in_family m f g)"
  by (auto simp: wf_graph_def merge_in_family_def artist_exists_def)

lemma wf_graph_merge_issued:
  "wf_graph g \<Longrightarrow> mediums g m \<noteq> None \<Longrightarrow> nodes g (Release, r) \<noteq> None \<Longrightarrow>
   wf_graph (merge_issued r m src q g)"
  by (auto simp: wf_graph_def merge_issued_def artist_exists_def)

lemma wf_graph_delete_medium: "wf_graph g \<Longrightarrow> orphan g m \<Longrightarrow> wf_graph (delete_medium m g)"
  by (fastforce simp: wf_graph_def delete_medium_def orphan_def artist_exists_def)

lemmas wf_graph_intros =
  wf_graph_upd_node wf_graph_merge_rel wf_graph_merge_medium wf_graph_merge_family
  wf_graph_merge_in_family wf_graph_merge_issued wf_graph_delete_medium

section \<open>Frames of the media operations\<close>

lemma merge_medium_frame [frame_simps]:
  "nodes (merge_medium m a b g) = nodes g" "arels (merge_medium m a b g) = arels g"
  "families (merge_medium m a b g) = families g" "in_family (merge_medium m a b g) = in_family g"
  "issued (merge_medium m a b g) = issued g" "other_rels (merge_medium m a b g) = other_rels g"
  by (simp_all add: merge_medium_def split: option.split)

lemma merge_family_frame [frame_simps]:
  "nodes (merge_family f g) = nodes g" "arels (merge_family f g) = arels g"
  "mediums (merge_family f g) = mediums g" "in_family (merge_family f g) = in_family g"
  "issued (merge_family f g) = issued g" "other_rels (merge_family f g) = other_rels g"
  "families (merge_family f g) = insert f (families g)"
  by (simp_all add: merge_family_def)

lemma merge_in_family_frame [frame_simps]:
  "nodes (merge_in_family m f g) = nodes g" "arels (merge_in_family m f g) = arels g"
  "mediums (merge_in_family m f g) = mediums g" "families (merge_in_family m f g) = families g"
  "issued (merge_in_family m f g) = issued g" "other_rels (merge_in_family m f g) = other_rels g"
  "set (in_family (merge_in_family m f g)) = insert (m, f) (set (in_family g))"
  by (auto simp: merge_in_family_def)

lemma merge_issued_frame [frame_simps]:
  "nodes (merge_issued r m s q g) = nodes g" "arels (merge_issued r m s q g) = arels g"
  "mediums (merge_issued r m s q g) = mediums g" "families (merge_issued r m s q g) = families g"
  "in_family (merge_issued r m s q g) = in_family g" "other_rels (merge_issued r m s q g) = other_rels g"
  by (simp_all add: merge_issued_def)

lemma delete_medium_frame [frame_simps]:
  "nodes (delete_medium m g) = nodes g" "arels (delete_medium m g) = arels g"
  "families (delete_medium m g) = families g" "issued (delete_medium m g) = issued g"
  "other_rels (delete_medium m g) = other_rels g"
  by (simp_all add: delete_medium_def)

lemma mediums_merge_medium:
  "mediums (merge_medium m a b g) m' =
    (if m' = m \<and> mediums g m = None
     then Some (set_prop ''label'' b (set_prop ''family'' a Map.empty)) else mediums g m')"
  by (simp add: merge_medium_def split: option.split)

lemma mediums_merge_medium_keep:
  "mediums g m' = Some p \<Longrightarrow> mediums (merge_medium m a b g) m' = Some p"
  by (auto simp: mediums_merge_medium)

lemma mediums_delete_medium:
  "mediums (delete_medium m g) m' = (if m' = m then None else mediums g m')"
  by (simp add: delete_medium_def)

end
