(* ===== verification/Media.thy ===== *)
theory Media
  imports Graph
begin

text \<open>
  Release media (\<^verbatim>\<open>_projections.py\<close>): the canonical media block of an event, its collapse into
  one row per medium, the vocabulary locks, and the statements that reconcile the
  \<open>ISSUED_ON\<close> edges of this source and prune the media they leave orphaned.

  The pinned \<^verbatim>\<open>groovemap-runtime\<close> package is not part of the repository; what the service
  calls of it, and the SHA-256 of the serialised payload, are fields of \<open>env\<close>.
\<close>

record env =
  digest :: "json list \<Rightarrow> string"
  map_musicbrainz_release :: "obj \<Rightarrow> obj"
  families_of :: "obj \<Rightarrow> json"
  medium_label :: "string \<Rightarrow> string option"
  replay_gate :: bool

definition MEDIA_SOURCE :: string where
  "MEDIA_SOURCE = ''musicbrainz''"

section \<open>The media block and its rows\<close>

definition release_media_block :: "env \<Rightarrow> obj \<Rightarrow> obj option" where
  "release_media_block E record =
     (let raw = (case dget record ''media_raw'' of
            JArr xs \<Rightarrow> Some (map_musicbrainz_release E (AList.update ''media'' (JArr xs) record))
          | _ \<Rightarrow> None)
      in case dget record ''media'' of
            JObj media \<Rightarrow> (case dget media ''items'' of JArr _ \<Rightarrow> Some media | _ \<Rightarrow> raw)
          | _ \<Rightarrow> raw)"

record edge_row =
  er_medium :: string
  er_family :: string
  er_label :: string
  er_qty :: int

definition medium_label_or_id :: "env \<Rightarrow> string \<Rightarrow> string" where
  "medium_label_or_id E m = (case medium_label E m of Some l \<Rightarrow> l | None \<Rightarrow> m)"

definition item_qty :: "obj \<Rightarrow> int" where
  "item_qty item = (case dget item ''qty'' of JInt q \<Rightarrow> (if q \<ge> 1 then q else 1) | _ \<Rightarrow> 1)"

text \<open>One iteration of the loop of \<open>media_edge_rows\<close>, on the dict of rows keyed by medium.\<close>

definition add_item :: "env \<Rightarrow> json \<Rightarrow> (string \<times> edge_row) list \<Rightarrow> (string \<times> edge_row) list" where
  "add_item E j rows = (case j of
      JObj item \<Rightarrow> (case (dget item ''medium'', dget item ''family'') of
          (JStr m, JStr f) \<Rightarrow> (case map_of rows m of
              None \<Rightarrow> AList.update m \<lparr>er_medium = m, er_family = f,
                        er_label = medium_label_or_id E m, er_qty = item_qty item\<rparr> rows
            | Some row \<Rightarrow> AList.update m (row\<lparr>er_qty := er_qty row + item_qty item\<rparr>) rows)
        | _ \<Rightarrow> rows)
    | _ \<Rightarrow> rows)"

definition block_items :: "obj \<Rightarrow> json list res" where
  "block_items media = py_iter (py_or (dget media ''items'') (JArr []))"

definition media_edge_rows :: "env \<Rightarrow> obj \<Rightarrow> edge_row list res" where
  "media_edge_rows E media =
     rbind (block_items media) (\<lambda>items. Inr (dvalues (fold (add_item E) items [])))"

text \<open>\<open>[item for item in (media.get("items") or []) if isinstance(item, dict)]\<close>.\<close>

definition media_items :: "obj \<Rightarrow> json list res" where
  "media_items media = rbind (block_items media) (\<lambda>items. Inr (filter is_dict items))"

section \<open>Vocabulary locks\<close>

datatype vlock = LFamily string | LMedium string

record lock_args =
  la_rows :: "(string \<times> string list) list"
  la_items :: "edge_row list"
  la_item_ids :: "string list"
  la_families :: "string list"

definition media_lock_args :: "(string \<times> string list) list \<Rightarrow> edge_row list \<Rightarrow> lock_args" where
  "media_lock_args rows edge_rows =
     (let items = fold (\<lambda>row d. setdefault (er_medium row) row d) edge_rows [];
          ordered = map (\<lambda>key. the (map_of items key)) (sort (dkeys items))
      in \<lparr>la_rows = rows, la_items = ordered, la_item_ids = map er_medium ordered,
          la_families = sort (remdups (map er_family ordered))\<rparr>)"

definition own_edge_of :: "string \<Rightarrow> issued_on \<Rightarrow> bool" where
  "own_edge_of r e = (i_rel e = r \<and> i_source e = Some MEDIA_SOURCE)"

definition stale_edge :: "string \<times> string list \<Rightarrow> issued_on \<Rightarrow> bool" where
  "stale_edge row e = (own_edge_of (fst row) e \<and> i_med e \<notin> set (snd row))"

text \<open>
  \<open>LOCK_MEDIA_FAMILIES_CYPHER\<close>: the families of the new items and of every medium the releases
  are linked to by this source, distinct and ordered by name, each merged and write-locked.
\<close>

definition stale_families :: "(string \<times> string list) list \<Rightarrow> graph \<Rightarrow> string list" where
  "stale_families rows g =
     remdups [f. row \<leftarrow> rows, e \<leftarrow> issued g, own_edge_of (fst row) e, (m, f) \<leftarrow> in_family g, m = i_med e]"

definition lock_media_families :: "lock_args \<Rightarrow> graph \<Rightarrow> vlock list \<times> graph" where
  "lock_media_families a g =
     (let names = sort (remdups (la_families a @ stale_families (la_rows a) g))
      in (map LFamily names, fold merge_family names g))"

text \<open>
  \<open>LOCK_MEDIA_MEDIUMS_CYPHER\<close>: the new items and the media about to be detached, ordered by id;
  an item is merged (properties on creation only), a stale medium is matched; both are locked.
\<close>

definition stale_media :: "(string \<times> string list) list \<Rightarrow> graph \<Rightarrow> string list" where
  "stale_media rows g = remdups [i_med e. row \<leftarrow> rows, e \<leftarrow> issued g, stale_edge row e]"

definition lock_medium_entries :: "lock_args \<Rightarrow> graph \<Rightarrow> (string \<times> edge_row option) list" where
  "lock_medium_entries a g = sort_key fst
     (map (\<lambda>i. (er_medium i, Some i)) (la_items a) @
      map (\<lambda>m. (m, None)) (filter (\<lambda>m. m \<notin> set (la_item_ids a)) (stale_media (la_rows a) g)))"

definition lock_medium_entry :: "string \<times> edge_row option \<Rightarrow> graph \<Rightarrow> graph" where
  "lock_medium_entry x g = (case snd x of
      Some i \<Rightarrow> merge_medium (fst x) (JStr (er_family i)) (JStr (er_label i)) g
    | None \<Rightarrow> g)"

definition lock_media_mediums :: "lock_args \<Rightarrow> graph \<Rightarrow> vlock list \<times> graph" where
  "lock_media_mediums a g =
     (let entries = lock_medium_entries a g
      in (map (\<lambda>x. LMedium (fst x)) entries, fold lock_medium_entry entries g))"

definition lock_media_in_order ::
    "(string \<times> string list) list \<Rightarrow> edge_row list \<Rightarrow> graph \<Rightarrow> vlock list \<times> graph" where
  "lock_media_in_order rows edge_rows g =
     (let a = media_lock_args rows edge_rows;
          (t1, g1) = lock_media_families a g;
          (t2, g2) = lock_media_mediums a g1
      in (t1 @ t2, g2))"

section \<open>Summary, prune and edges\<close>

record media_summary =
  ms_release :: string
  ms_families :: json
  ms_count :: int
  ms_medium_ids :: "string list"

definition summary_key :: "media_summary \<Rightarrow> string \<times> string list" where
  "summary_key s = (ms_release s, ms_medium_ids s)"

definition set_summary :: "media_summary \<Rightarrow> graph \<Rightarrow> graph" where
  "set_summary s g = upd_node (Release, ms_release s)
     (\<lambda>n. set_prop ''mb_medium_count'' (JInt (ms_count s)) (set_prop ''mb_media_families'' (ms_families s) n)) g"

text \<open>\<open>PRUNE_ORPHAN_MEDIUM\<close>, on the distinct media whose edge was just deleted.\<close>

definition prune_orphan_medium :: "string \<Rightarrow> graph \<Rightarrow> graph" where
  "prune_orphan_medium m g = (if orphan g m then delete_medium m g else g)"

text \<open>
  \<open>RELEASE_MEDIA_SUMMARY_BATCH_CYPHER\<close> and its one-release form: every matched release takes its
  summary, all stale edges are deleted, then the media they pointed at are pruned if orphaned.
\<close>

definition release_media_summary_batch :: "media_summary list \<Rightarrow> graph \<Rightarrow> graph" where
  "release_media_summary_batch rows g =
     (let matched = filter (\<lambda>s. nodes g (Release, ms_release s) \<noteq> None) rows;
          g1 = fold set_summary matched g;
          stale = (\<lambda>e. \<exists>s \<in> set matched. stale_edge (summary_key s) e);
          candidates = sort (remdups (map i_med (filter stale (issued g1))));
          g2 = g1\<lparr>issued := filter (\<lambda>e. \<not> stale e) (issued g1)\<rparr>
      in fold prune_orphan_medium candidates g2)"

definition release_media_summary :: "media_summary \<Rightarrow> graph \<Rightarrow> graph" where
  "release_media_summary s g = release_media_summary_batch [s] g"

definition write_media_edge :: "string \<times> edge_row \<Rightarrow> graph \<Rightarrow> graph" where
  "write_media_edge x g = (case x of (r, row) \<Rightarrow>
     if nodes g (Release, r) = None then g
     else merge_issued r (er_medium row) MEDIA_SOURCE (er_qty row)
       (merge_in_family (er_medium row) (er_family row)
         (merge_family (er_family row)
           (merge_medium (er_medium row) (JStr (er_family row)) (JStr (er_label row)) g))))"

definition release_media_edges_batch :: "(string \<times> edge_row) list \<Rightarrow> graph \<Rightarrow> graph" where
  "release_media_edges_batch items g = fold write_media_edge items g"

definition release_media_edges :: "string \<Rightarrow> edge_row list \<Rightarrow> graph \<Rightarrow> graph" where
  "release_media_edges r rows g = release_media_edges_batch (map (\<lambda>row. (r, row)) rows) g"

text \<open>\<open>reconcile_release_media\<close>: False when the event says nothing about media.\<close>

definition reconcile_release_media :: "env \<Rightarrow> string \<Rightarrow> obj \<Rightarrow> graph \<Rightarrow> (bool \<times> graph) res" where
  "reconcile_release_media E discogs_id record g =
     (case release_media_block E record of
        None \<Rightarrow> Inr (False, g)
      | Some media \<Rightarrow>
          rbind (media_edge_rows E media) (\<lambda>rows.
          rbind (media_items media) (\<lambda>items.
            let ids = map er_medium rows;
                g1 = snd (lock_media_in_order [(discogs_id, ids)] rows g);
                g2 = release_media_summary \<lparr>ms_release = discogs_id, ms_families = families_of E media,
                       ms_count = int (length items), ms_medium_ids = ids\<rparr> g1;
                g3 = (if rows = [] then g2 else release_media_edges discogs_id rows g2)
            in Inr (True, g3))))"

section \<open>Rows: the loop computes a group-by\<close>

text \<open>The medium, family and quantity of an item the loop accepts; \<open>None\<close> for one it skips.\<close>

definition item_key :: "json \<Rightarrow> (string \<times> string \<times> int) option" where
  "item_key j = (case j of
      JObj item \<Rightarrow> (case (dget item ''medium'', dget item ''family'') of
          (JStr m, JStr f) \<Rightarrow> Some (m, f, item_qty item) | _ \<Rightarrow> None)
    | _ \<Rightarrow> None)"

definition item_keys :: "json list \<Rightarrow> (string \<times> string \<times> int) list" where
  "item_keys items = List.map_filter item_key items"

definition firsts :: "'a list \<Rightarrow> 'a list" where
  "firsts xs = rev (remdups (rev xs))"

definition group_row :: "env \<Rightarrow> (string \<times> string \<times> int) list \<Rightarrow> string \<Rightarrow> edge_row" where
  "group_row E ks m = \<lparr>er_medium = m, er_family = fst (the (map_of ks m)),
     er_label = medium_label_or_id E m, er_qty = sum_list (map (snd \<circ> snd) (filter (\<lambda>k. fst k = m) ks))\<rparr>"

definition group_rows :: "env \<Rightarrow> (string \<times> string \<times> int) list \<Rightarrow> edge_row list" where
  "group_rows E ks = map (group_row E ks) (firsts (map fst ks))"

lemma firsts_snoc: "firsts (xs @ [x]) = (if x \<in> set xs then firsts xs else firsts xs @ [x])"
  by (auto simp: firsts_def)

lemma set_firsts [simp]: "set (firsts xs) = set xs"
  by (simp add: firsts_def)

lemma distinct_firsts [simp]: "distinct (firsts xs)"
  by (simp add: firsts_def)

lemma firsts_Nil [simp]: "firsts [] = []"
  by (simp add: firsts_def)

lemma add_item_key: "add_item E j rows = (case item_key j of
    None \<Rightarrow> rows
  | Some (m, f, q) \<Rightarrow> (case map_of rows m of
        None \<Rightarrow> AList.update m \<lparr>er_medium = m, er_family = f, er_label = medium_label_or_id E m, er_qty = q\<rparr> rows
      | Some row \<Rightarrow> AList.update m (row\<lparr>er_qty := er_qty row + q\<rparr>) rows))"
  by (auto simp: add_item_def item_key_def split: json.splits)

lemma item_key_qty_pos: "item_key j = Some (m, f, q) \<Longrightarrow> q \<ge> 1"
  by (auto simp: item_key_def item_qty_def split: json.splits)

lemma map_of_tabulate: "map_of (map (\<lambda>x. (x, g x)) xs) y = (if y \<in> set xs then Some (g y) else None)"
  by (induction xs) auto

lemma AList_update_tabulate:
  "m \<in> set ms \<Longrightarrow> distinct ms \<Longrightarrow>
   AList.update m v (map (\<lambda>x. (x, g x)) ms) = map (\<lambda>x. (x, if x = m then v else g x)) ms"
  by (induction ms) auto

lemma map_of_append_first:
  "m \<in> fst ` set ks \<Longrightarrow> map_of (ks @ ks') m = map_of ks m"
  by (metis domIff map_add_dom_app_simps(1) map_of_append map_of_eq_None_iff)

lemma group_row_snoc_other:
  "x \<noteq> m \<Longrightarrow> x \<in> fst ` set ks \<Longrightarrow> group_row E (ks @ [(m, f, q)]) x = group_row E ks x"
  by (auto simp: group_row_def map_add_def split: option.split)

lemma fold_add_item:
  "fold (add_item E) items [] =
     (let ks = item_keys items in map (\<lambda>m. (m, group_row E ks m)) (firsts (map fst ks)))"
proof (induction items rule: rev_induct)
  case Nil
  then show ?case by (simp add: item_keys_def map_filter_def)
next
  case (snoc j items)
  let ?ks = "item_keys items"
  have ks: "item_keys (items @ [j]) = ?ks @ (case item_key j of None \<Rightarrow> [] | Some k \<Rightarrow> [k])"
    by (simp add: item_keys_def map_filter_def split: option.split)
  show ?case
  proof (cases "item_key j")
    case None
    with snoc ks show ?thesis by (simp add: add_item_key)
  next
    case (Some k)
    obtain m f q where k: "k = (m, f, q)" by (metis prod_cases3)
    show ?thesis
    proof (cases "m \<in> fst ` set ?ks")
      case True
      then have "map_of ?ks m \<noteq> None" by (simp add: map_of_eq_None_iff)
      then have new: "group_row E (?ks @ [(m, f, q)]) m
          = (group_row E ?ks m)\<lparr>er_qty := er_qty (group_row E ?ks m) + q\<rparr>"
        by (auto simp: group_row_def map_add_def)
      have other: "group_row E ?ks (fst k') = group_row E (?ks @ [(m, f, q)]) (fst k')"
        if "k' \<in> set ?ks" and "fst k' \<noteq> m" for k'
        using that by (simp add: group_row_snoc_other)
      with True Some k snoc ks new show ?thesis
        by (simp add: add_item_key map_of_tabulate AList_update_tabulate firsts_snoc other Let_def)
    next
      case False
      then have none: "filter (\<lambda>k. fst k = m) ?ks = []" "map_of ?ks m = None"
        by (auto simp: filter_empty_conv map_of_eq_None_iff)
      have eq: "group_row E ?ks x = group_row E (?ks @ [(m, f, q)]) x" if "x \<in> set (firsts (map fst ?ks))" for x
        using False that by (subst group_row_snoc_other) auto
      have "map (\<lambda>x. (x, group_row E ?ks x)) (firsts (map fst ?ks))
          = map (\<lambda>x. (x, group_row E (?ks @ [(m, f, q)]) x)) (firsts (map fst ?ks))"
        using eq by (intro map_cong) auto
      moreover have "group_row E (?ks @ [(m, f, q)]) m = \<lparr>er_medium = m, er_family = f,
          er_label = medium_label_or_id E m, er_qty = q\<rparr>"
        using none by (simp add: group_row_def map_add_def)
      ultimately show ?thesis using False Some k snoc ks
        by (simp add: add_item_key map_of_tabulate AList_update_new image_iff firsts_snoc Let_def)
    qed
  qed
qed

lemma media_edge_rows_eq:
  "media_edge_rows E media = rbind (block_items media) (\<lambda>items. Inr (group_rows E (item_keys items)))"
  by (simp add: media_edge_rows_def fold_add_item group_rows_def dvalues_def Let_def comp_def)

lemma group_rows_mediums: "map er_medium (group_rows E ks) = firsts (map fst ks)"
  by (simp add: group_rows_def comp_def group_row_def)

lemma media_edge_rows_distinct: "media_edge_rows E media = Inr rows \<Longrightarrow> distinct (map er_medium rows)"
  by (auto simp: media_edge_rows_eq res_simps group_rows_mediums)

end
