(* ===== verification/Reconcile.thy ===== *)
theory Reconcile
  imports Media
begin

text \<open>
  What the media statements do to the graph, stated on the view of the \<open>ISSUED_ON\<close> edges
  (\<^const>\<open>issued_view\<close>): a plan of summaries and rows replaces exactly this source's edges of the
  planned releases, prunes exactly the media it orphaned and leaves every other edge alone. The
  one-release path and the batched path are instances of the same plan.
\<close>

section \<open>Frames of the folds\<close>

lemma fold_same:
  assumes "\<And>x g. F (f x g) = F g"
  shows "F (fold f xs g) = F g"
  by (induction xs arbitrary: g) (auto simp: assms)

lemma fold_merge_family:
  "families (fold merge_family fs g) = families g \<union> set fs"
  "nodes (fold merge_family fs g) = nodes g" "arels (fold merge_family fs g) = arels g"
  "mediums (fold merge_family fs g) = mediums g" "in_family (fold merge_family fs g) = in_family g"
  "issued (fold merge_family fs g) = issued g" "other_rels (fold merge_family fs g) = other_rels g"
  by (induction fs arbitrary: g) (auto simp: frame_simps)

lemma lock_medium_entry_frame:
  "nodes (lock_medium_entry x g) = nodes g" "arels (lock_medium_entry x g) = arels g"
  "families (lock_medium_entry x g) = families g" "in_family (lock_medium_entry x g) = in_family g"
  "issued (lock_medium_entry x g) = issued g" "other_rels (lock_medium_entry x g) = other_rels g"
  by (simp_all add: lock_medium_entry_def frame_simps split: option.split)

lemmas fold_lock_frame =
  fold_same [where f = lock_medium_entry and F = nodes, OF lock_medium_entry_frame(1)]
  fold_same [where f = lock_medium_entry and F = arels, OF lock_medium_entry_frame(2)]
  fold_same [where f = lock_medium_entry and F = families, OF lock_medium_entry_frame(3)]
  fold_same [where f = lock_medium_entry and F = in_family, OF lock_medium_entry_frame(4)]
  fold_same [where f = lock_medium_entry and F = issued, OF lock_medium_entry_frame(5)]
  fold_same [where f = lock_medium_entry and F = other_rels, OF lock_medium_entry_frame(6)]

lemma mediums_fold_lock_Some:
  "mediums g m = Some p \<Longrightarrow> mediums (fold lock_medium_entry xs g) m = Some p"
  by (induction xs arbitrary: g)
    (auto simp: lock_medium_entry_def mediums_merge_medium_keep split: option.split)

lemma mediums_fold_lock_None:
  "mediums g m = None \<Longrightarrow> (mediums (fold lock_medium_entry xs g) m = None) = (\<forall>i. (m, Some i) \<notin> set xs)"
proof (induction xs arbitrary: g)
  case Nil
  then show ?case by simp
next
  case (Cons x xs)
  show ?case
  proof (cases "\<exists>i. x = (m, Some i)")
    case True
    with Cons.prems obtain p where "mediums (lock_medium_entry x g) m = Some p"
      by (auto simp: lock_medium_entry_def mediums_merge_medium)
    from mediums_fold_lock_Some [OF this] True show ?thesis by auto
  next
    case False
    with Cons.prems have "mediums (lock_medium_entry x g) m = None"
      by (cases x) (auto simp: lock_medium_entry_def mediums_merge_medium split: option.split)
    with Cons.IH False show ?thesis by auto
  qed
qed

lemmas mediums_fold_lock = mediums_fold_lock_Some mediums_fold_lock_None

section \<open>Locking\<close>

abbreviation lock_graph :: "(string \<times> string list) list \<Rightarrow> edge_row list \<Rightarrow> graph \<Rightarrow> graph" where
  "lock_graph rows ers g \<equiv> snd (lock_media_in_order rows ers g)"

lemma fold_setdefault_keys:
  "set (map fst (fold (\<lambda>row d. setdefault (er_medium row) row d) ers d)) = set (map fst d) \<union> er_medium ` set ers"
  by (induction ers arbitrary: d) (auto simp: set_keys_setdefault)

lemma fold_setdefault_distinct:
  "distinct (map fst d) \<Longrightarrow> distinct (map fst (fold (\<lambda>row d. setdefault (er_medium row) row d) ers d))"
  by (induction ers arbitrary: d) (auto simp: distinct_setdefault)

lemma fold_setdefault_keyed:
  "\<forall>(k, r) \<in> set d. er_medium r = k \<and> r \<in> S \<Longrightarrow> set ers \<subseteq> S \<Longrightarrow>
   \<forall>(k, r) \<in> set (fold (\<lambda>row d. setdefault (er_medium row) row d) ers d). er_medium r = k \<and> r \<in> S"
proof (induction ers arbitrary: d)
  case Nil
  then show ?case by simp
next
  case (Cons x xs)
  then have "\<forall>(k, r) \<in> set (setdefault (er_medium x) x d). er_medium r = k \<and> r \<in> S"
    by (auto simp: setdefault_def split: option.splits)
  with Cons show ?case by simp
qed

lemma la_items_props:
  defines "a rows ers \<equiv> media_lock_args rows ers"
  shows la_items_mediums: "set (map er_medium (la_items (a rows ers))) = er_medium ` set ers"
    and la_items_subset: "set (la_items (a rows ers)) \<subseteq> set ers"
    and la_items_sorted: "sorted (map er_medium (la_items (a rows ers)))"
    and la_items_distinct: "distinct (map er_medium (la_items (a rows ers)))"
    and la_item_ids: "la_item_ids (a rows ers) = map er_medium (la_items (a rows ers))"
proof -
  let ?d = "fold (\<lambda>row d. setdefault (er_medium row) row d) ers []"
  let ?look = "\<lambda>key. the (map_of ?d key)"
  have keyed: "\<forall>(k, r) \<in> set ?d. er_medium r = k \<and> r \<in> set ers"
    by (rule fold_setdefault_keyed) auto
  have look: "er_medium (?look k) = k \<and> ?look k \<in> set ers" if "k \<in> set (dkeys ?d)" for k
  proof -
    from that obtain r where "map_of ?d k = Some r"
      by (auto simp: dkeys_def dest!: weak_map_of_SomeI)
    with keyed show ?thesis by (force dest: map_of_SomeD)
  qed
  then have "map (\<lambda>k. er_medium (?look k)) (sort (dkeys ?d)) = sort (dkeys ?d)"
    by (intro map_idI) simp
  then have ids: "map er_medium (la_items (a rows ers)) = sort (dkeys ?d)"
    by (simp add: a_def media_lock_args_def Let_def comp_def)
  have "set (dkeys ?d) = er_medium ` set ers"
    using fold_setdefault_keys [of ers "[]"] by (simp add: dkeys_def)
  with ids show "set (map er_medium (la_items (a rows ers))) = er_medium ` set ers" by simp
  show "set (la_items (a rows ers)) \<subseteq> set ers"
    using look by (auto simp: a_def media_lock_args_def Let_def)
  have "distinct (dkeys ?d)"
    using fold_setdefault_distinct [of "[]" ers] by (simp add: dkeys_def)
  with ids show "sorted (map er_medium (la_items (a rows ers)))"
    and "distinct (map er_medium (la_items (a rows ers)))" by simp_all
  show "la_item_ids (a rows ers) = map er_medium (la_items (a rows ers))"
    by (simp add: a_def media_lock_args_def Let_def)
qed

lemma lock_graph_unfold:
  "lock_graph rows ers g =
    (let a = media_lock_args rows ers;
         g1 = fold merge_family (sort (remdups (la_families a @ stale_families (la_rows a) g))) g
     in fold lock_medium_entry (lock_medium_entries a g1) g1)"
  by (simp add: lock_media_in_order_def lock_media_families_def lock_media_mediums_def Let_def)

lemma lock_graph_frame [frame_simps]:
  "nodes (lock_graph rows ers g) = nodes g" "arels (lock_graph rows ers g) = arels g"
  "in_family (lock_graph rows ers g) = in_family g" "issued (lock_graph rows ers g) = issued g"
  "other_rels (lock_graph rows ers g) = other_rels g"
  by (simp_all only: lock_graph_unfold Let_def fold_lock_frame fold_merge_family)

lemma lock_graph_families: "families g \<subseteq> families (lock_graph rows ers g)"
  unfolding lock_graph_unfold Let_def fold_lock_frame fold_merge_family by blast

lemma lock_entries_items:
  "((m, Some i) \<in> set (lock_medium_entries a g)) = (i \<in> set (la_items a) \<and> m = er_medium i)"
  by (auto simp: lock_medium_entries_def)

lemma lock_graph_mediums_Some:
  "mediums g m = Some p \<Longrightarrow> mediums (lock_graph rows ers g) m = Some p"
  unfolding lock_graph_unfold Let_def by (rule mediums_fold_lock_Some) (simp only: fold_merge_family)

lemma lock_graph_mediums_None:
  assumes "mediums g m = None"
  shows "(mediums (lock_graph rows ers g) m = None) = (m \<notin> er_medium ` set ers)"
proof -
  have "(mediums (lock_graph rows ers g) m = None) =
      (\<forall>i. \<not> (i \<in> set (la_items (media_lock_args rows ers)) \<and> m = er_medium i))"
    unfolding lock_graph_unfold Let_def
    by (subst mediums_fold_lock_None) (simp_all only: fold_merge_family assms lock_entries_items)
  also have "\<dots> = (m \<notin> set (map er_medium (la_items (media_lock_args rows ers))))" by auto
  finally show ?thesis by (simp only: la_items_mediums)
qed

lemmas lock_graph_mediums = lock_graph_mediums_Some lock_graph_mediums_None

section \<open>Summary, detach, prune\<close>

lemma set_summary_frame [frame_simps]:
  "arels (set_summary x g) = arels g" "mediums (set_summary x g) = mediums g"
  "families (set_summary x g) = families g" "in_family (set_summary x g) = in_family g"
  "issued (set_summary x g) = issued g" "other_rels (set_summary x g) = other_rels g"
  by (simp_all add: set_summary_def frame_simps)

lemma nodes_set_summary_dom: "(nodes (set_summary x g) k = None) = (nodes g k = None)"
  by (simp add: set_summary_def nodes_upd_node)

lemma fold_set_summary_frame:
  "arels (fold set_summary xs g) = arels g" "mediums (fold set_summary xs g) = mediums g"
  "families (fold set_summary xs g) = families g" "in_family (fold set_summary xs g) = in_family g"
  "issued (fold set_summary xs g) = issued g" "other_rels (fold set_summary xs g) = other_rels g"
  by (induction xs arbitrary: g) (simp_all add: frame_simps)

lemma nodes_fold_set_summary_dom: "(nodes (fold set_summary xs g) k = None) = (nodes g k = None)"
  by (induction xs arbitrary: g) (simp_all add: nodes_set_summary_dom)

lemma prune_frame [frame_simps]:
  "nodes (prune_orphan_medium m g) = nodes g" "arels (prune_orphan_medium m g) = arels g"
  "families (prune_orphan_medium m g) = families g" "issued (prune_orphan_medium m g) = issued g"
  "other_rels (prune_orphan_medium m g) = other_rels g"
  by (simp_all add: prune_orphan_medium_def frame_simps)

lemma fold_prune_frame:
  "nodes (fold prune_orphan_medium ms g) = nodes g" "arels (fold prune_orphan_medium ms g) = arels g"
  "families (fold prune_orphan_medium ms g) = families g" "issued (fold prune_orphan_medium ms g) = issued g"
  "other_rels (fold prune_orphan_medium ms g) = other_rels g"
  by (induction ms arbitrary: g) (simp_all add: frame_simps)

lemma orphan_cong: "issued g = issued g' \<Longrightarrow> other_rels g = other_rels g' \<Longrightarrow> orphan g m = orphan g' m"
  by (simp add: orphan_def)

lemma mediums_fold_prune:
  "mediums (fold prune_orphan_medium ms g) m = (if m \<in> set ms \<and> orphan g m then None else mediums g m)"
proof (induction ms arbitrary: g)
  case Nil
  then show ?case by simp
next
  case (Cons x xs)
  have "orphan (prune_orphan_medium x g) m = orphan g m"
    by (rule orphan_cong) (simp_all add: frame_simps)
  with Cons show ?case by (simp add: prune_orphan_medium_def mediums_delete_medium)
qed

abbreviation matched_rows :: "media_summary list \<Rightarrow> graph \<Rightarrow> media_summary list" where
  "matched_rows rows g \<equiv> filter (\<lambda>s. nodes g (Release, ms_release s) \<noteq> None) rows"

abbreviation detached :: "media_summary list \<Rightarrow> graph \<Rightarrow> string \<Rightarrow> bool" where
  "detached rows g m \<equiv> \<exists>e \<in> set (issued g). i_med e = m \<and>
     (\<exists>s \<in> set (matched_rows rows g). stale_edge (summary_key s) e)"

lemma summary_batch_frame:
  "arels (release_media_summary_batch rows g) = arels g"
  "families (release_media_summary_batch rows g) = families g"
  "other_rels (release_media_summary_batch rows g) = other_rels g"
  by (simp_all add: release_media_summary_batch_def Let_def fold_prune_frame fold_set_summary_frame)

lemma nodes_summary_batch:
  "nodes (release_media_summary_batch rows g) = nodes (fold set_summary (matched_rows rows g) g)"
  by (simp add: release_media_summary_batch_def Let_def fold_prune_frame)

lemma issued_summary_batch:
  "issued (release_media_summary_batch rows g) =
     filter (\<lambda>e. \<not> (\<exists>s \<in> set (matched_rows rows g). stale_edge (summary_key s) e)) (issued g)"
  by (auto simp: release_media_summary_batch_def Let_def fold_prune_frame fold_set_summary_frame
      intro!: filter_cong)

lemma issued_view_summary_batch:
  "issued_view (release_media_summary_batch rows g) (r, m, s) =
     (if s = Some MEDIA_SOURCE \<and>
         (\<exists>x \<in> set (matched_rows rows g). ms_release x = r \<and> m \<notin> set (ms_medium_ids x))
      then {} else issued_view g (r, m, s))"
proof -
  let ?c = "s = Some MEDIA_SOURCE \<and>
      (\<exists>x \<in> set (matched_rows rows g). ms_release x = r \<and> m \<notin> set (ms_medium_ids x))"
  have key: "(\<not> (\<exists>x \<in> set (matched_rows rows g). stale_edge (summary_key x) e)) = (\<not> ?c)"
    if "(i_rel e, i_med e, i_source e) = (r, m, s)" for e
  proof -
    have "stale_edge (summary_key x) e = (s = Some MEDIA_SOURCE \<and> ms_release x = r \<and> m \<notin> set (ms_medium_ids x))" for x
      using that by (auto simp: stale_edge_def own_edge_of_def summary_key_def)
    then show ?thesis by (simp only:) blast
  qed
  have "issued_view (release_media_summary_batch rows g) (r, m, s) =
      (if \<not> ?c then issued_view g (r, m, s) else {})"
    by (rule issued_view_filter [OF issued_summary_batch key])
  then show ?thesis by (cases ?c) (simp_all only: simp_thms if_True if_False)
qed

lemma mediums_summary_batch:
  "mediums (release_media_summary_batch rows g) m =
     (if detached rows g m \<and> (\<forall>e \<in> set (issued (release_media_summary_batch rows g)). i_med e \<noteq> m)
         \<and> m \<notin> other_rels g
      then None else mediums g m)"
proof -
  let ?stale = "\<lambda>e. \<exists>s \<in> set (matched_rows rows g). stale_edge (summary_key s) e"
  let ?g1 = "fold set_summary (matched_rows rows g) g"
  let ?g2 = "?g1\<lparr>issued := filter (\<lambda>e. \<not> ?stale e) (issued ?g1)\<rparr>"
  have "mediums (release_media_summary_batch rows g) m =
      (if m \<in> set (map i_med (filter ?stale (issued g))) \<and> orphan ?g2 m then None else mediums g m)"
    by (simp only: release_media_summary_batch_def Let_def mediums_fold_prune)
      (simp add: fold_set_summary_frame)
  moreover have "(m \<in> set (map i_med (filter ?stale (issued g)))) = detached rows g m" by auto
  moreover have "orphan ?g2 m = ((\<forall>e \<in> set (issued (release_media_summary_batch rows g)). i_med e \<noteq> m)
      \<and> m \<notin> other_rels g)"
    unfolding orphan_def issued_summary_batch by (simp add: fold_set_summary_frame)
  ultimately show ?thesis by simp
qed

lemma wf_fold_set_summary: "wf_graph g \<Longrightarrow> wf_graph (fold set_summary xs g)"
  by (induction xs arbitrary: g) (simp_all add: set_summary_def wf_graph_upd_node)

lemma wf_fold_prune: "wf_graph g \<Longrightarrow> wf_graph (fold prune_orphan_medium ms g)"
  by (induction ms arbitrary: g) (simp_all add: prune_orphan_medium_def wf_graph_delete_medium)

lemma wf_graph_drop_issued: "wf_graph g \<Longrightarrow> wf_graph (g\<lparr>issued := filter P (issued g)\<rparr>)"
  by (auto simp: wf_graph_def artist_exists_def)

lemma wf_summary_batch: "wf_graph g \<Longrightarrow> wf_graph (release_media_summary_batch rows g)"
  unfolding release_media_summary_batch_def Let_def
  by (intro wf_fold_prune wf_graph_drop_issued wf_fold_set_summary)

section \<open>Writing the edges\<close>

lemma write_media_edge_frame [frame_simps]:
  "nodes (write_media_edge x g) = nodes g" "arels (write_media_edge x g) = arels g"
  "other_rels (write_media_edge x g) = other_rels g"
  by (auto simp: write_media_edge_def frame_simps split: prod.split)

lemma edges_batch_frame [frame_simps]:
  "nodes (release_media_edges_batch xs g) = nodes g" "arels (release_media_edges_batch xs g) = arels g"
  "other_rels (release_media_edges_batch xs g) = other_rels g"
  unfolding release_media_edges_batch_def
  by (induction xs arbitrary: g) (simp_all add: frame_simps)

lemma families_edges_batch: "families g \<subseteq> families (release_media_edges_batch xs g)"
  unfolding release_media_edges_batch_def
proof (induction xs arbitrary: g)
  case Nil
  then show ?case by simp
next
  case (Cons x xs)
  have "families g \<subseteq> families (write_media_edge x g)"
    by (auto simp: write_media_edge_def frame_simps split: prod.split)
  with Cons show ?case by (metis fold_simps(2) order_trans)
qed

definition item_qtys :: "(string \<times> edge_row) list \<Rightarrow> ((string \<times> string) \<times> int) list" where
  "item_qtys items = map (\<lambda>(r, row). ((r, er_medium row), er_qty row)) items"

lemma issued_view_write_media_edge:
  "issued_view (write_media_edge (r, row) g) =
     (if nodes g (Release, r) = None then issued_view g
      else (issued_view g)((r, er_medium row, Some MEDIA_SOURCE) := {Some (er_qty row)}))"
  by (simp add: write_media_edge_def issued_view_merge_issued)
    (simp add: issued_view_cong [of "merge_in_family _ _ _" g] frame_simps)

lemma issued_view_edges_batch:
  "issued_view (release_media_edges_batch items g) (r, m, s) =
     (if s = Some MEDIA_SOURCE \<and> nodes g (Release, r) \<noteq> None
      then (case map_of (rev (item_qtys items)) (r, m) of
              Some q \<Rightarrow> {Some q} | None \<Rightarrow> issued_view g (r, m, s))
      else issued_view g (r, m, s))"
proof (induction items arbitrary: g)
  case Nil
  then show ?case by (simp add: release_media_edges_batch_def item_qtys_def)
next
  case (Cons x xs)
  obtain r' row where x: "x = (r', row)" by (cases x)
  have step: "release_media_edges_batch (x # xs) g = release_media_edges_batch xs (write_media_edge x g)"
    by (simp add: release_media_edges_batch_def)
  have dict: "map_of (rev (item_qtys (x # xs))) (r, m) =
     (case map_of (rev (item_qtys xs)) (r, m) of Some q \<Rightarrow> Some q
      | None \<Rightarrow> if (r, m) = (r', er_medium row) then Some (er_qty row) else None)"
    by (auto simp: item_qtys_def x map_add_def split: option.split)
  show ?case
    unfolding step Cons.IH dict by (auto simp: x frame_simps issued_view_write_media_edge split: option.split)
qed

lemma mediums_edges_batch_Some:
  "mediums g m = Some p \<Longrightarrow> mediums (release_media_edges_batch xs g) m = Some p"
  unfolding release_media_edges_batch_def
  by (induction xs arbitrary: g)
    (auto simp: write_media_edge_def frame_simps mediums_merge_medium_keep split: prod.split)

lemma mediums_edges_batch_None:
  "mediums g m = None \<Longrightarrow> (mediums (release_media_edges_batch xs g) m = None) =
     (\<forall>(r, row) \<in> set xs. \<not> (er_medium row = m \<and> nodes g (Release, r) \<noteq> None))"
proof (induction xs arbitrary: g)
  case Nil
  then show ?case by (simp add: release_media_edges_batch_def)
next
  case (Cons x xs)
  obtain r row where x: "x = (r, row)" by (cases x)
  have step: "release_media_edges_batch (x # xs) g = release_media_edges_batch xs (write_media_edge x g)"
    by (simp add: release_media_edges_batch_def)
  show ?case
  proof (cases "er_medium row = m \<and> nodes g (Release, r) \<noteq> None")
    case True
    with Cons.prems obtain p where "mediums (write_media_edge x g) m = Some p"
      by (auto simp: x write_media_edge_def frame_simps mediums_merge_medium)
    from mediums_edges_batch_Some [OF this] True show ?thesis unfolding step by (auto simp: x)
  next
    case False
    with Cons.prems have "mediums (write_media_edge x g) m = None"
      by (auto simp: x write_media_edge_def frame_simps mediums_merge_medium)
    from Cons.IH [OF this] False show ?thesis unfolding step by (auto simp: x frame_simps)
  qed
qed

lemma wf_write_media_edge: "wf_graph g \<Longrightarrow> wf_graph (write_media_edge x g)"
  by (auto simp: write_media_edge_def frame_simps mediums_merge_medium split: prod.split option.split
      intro!: wf_graph_merge_issued wf_graph_merge_in_family wf_graph_merge_family wf_graph_merge_medium)

lemma wf_edges_batch: "wf_graph g \<Longrightarrow> wf_graph (release_media_edges_batch xs g)"
  unfolding release_media_edges_batch_def
  by (induction xs arbitrary: g) (simp_all add: wf_write_media_edge)

lemma wf_lock_graph: "wf_graph g \<Longrightarrow> wf_graph (lock_graph rows ers g)"
proof -
  have "wf_graph g \<Longrightarrow> wf_graph (fold merge_family fs g)" for fs g
    by (induction fs arbitrary: g) (simp_all add: wf_graph_merge_family)
  moreover have "wf_graph g \<Longrightarrow> wf_graph (fold lock_medium_entry xs g)" for xs g
    by (induction xs arbitrary: g)
      (simp_all add: lock_medium_entry_def wf_graph_merge_medium split: option.split)
  moreover assume "wf_graph g"
  ultimately show ?thesis by (simp add: lock_graph_unfold Let_def)
qed

section \<open>A media plan\<close>

text \<open>
  Both write paths run the same three statements: lock, summary with prune, edges. A plan is the
  summaries and the (release, row) items handed to them; it is good when releases are distinct,
  a release has at most one row per medium and a summary lists exactly the media of its rows.
\<close>

definition apply_media :: "media_summary list \<Rightarrow> (string \<times> edge_row) list \<Rightarrow> graph \<Rightarrow> graph" where
  "apply_media summaries items g =
     release_media_edges_batch items
       (release_media_summary_batch summaries (lock_graph (map summary_key summaries) (map snd items) g))"

definition good_plan :: "media_summary list \<Rightarrow> (string \<times> edge_row) list \<Rightarrow> bool" where
  "good_plan summaries items \<longleftrightarrow>
     distinct (map ms_release summaries) \<and> distinct (map fst (item_qtys items)) \<and>
     fst ` set items \<subseteq> ms_release ` set summaries \<and>
     (\<forall>s \<in> set summaries. \<forall>m. m \<in> set (ms_medium_ids s) \<longleftrightarrow>
        (\<exists>row. (ms_release s, row) \<in> set items \<and> er_medium row = m))"

lemma nodes_apply_media_dom: "(nodes (apply_media S I g) k = None) = (nodes g k = None)"
  by (simp add: apply_media_def frame_simps nodes_summary_batch nodes_fold_set_summary_dom)

lemma apply_media_frame:
  "arels (apply_media S I g) = arels g" "other_rels (apply_media S I g) = other_rels g"
  by (simp_all add: apply_media_def frame_simps summary_batch_frame)

lemma apply_media_families: "families g \<subseteq> families (apply_media S I g)"
proof -
  let ?g1 = "lock_graph (map summary_key S) (map snd I) g"
  have "families g \<subseteq> families ?g1" by (rule lock_graph_families)
  also have "\<dots> = families (release_media_summary_batch S ?g1)" by (simp only: summary_batch_frame)
  also have "\<dots> \<subseteq> families (apply_media S I g)"
    unfolding apply_media_def by (rule families_edges_batch)
  finally show ?thesis .
qed

lemma wf_apply_media: "wf_graph g \<Longrightarrow> wf_graph (apply_media S I g)"
  by (simp add: apply_media_def wf_edges_batch wf_summary_batch wf_lock_graph)

lemma item_qtys_lookup:
  assumes "distinct (map fst (item_qtys items))"
  shows "map_of (rev (item_qtys items)) (r, m) = Some q \<longleftrightarrow>
    (\<exists>row. (r, row) \<in> set items \<and> er_medium row = m \<and> er_qty row = q)"
proof -
  have "map_of (rev (item_qtys items)) (r, m) = Some q \<longleftrightarrow> ((r, m), q) \<in> set (item_qtys items)"
    using assms by (subst map_of_eq_Some_iff) (simp_all add: rev_map [symmetric])
  then show ?thesis by (force simp: item_qtys_def)
qed

lemma issued_view_locked: "issued_view (lock_graph rows ers g) = issued_view g"
  by (rule issued_view_cong) (simp add: frame_simps)

lemma apply_media_view:
  assumes plan: "good_plan S I"
  shows "issued_view (apply_media S I g) (r, m, s) =
    (if s = Some MEDIA_SOURCE \<and> r \<in> ms_release ` set S \<and> nodes g (Release, r) \<noteq> None
     then {Some (er_qty row) | row. (r, row) \<in> set I \<and> er_medium row = m}
     else issued_view g (r, m, s))"
proof -
  let ?g1 = "lock_graph (map summary_key S) (map snd I) g"
  let ?g2 = "release_media_summary_batch S ?g1"
  let ?look = "map_of (rev (item_qtys I)) (r, m)"
  from plan have look: "?look = Some q \<longleftrightarrow> (\<exists>row. (r, row) \<in> set I \<and> er_medium row = m \<and> er_qty row = q)" for q
    by (simp add: good_plan_def item_qtys_lookup)
  have nodes1: "nodes ?g1 = nodes g" by (simp add: frame_simps)
  have nodes2: "(nodes ?g2 (Release, r) = None) = (nodes g (Release, r) = None)"
    by (simp add: nodes_summary_batch nodes_fold_set_summary_dom nodes1)
  have view: "issued_view (apply_media S I g) (r, m, s) =
     (if s = Some MEDIA_SOURCE \<and> nodes g (Release, r) \<noteq> None
      then (case ?look of Some q \<Rightarrow> {Some q} | None \<Rightarrow> issued_view ?g2 (r, m, s))
      else issued_view ?g2 (r, m, s))"
    by (simp add: apply_media_def issued_view_edges_batch nodes2)
  have view2: "issued_view ?g2 (r, m, s) =
     (if s = Some MEDIA_SOURCE \<and> nodes g (Release, r) \<noteq> None \<and> (\<exists>x \<in> set S. ms_release x = r \<and> m \<notin> set (ms_medium_ids x))
      then {} else issued_view g (r, m, s))"
    by (auto simp: issued_view_summary_batch issued_view_locked nodes1)
  show ?thesis
  proof (cases "s = Some MEDIA_SOURCE \<and> r \<in> ms_release ` set S \<and> nodes g (Release, r) \<noteq> None")
    case True
    then obtain x where x: "x \<in> set S" "ms_release x = r" by auto
    show ?thesis
    proof (cases ?look)
      case None
      then have none: "\<not> (\<exists>row. (r, row) \<in> set I \<and> er_medium row = m)"
        using look by (metis not_None_eq)
      with plan x have "\<exists>x \<in> set S. ms_release x = r \<and> m \<notin> set (ms_medium_ids x)"
        by (auto simp: good_plan_def)
      with True have "issued_view ?g2 (r, m, s) = {}" unfolding view2 by (simp only: simp_thms if_True)
      with True None none show ?thesis unfolding view by auto
    next
      case (Some q)
      then obtain row where row: "(r, row) \<in> set I" "er_medium row = m" "er_qty row = q"
        using look by blast
      have "er_qty row' = q" if "(r, row') \<in> set I" "er_medium row' = m" for row'
        using look [of "er_qty row'"] that Some by auto
      with row have "{Some (er_qty row) | row. (r, row) \<in> set I \<and> er_medium row = m} = {Some q}"
        by blast
      with True Some show ?thesis unfolding view by simp
    qed
  next
    case False
    have "?look = None" if "r \<notin> ms_release ` set S"
      using that plan look by (metis (no_types, lifting) fst_conv good_plan_def image_eqI not_None_eq subset_iff)
    moreover have "\<not> (\<exists>x \<in> set S. ms_release x = r \<and> m \<notin> set (ms_medium_ids x))" if "r \<notin> ms_release ` set S"
      using that by auto
    ultimately show ?thesis using False unfolding view view2 by auto
  qed
qed

lemma apply_media_mediums:
  assumes plan: "good_plan S I" and present: "mediums g m \<noteq> None"
  shows "mediums (apply_media S I g) m = None \<longleftrightarrow>
    detached S g m \<and> (\<forall>r s. issued_view (apply_media S I g) (r, m, s) = {}) \<and> m \<notin> other_rels g"
proof -
  let ?g1 = "lock_graph (map summary_key S) (map snd I) g"
  let ?g2 = "release_media_summary_batch S ?g1"
  let ?g3 = "apply_media S I g"
  let ?writes = "\<exists>(r, row) \<in> set I. er_medium row = m \<and> nodes g (Release, r) \<noteq> None"
  have g3: "?g3 = release_media_edges_batch I ?g2" by (simp add: apply_media_def)
  have nodes2: "(nodes ?g2 k = None) = (nodes g k = None)" for k
    by (simp add: nodes_summary_batch nodes_fold_set_summary_dom frame_simps)
  have last: "mediums ?g3 m = None \<longleftrightarrow> mediums ?g2 m = None \<and> \<not> ?writes"
    using mediums_edges_batch_Some [of ?g2 m _ I] mediums_edges_batch_None [of ?g2 m I]
    by (cases "mediums ?g2 m") (auto simp: g3 nodes2)
  have dropped: "mediums ?g2 m = None \<longleftrightarrow>
      detached S g m \<and> (\<forall>r s. issued_view ?g2 (r, m, s) = {}) \<and> m \<notin> other_rels g"
  proof -
    from present have "mediums ?g1 m \<noteq> None" using lock_graph_mediums_Some by fastforce
    moreover have "detached S ?g1 m = detached S g m" by (simp only: lock_graph_frame)
    ultimately show ?thesis
      unfolding mediums_summary_batch no_edges_iff lock_graph_frame(5) by meson
  qed
  have views: "(\<forall>r s. issued_view ?g3 (r, m, s) = {}) \<longleftrightarrow>
      (\<forall>r s. issued_view ?g2 (r, m, s) = {}) \<and> \<not> ?writes"
  proof -
    have "issued_view ?g3 (r, m, s) = {} \<longleftrightarrow> issued_view ?g2 (r, m, s) = {} \<and>
        \<not> (s = Some MEDIA_SOURCE \<and> (\<exists>row. (r, row) \<in> set I \<and> er_medium row = m \<and> nodes g (Release, r) \<noteq> None))" for r s
    proof -
      have "(\<exists>q. map_of (rev (item_qtys I)) (r, m) = Some q) = (\<exists>row. (r, row) \<in> set I \<and> er_medium row = m)"
        using plan by (simp add: good_plan_def item_qtys_lookup)
      moreover have "issued_view ?g2 (r, m, s) = {}" if "\<exists>row. (r, row) \<in> set I \<and> er_medium row = m"
        and "issued_view ?g3 (r, m, s) = {}" and "nodes g (Release, r) \<noteq> None"
        using that by (auto simp: g3 issued_view_edges_batch nodes2 split: if_splits option.splits)
      ultimately show ?thesis
        by (auto simp: g3 issued_view_edges_batch nodes2 split: option.splits)
    qed
    then show ?thesis by auto
  qed
  show ?thesis unfolding last dropped views by blast
qed

end
