(* ===== verification/Locks.thy ===== *)
theory Locks
  imports Reconcile "HOL-Library.Multiset"
begin

text \<open>
  The order in which a media write locks the shared vocabulary (\<^verbatim>\<open>lock_media_in_order\<close>): families
  by name, then media by id. The order is strict and covers every vocabulary node the later
  statements touch, so concurrent writes cannot wait for one another in a circle.
\<close>

section \<open>The global order\<close>

instantiation vlock :: linorder
begin

fun less_eq_vlock :: "vlock \<Rightarrow> vlock \<Rightarrow> bool" where
  "less_eq_vlock (LFamily a) (LFamily b) = (a \<le> b)"
| "less_eq_vlock (LFamily a) (LMedium b) = True"
| "less_eq_vlock (LMedium a) (LFamily b) = False"
| "less_eq_vlock (LMedium a) (LMedium b) = (a \<le> b)"

definition less_vlock :: "vlock \<Rightarrow> vlock \<Rightarrow> bool" where
  "less_vlock a b \<longleftrightarrow> a \<le> b \<and> \<not> b \<le> a"

instance
proof
  fix x y z :: vlock
  show "(x < y) = (x \<le> y \<and> \<not> y \<le> x)" by (rule less_vlock_def)
  show "x \<le> x" by (cases x) simp_all
  show "x \<le> y \<Longrightarrow> y \<le> z \<Longrightarrow> x \<le> z" by (cases x; cases y; cases z) auto
  show "x \<le> y \<Longrightarrow> y \<le> x \<Longrightarrow> x = y" by (cases x; cases y) auto
  show "x \<le> y \<or> y \<le> x" by (cases x; cases y) auto
qed

end

lemma vlock_less_simps [simp]:
  "(LFamily a < LFamily b) = (a < b)" "LFamily a < LMedium c"
  "(LMedium c < LMedium d) = (c < d)" "\<not> LMedium c < LFamily a"
  by (auto simp: less_vlock_def)

section \<open>Lock discipline\<close>

text \<open>
  The contract: each participant acquires the locks of its trace in order. A participant that has
  acquired \<open>n\<close> of them holds the prefix and waits for the next one.
\<close>

locale lock_discipline =
  fixes trace :: "'t \<Rightarrow> 'l::linorder list"
  assumes strict: "sorted_wrt (<) (trace t)"
begin

lemma wanted_above_held:
  assumes "n < length (trace t)" and "l \<in> set (take n (trace t))"
  shows "l < trace t ! n"
proof -
  from assms(2) obtain i where "i < n" "i < length (trace t)" "l = trace t ! i"
    by (auto simp: in_set_conv_nth)
  then show ?thesis using strict [of t] assms(1) by (simp add: sorted_wrt_iff_nth_less)
qed

text \<open>\<open>t\<close>, having acquired \<open>pos t\<close> locks, waits for a lock that \<open>u\<close> holds.\<close>

lemma waits_increase:
  assumes chain: "(t, u) \<in> {(t, u). pos t < length (trace t) \<and> pos u < length (trace u) \<and>
                                 trace t ! pos t \<in> set (take (pos u) (trace u))}\<^sup>+"
  shows "trace t ! pos t < trace u ! pos u"
  using chain
proof (induction rule: trancl_induct)
  case (base u)
  then show ?case by (auto intro: wanted_above_held)
next
  case (step u v)
  then have "trace u ! pos u < trace v ! pos v" by (auto intro: wanted_above_held)
  with step.IH show ?case by (rule less_trans)
qed

lemma no_circular_wait:
  "acyclic {(t, u). pos t < length (trace t) \<and> pos u < length (trace u) \<and>
                    trace t ! pos t \<in> set (take (pos u) (trace u))}"
  unfolding acyclic_def using waits_increase by blast

end

section \<open>The traces of the media writes\<close>

lemma lock_trace_unfold:
  "fst (lock_media_in_order rows ers g) =
    (let a = media_lock_args rows ers; names = sort (remdups (la_families a @ stale_families (la_rows a) g))
     in map LFamily names @ map (\<lambda>x. LMedium (fst x)) (lock_medium_entries a (fold merge_family names g)))"
  by (simp add: lock_media_in_order_def lock_media_families_def lock_media_mediums_def Let_def)

lemma sorted_wrt_less_sort: "distinct xs \<Longrightarrow> sorted_wrt (<) (sort (xs :: 'a::linorder list))"
  by (simp add: strict_sorted_iff)

lemma lock_entries_keys:
  "map fst (lock_medium_entries (media_lock_args rows ers) g) =
     sort (map er_medium (la_items (media_lock_args rows ers)) @
           filter (\<lambda>m. m \<notin> er_medium ` set ers) (stale_media rows g))"
proof -
  let ?a = "media_lock_args rows ers"
  have rows: "la_rows ?a = rows" by (simp add: media_lock_args_def Let_def)
  have "map fst (sort_key fst xs) = sort (map fst xs)" for xs :: "(string \<times> edge_row option) list"
    by (rule properties_for_sort [symmetric]) simp_all
  then show ?thesis
    by (simp add: lock_medium_entries_def rows la_item_ids comp_def la_items_mediums [simplified])
qed

lemma lock_trace_strict: "sorted_wrt (<) (fst (lock_media_in_order rows ers g))"
proof -
  let ?a = "media_lock_args rows ers"
  let ?keys = "\<lambda>h. map er_medium (la_items ?a) @ filter (\<lambda>m. m \<notin> er_medium ` set ers) (stale_media rows h)"
  have "distinct (?keys h)" for h
    using la_items_distinct [of rows ers] la_items_mediums [of rows ers]
    by (auto simp: stale_media_def)
  then have "sorted_wrt (<) (map fst (lock_medium_entries ?a h))" for h
    unfolding lock_entries_keys by (rule sorted_wrt_less_sort)
  then have media: "sorted_wrt (<) (map LMedium (map fst (lock_medium_entries ?a h)))" for h
    by (simp only: sorted_wrt_map vlock_less_simps)
  have "sorted_wrt (<) (map LFamily (sort (remdups fs)))" for fs
    by (simp add: sorted_wrt_map sorted_wrt_less_sort)
  with media show ?thesis
    by (auto simp: lock_trace_unfold Let_def sorted_wrt_append comp_def)
qed

text \<open>A media write in progress: its arguments, and the graph its lock statements read.\<close>

type_synonym media_write = "(string \<times> string list) list \<times> edge_row list \<times> graph"

definition lock_trace :: "media_write \<Rightarrow> vlock list" where
  "lock_trace w = (case w of (rows, ers, g) \<Rightarrow> fst (lock_media_in_order rows ers g))"

interpretation media_locks: lock_discipline lock_trace
  by unfold_locales (auto simp: lock_trace_def lock_trace_strict split: prod.split)

definition waits_for :: "(nat \<times> media_write \<Rightarrow> nat) \<Rightarrow> ((nat \<times> media_write) \<times> (nat \<times> media_write)) set" where
  "waits_for pos = {(t, u). pos t < length (lock_trace (snd t)) \<and> pos u < length (lock_trace (snd u)) \<and>
     lock_trace (snd t) ! pos t \<in> set (take (pos u) (lock_trace (snd u)))}"

interpretation tx_locks: lock_discipline "\<lambda>t :: nat \<times> media_write. lock_trace (snd t)"
  by unfold_locales (rule media_locks.strict)

section \<open>Coverage\<close>

lemma lock_trace_media:
  "LMedium m \<in> set (fst (lock_media_in_order rows ers g)) \<longleftrightarrow>
     m \<in> er_medium ` set ers \<or> m \<in> set (stale_media rows g)"
proof -
  let ?a = "media_lock_args rows ers"
  let ?names = "sort (remdups (la_families ?a @ stale_families (la_rows ?a) g))"
  have "stale_media rows (fold merge_family ?names g) = stale_media rows g"
    by (simp add: stale_media_def fold_merge_family)
  moreover have "LMedium m \<in> set (fst (lock_media_in_order rows ers g)) \<longleftrightarrow>
      m \<in> set (map fst (lock_medium_entries ?a (fold merge_family ?names g)))"
    by (auto simp: lock_trace_unfold Let_def)
  ultimately show ?thesis
    unfolding lock_entries_keys using la_items_mediums [of rows ers] by auto
qed

lemma lock_trace_families:
  "LFamily f \<in> set (fst (lock_media_in_order rows ers g)) \<longleftrightarrow>
     f \<in> er_family ` set (la_items (media_lock_args rows ers)) \<or> f \<in> set (stale_families rows g)"
  by (auto simp: lock_trace_unfold Let_def media_lock_args_def)

text \<open>The vocabulary nodes the summary and edge statements touch.\<close>

definition touched_vocabulary :: "media_summary list \<Rightarrow> (string \<times> edge_row) list \<Rightarrow> graph \<Rightarrow> vlock set" where
  "touched_vocabulary S items g =
     LMedium ` (er_medium ` snd ` set items) \<union> LFamily ` (er_family ` snd ` set items) \<union>
     LMedium ` {m. detached S g m} \<union>
     LFamily ` {f. \<exists>m. detached S g m \<and> (m, f) \<in> set (in_family g)}"

lemma family_of_item_locked:
  assumes "\<And>x y. x \<in> set ers \<Longrightarrow> y \<in> set ers \<Longrightarrow> er_medium x = er_medium y \<Longrightarrow> er_family x = er_family y"
    and "x \<in> set ers"
  shows "er_family x \<in> er_family ` set (la_items (media_lock_args rows ers))"
proof -
  from assms(2) have "er_medium x \<in> set (map er_medium (la_items (media_lock_args rows ers)))"
    by (simp add: la_items_mediums del: set_map)
  then obtain y where y: "y \<in> set (la_items (media_lock_args rows ers))" "er_medium y = er_medium x" by auto
  then have "er_family x = er_family y"
    using assms la_items_subset [of rows ers] by (metis subsetD)
  with y show ?thesis by auto
qed

lemma detached_stale: "detached S g m \<Longrightarrow> m \<in> set (stale_media (map summary_key S) g)"
  by (auto simp: stale_media_def)

lemma detached_family_stale:
  assumes "detached S g m" and "(m, f) \<in> set (in_family g)"
  shows "f \<in> set (stale_families (map summary_key S) g)"
proof -
  from assms(1) obtain e s where "e \<in> set (issued g)" "i_med e = m" "s \<in> set S" "own_edge_of (ms_release s) e"
    by (auto simp: stale_edge_def summary_key_def)
  with assms(2) show ?thesis
    by (force simp: stale_families_def summary_key_def)
qed

text \<open>What is touched is locked first.\<close>

lemma touched_locked:
  assumes "\<And>x y. x \<in> snd ` set items \<Longrightarrow> y \<in> snd ` set items \<Longrightarrow> er_medium x = er_medium y \<Longrightarrow> er_family x = er_family y"
  shows "touched_vocabulary S items g \<subseteq> set (fst (lock_media_in_order (map summary_key S) (map snd items) g))"
proof -
  let ?T = "set (fst (lock_media_in_order (map summary_key S) (map snd items) g))"
  have "LMedium ` (er_medium ` snd ` set items) \<subseteq> ?T"
    by (simp add: image_image image_subset_iff lock_trace_media)
  moreover have "LFamily ` (er_family ` snd ` set items) \<subseteq> ?T"
  proof (clarsimp simp only: image_image image_subset_iff)
    fix x assume x: "x \<in> set items"
    have "er_family (snd x) \<in> er_family ` set (la_items (media_lock_args (map summary_key S) (map snd items)))"
    proof (rule family_of_item_locked)
      show "snd x \<in> set (map snd items)" using x by simp
      show "er_family y = er_family z"
        if "y \<in> set (map snd items)" "z \<in> set (map snd items)" "er_medium y = er_medium z" for y z
        using that by (intro assms) simp_all
    qed
    then show "LFamily (er_family (snd x)) \<in> ?T" by (simp only: lock_trace_families simp_thms)
  qed
  moreover have "LMedium ` {m. detached S g m} \<subseteq> ?T"
  proof
    fix l assume "l \<in> LMedium ` {m. detached S g m}"
    then obtain m where m: "detached S g m" "l = LMedium m" by blast
    from detached_stale [OF m(1)] show "l \<in> ?T" unfolding m(2) lock_trace_media by (rule disjI2)
  qed
  moreover have "LFamily ` {f. \<exists>m. detached S g m \<and> (m, f) \<in> set (in_family g)} \<subseteq> ?T"
  proof
    fix l assume "l \<in> LFamily ` {f. \<exists>m. detached S g m \<and> (m, f) \<in> set (in_family g)}"
    then obtain m f where m: "detached S g m" "(m, f) \<in> set (in_family g)" "l = LFamily f" by blast
    from detached_family_stale [OF m(1,2)] show "l \<in> ?T"
      unfolding m(3) lock_trace_families by (rule disjI2)
  qed
  ultimately show ?thesis unfolding touched_vocabulary_def by (simp only: Un_least)
qed

end
