(* ===== verification/Enrich.thy ===== *)
theory Enrich
  imports Locks
begin

text \<open>
  The per-record projections of \<^verbatim>\<open>_projections.py\<close>: the rows an event projects onto its node, the
  payload hash that gates the write, the gated statement itself, and the four enrichment functions
  with the artist relationships. Every function runs inside one transaction: it takes the
  counters and the graph and returns both, or the error that aborts the transaction.
\<close>

record stats =
  entities_enriched :: int
  entities_skipped_no_discogs_match :: int
  relationships_created :: int
  relationships_updated :: int
  relationships_skipped_missing_side :: int
  replays_skipped_unchanged :: int

definition zero_stats :: stats where
  "zero_stats = \<lparr>entities_enriched = 0, entities_skipped_no_discogs_match = 0, relationships_created = 0,
     relationships_updated = 0, relationships_skipped_missing_side = 0, replays_skipped_unchanged = 0\<rparr>"

type_synonym tx_state = "stats \<times> graph"

section \<open>Projected rows\<close>

definition MB_RELATIONSHIP_MAP :: "(string \<times> string) list" where
  "MB_RELATIONSHIP_MAP =
     [(''member of band'', ''MEMBER_OF''), (''collaboration'', ''COLLABORATED_WITH''),
      (''teacher'', ''TAUGHT''), (''tribute'', ''TRIBUTE_TO''), (''founder'', ''FOUNDED''),
      (''supporting musician'', ''SUPPORTED''), (''subgroup'', ''SUBGROUP_OF''),
      (''artist rename'', ''RENAMED_TO'')]"

text \<open>Pairs of graph property and row key.\<close>

type_synonym fields = "(string \<times> string) list"

definition ARTIST_FIELDS :: fields where
  "ARTIST_FIELDS = map (\<lambda>k. (k, k))
     [''mbid'', ''mb_type'', ''mb_gender'', ''mb_begin_date'', ''mb_end_date'', ''mb_area'',
      ''mb_begin_area'', ''mb_end_area'', ''mb_disambiguation'']"

definition LABEL_FIELDS :: fields where
  "LABEL_FIELDS = map (\<lambda>k. (k, k))
     [''mbid'', ''mb_type'', ''mb_label_code'', ''mb_begin_date'', ''mb_end_date'', ''mb_area'']"

definition RELEASE_FIELDS :: fields where
  "RELEASE_FIELDS =
     [(''mbid'', ''mbid''), (''mb_barcode'', ''mb_barcode''), (''mb_status'', ''mb_status''),
      (''mb_release_group_mbid'', ''release_group_mbid''), (''mb_country'', ''mb_country''),
      (''mb_release_events'', ''mb_release_events'')]"

definition RELEASE_GROUP_FIELDS :: fields where
  "RELEASE_GROUP_FIELDS = map (\<lambda>k. (k, k))
     [''mbid'', ''mb_type'', ''mb_secondary_types'', ''mb_first_release_date'', ''mb_disambiguation'']"

text \<open>\<open>record.get(f"{key}_date", (record.get("life_span") or {}).get(key))\<close>.\<close>

definition life_span :: "obj \<Rightarrow> string \<Rightarrow> json res" where
  "life_span record key =
     rbind (jget (py_or (dget record ''life_span'') (JObj [])) key)
       (\<lambda>d. Inr (dget_default record (key @ ''_date'') d))"

definition artist_row :: "obj \<Rightarrow> obj res" where
  "artist_row record =
     rbind (life_span record ''begin'') (\<lambda>b.
     rbind (life_span record ''end'') (\<lambda>e.
       Inr [(''mbid'', dget_default record ''mbid'' (dget record ''id'')),
            (''mb_type'', dget_default record ''mb_type'' (dget record ''type'')),
            (''mb_gender'', dget record ''gender''),
            (''mb_begin_date'', b), (''mb_end_date'', e),
            (''mb_area'', dget record ''area''),
            (''mb_begin_area'', dget record ''begin_area''),
            (''mb_end_area'', dget record ''end_area''),
            (''mb_disambiguation'', dget record ''disambiguation'')]))"

definition label_row :: "obj \<Rightarrow> obj res" where
  "label_row record =
     rbind (life_span record ''begin'') (\<lambda>b.
     rbind (life_span record ''end'') (\<lambda>e.
       Inr [(''mbid'', dget_default record ''mbid'' (dget record ''id'')),
            (''mb_type'', dget_default record ''mb_type'' (dget record ''type'')),
            (''mb_label_code'', dget record ''label_code''),
            (''mb_begin_date'', b), (''mb_end_date'', e),
            (''mb_area'', dget record ''area'')]))"

text \<open>One release event, and the rows of all of them.\<close>

definition release_event_row :: "json \<Rightarrow> string list" where
  "release_event_row event = (case event of
      JObj e \<Rightarrow>
        (if dget e ''date'' = JNull \<and> dget e ''area_name'' = JNull then []
         else [py_str (py_or (dget e ''date'') (JStr [])) @ ''|'' @
               py_str (py_or (dget e ''area_name'') (JStr []))])
    | _ \<Rightarrow> [])"

definition release_event_rows :: "json \<Rightarrow> string list res" where
  "release_event_rows release_events =
     rbind (py_iter (py_or release_events (JArr []))) (\<lambda>events. Inr (concat (map release_event_row events)))"

definition release_row :: "obj \<Rightarrow> obj res" where
  "release_row record =
     rbind (release_event_rows (dget record ''release_events'')) (\<lambda>events.
       Inr [(''mbid'', dget_default record ''mbid'' (dget record ''id'')),
            (''mb_barcode'', dget record ''barcode''),
            (''mb_status'', dget record ''status''),
            (''release_group_mbid'', dget record ''release_group_mbid''),
            (''mb_country'', dget record ''country''),
            (''mb_release_events'', JArr (map JStr events))])"

definition release_group_row :: "obj \<Rightarrow> obj res" where
  "release_group_row record =
     Inr [(''mbid'', dget_default record ''mbid'' (dget record ''id'')),
          (''mb_type'', dget_default record ''mb_type'' (dget record ''type'')),
          (''mb_secondary_types'', dget_default record ''secondary_types'' (JArr [])),
          (''mb_first_release_date'', dget record ''first_release_date''),
          (''mb_disambiguation'', dget record ''disambiguation'')]"

section \<open>The payload hash and the gated statement\<close>

definition HASH_VERSION :: string where
  "HASH_VERSION = ''v1''"

definition payload_hash :: "env \<Rightarrow> json list \<Rightarrow> string" where
  "payload_hash E parts = HASH_VERSION @ '':'' @ digest E parts"

definition row_json :: "edge_row \<Rightarrow> json" where
  "row_json r = JObj [(''medium'', JStr (er_medium r)), (''family'', JStr (er_family r)),
                      (''label'', JStr (er_label r)), (''qty'', JInt (er_qty r))]"

definition media_digest :: "env \<Rightarrow> obj \<Rightarrow> json res" where
  "media_digest E record =
     (case release_media_block E record of
        None \<Rightarrow> Inr JNull
      | Some media \<Rightarrow>
          rbind (media_items media) (\<lambda>items.
          rbind (media_edge_rows E media) (\<lambda>rows.
            Inr (JArr [families_of E media, JInt (int (length items)), JArr (map row_json rows)]))))"

definition set_fields :: "fields \<Rightarrow> obj \<Rightarrow> props \<Rightarrow> props" where
  "set_fields fs row n = fold (\<lambda>(prop, key). set_prop prop (dget row key)) fs n"

definition gate_open :: "env \<Rightarrow> string \<Rightarrow> props \<Rightarrow> bool" where
  "gate_open E h n = (if replay_gate E then n ''mb_hash'' \<noteq> Some (JStr h) else True)"

definition write_props :: "fields \<Rightarrow> obj \<Rightarrow> string \<Rightarrow> string \<Rightarrow> props \<Rightarrow> props" where
  "write_props fs row h now n =
     set_prop ''mb_updated_at'' (JStr now) (set_prop ''mb_hash'' (JStr h) (set_fields fs row n))"

text \<open>
  What a matched row reports: whether the node was written, and the relations digest stored on it
  (returned by the artist batch statement only).
\<close>

record gate_result =
  changed :: bool
  relations_hash :: json

definition gated_write ::
    "env \<Rightarrow> nlabel \<Rightarrow> fields \<Rightarrow> string \<Rightarrow> obj \<Rightarrow> string \<Rightarrow> string \<Rightarrow> graph \<Rightarrow> gate_result option \<times> graph" where
  "gated_write E label fs discogs_id row h now g =
     (case nodes g (label, discogs_id) of
        None \<Rightarrow> (None, g)
      | Some n \<Rightarrow>
          (Some \<lparr>changed = gate_open E h n,
                 relations_hash = (case n ''mb_relations_hash'' of None \<Rightarrow> JNull | Some v \<Rightarrow> v)\<rparr>,
           if gate_open E h n then upd_node (label, discogs_id) (write_props fs row h now) g else g))"

definition record_outcome :: "gate_result option \<Rightarrow> stats \<Rightarrow> bool \<times> stats" where
  "record_outcome matched st = (case matched of
      None \<Rightarrow> (False, st\<lparr>entities_skipped_no_discogs_match := entities_skipped_no_discogs_match st + 1\<rparr>)
    | Some r \<Rightarrow>
        let st1 = st\<lparr>entities_enriched := entities_enriched st + 1\<rparr>
        in (changed r, if changed r then st1
             else st1\<lparr>replays_skipped_unchanged := replays_skipped_unchanged st1 + 1\<rparr>))"

section \<open>Artist relationships\<close>

text \<open>\<open>MB_RELATIONSHIP_MAP.get(relation.get("type", ""))\<close>: an unhashable type raises.\<close>

definition edge_type_of :: "json \<Rightarrow> string option res" where
  "edge_type_of relation =
     rbind (jget_default relation ''type'' (JStr [])) (\<lambda>t.
       if hashable t then Inr (case t of JStr s \<Rightarrow> map_of MB_RELATIONSHIP_MAP s | _ \<Rightarrow> None)
       else Inl TypeError)"

text \<open>The canonical edge of a relation: a backward one swaps its ends.\<close>

definition edge_ends :: "string \<Rightarrow> string \<Rightarrow> json \<Rightarrow> string \<times> string" where
  "edge_ends source target direction =
     (if direction = JStr ''backward'' then (target, source) else (source, target))"

definition project_relation :: "string \<Rightarrow> json \<Rightarrow> tx_state \<Rightarrow> tx_state res" where
  "project_relation source relation s = (case s of (st, g) \<Rightarrow>
     rbind (edge_type_of relation) (\<lambda>et. case et of
        None \<Rightarrow> Inr (st, g)
      | Some t \<Rightarrow>
          rbind (jget relation ''target_discogs_artist_id'') (\<lambda>target.
          if target = JNull
          then Inr (st\<lparr>relationships_skipped_missing_side := relationships_skipped_missing_side st + 1\<rparr>, g)
          else rbind (jget relation ''direction'') (\<lambda>direction.
            let (src, tgt) = edge_ends source (py_str target) direction;
                (created, matched, g') = merge_rel t src tgt g
            in Inr (if created > 0 then st\<lparr>relationships_created := relationships_created st + 1\<rparr>
                    else if matched > 0 then st\<lparr>relationships_updated := relationships_updated st + 1\<rparr>
                    else st\<lparr>relationships_skipped_missing_side := relationships_skipped_missing_side st + 1\<rparr>,
                    g')))))"

definition create_relationship_edges :: "string \<Rightarrow> json list \<Rightarrow> tx_state \<Rightarrow> tx_state res" where
  "create_relationship_edges source_discogs_id relations = rfold (project_relation source_discogs_id) relations"

section \<open>The four entity projections\<close>

definition skip_no_match :: "stats \<Rightarrow> stats" where
  "skip_no_match st = st\<lparr>entities_skipped_no_discogs_match := entities_skipped_no_discogs_match st + 1\<rparr>"

definition enrich_artist :: "env \<Rightarrow> string \<Rightarrow> obj \<Rightarrow> tx_state \<Rightarrow> tx_state res" where
  "enrich_artist E now record s = (case s of (st, g) \<Rightarrow>
     (let discogs_id = dget record ''discogs_artist_id'' in
      if discogs_id = JNull then Inr (skip_no_match st, g)
      else let relations = py_or (dget record ''relations'') (JArr []) in
        rbind (artist_row record) (\<lambda>row.
          let (matched, g1) = gated_write E Artist ARTIST_FIELDS (py_str discogs_id) row
                 (payload_hash E [JObj row, relations]) now g;
              (_, st1) = record_outcome matched st
          in if truthy relations \<and> matched \<noteq> None
             then rbind (py_iter relations) (\<lambda>rels. create_relationship_edges (py_str discogs_id) rels (st1, g1))
             else Inr (st1, g1))))"

definition enrich_label :: "env \<Rightarrow> string \<Rightarrow> obj \<Rightarrow> tx_state \<Rightarrow> tx_state res" where
  "enrich_label E now record s = (case s of (st, g) \<Rightarrow>
     (let discogs_id = dget record ''discogs_label_id'' in
      if discogs_id = JNull then Inr (skip_no_match st, g)
      else rbind (label_row record) (\<lambda>row.
        let (matched, g1) = gated_write E Label LABEL_FIELDS (py_str discogs_id) row
               (payload_hash E [JObj row, JNull]) now g
        in Inr (snd (record_outcome matched st), g1))))"

definition enrich_release :: "env \<Rightarrow> string \<Rightarrow> obj \<Rightarrow> tx_state \<Rightarrow> tx_state res" where
  "enrich_release E now record s = (case s of (st, g) \<Rightarrow>
     (let discogs_id = dget record ''discogs_release_id'' in
      if discogs_id = JNull then Inr (skip_no_match st, g)
      else rbind (release_row record) (\<lambda>row.
        rbind (media_digest E record) (\<lambda>media.
          let (matched, g1) = gated_write E Release RELEASE_FIELDS (py_str discogs_id) row
                 (payload_hash E [JObj row, media]) now g;
              (written, st1) = record_outcome matched st
          in if written
             then rbind (reconcile_release_media E (py_str discogs_id) record g1) (\<lambda>r. Inr (st1, snd r))
             else Inr (st1, g1)))))"

definition enrich_release_group :: "env \<Rightarrow> string \<Rightarrow> obj \<Rightarrow> tx_state \<Rightarrow> tx_state res" where
  "enrich_release_group E now record s = (case s of (st, g) \<Rightarrow>
     (let discogs_id = dget record ''discogs_master_id'' in
      if discogs_id = JNull then Inr (skip_no_match st, g)
      else rbind (release_group_row record) (\<lambda>row.
        let (matched, g1) = gated_write E Master RELEASE_GROUP_FIELDS (py_str discogs_id) row
               (payload_hash E [JObj row, JNull]) now g
        in Inr (snd (record_outcome matched st), g1))))"

end
