(* ===== verification/Projection.thy ===== *)
theory Projection
  imports Enrich
begin

text \<open>
  What every projection promises the delivery lifecycle, as the locale \<open>enricher\<close>: each record
  is counted exactly once, and the graph changes only within the service's own territory
  (\<open>graph_frame\<close>). The four per-record functions are interpreted below.
\<close>

section \<open>The service's territory\<close>

definition owned_prop :: "string \<Rightarrow> bool" where
  "owned_prop p \<longleftrightarrow> take 2 p = ''mb''"

text \<open>
  \<open>graph_frame g g'\<close>: no catalog node appears or disappears, properties outside the \<open>mb\<close> names
  are kept, edges of other sources are kept, artist edges and families are only added, and
  well-formedness is kept.
\<close>

definition graph_frame :: "graph \<Rightarrow> graph \<Rightarrow> bool" where
  "graph_frame g g' \<longleftrightarrow>
     (\<forall>k. (nodes g' k = None) = (nodes g k = None)) \<and>
     (\<forall>k n n' p. nodes g k = Some n \<longrightarrow> nodes g' k = Some n' \<longrightarrow> \<not> owned_prop p \<longrightarrow> n' p = n p) \<and>
     (\<forall>r m s. s \<noteq> Some MEDIA_SOURCE \<longrightarrow> issued_view g' (r, m, s) = issued_view g (r, m, s)) \<and>
     edge_set g \<subseteq> edge_set g' \<and> families g \<subseteq> families g' \<and> other_rels g' = other_rels g \<and>
     (wf_graph g \<longrightarrow> wf_graph g')"

lemma graph_frame_refl [simp, intro]: "graph_frame g g"
  by (simp add: graph_frame_def)

lemma graph_frame_trans:
  assumes f: "graph_frame g h" and f': "graph_frame h k"
  shows "graph_frame g k"
proof -
  have "n' p = n p" if "nodes g x = Some n" "nodes k x = Some n'" "\<not> owned_prop p" for x n n' p
  proof -
    from f that(1) obtain m where "nodes h x = Some m"
      unfolding graph_frame_def by (metis not_None_eq)
    with f f' that show ?thesis unfolding graph_frame_def by metis
  qed
  then show ?thesis
    using f f' unfolding graph_frame_def by auto
qed

lemma set_fields_other: "p \<notin> fst ` set fs \<Longrightarrow> set_fields fs row n p = n p"
  unfolding set_fields_def by (induction fs arbitrary: n) auto

lemma owned_write_props:
  assumes "\<forall>(p, k) \<in> set fs. owned_prop p" and "\<not> owned_prop p"
  shows "write_props fs row h now n p = n p"
proof -
  have "p \<noteq> ''mb_updated_at''" "p \<noteq> ''mb_hash''" "p \<notin> fst ` set fs"
    using assms by (auto simp: owned_prop_def)
  then show ?thesis by (simp add: write_props_def set_fields_other)
qed

lemma owned_fields:
  "\<forall>(p, k) \<in> set ARTIST_FIELDS. owned_prop p" "\<forall>(p, k) \<in> set LABEL_FIELDS. owned_prop p"
  "\<forall>(p, k) \<in> set RELEASE_FIELDS. owned_prop p" "\<forall>(p, k) \<in> set RELEASE_GROUP_FIELDS. owned_prop p"
  by (simp_all add: ARTIST_FIELDS_def LABEL_FIELDS_def RELEASE_FIELDS_def RELEASE_GROUP_FIELDS_def owned_prop_def)

section \<open>Frames of the building blocks\<close>

lemma graph_frame_upd_node:
  assumes "\<And>n p. \<not> owned_prop p \<Longrightarrow> f n p = n p"
  shows "graph_frame g (upd_node k f g)"
  unfolding graph_frame_def
  by (auto simp: nodes_upd_node frame_simps assms edge_set_def wf_graph_upd_node
      issued_view_cong [of "upd_node k f g" g])

lemma graph_frame_gated_write:
  assumes "gated_write E l fs d row h now g = (m, g')" and "\<forall>(p, k) \<in> set fs. owned_prop p"
  shows "graph_frame g g'"
  using assms
  by (auto simp: gated_write_def owned_write_props intro: graph_frame_upd_node split: option.splits if_splits)

lemma graph_frame_merge_rel:
  assumes "merge_rel t s d g = (c, m, g')"
  shows "graph_frame g g'"
  using frame_simps(7-12) [of t s d g c m g'] edge_set_merge_rel [OF assms]
    wf_graph_merge_rel [OF assms] issued_view_cong [of g' g] merge_rel_frame [OF assms]
  unfolding graph_frame_def by auto

section \<open>The relation loop as a total fold\<close>

text \<open>
  For a relation that is a dict with a hashable type the loop body cannot raise; \<open>relation_step\<close>
  is its effect, with \<open>relation_key\<close> the canonical edge of a supported relation whose target is known.
\<close>

definition relation_ok :: "json \<Rightarrow> bool" where
  "relation_ok r = (case r of JObj d \<Rightarrow> hashable (dget_default d ''type'' (JStr [])) | _ \<Rightarrow> False)"

definition relation_type :: "json \<Rightarrow> string option" where
  "relation_type r = (case r of
      JObj d \<Rightarrow> (case dget_default d ''type'' (JStr []) of JStr t \<Rightarrow> map_of MB_RELATIONSHIP_MAP t | _ \<Rightarrow> None)
    | _ \<Rightarrow> None)"

definition relation_key :: "string \<Rightarrow> json \<Rightarrow> (string \<times> string \<times> string) option" where
  "relation_key source r = (case r of
      JObj d \<Rightarrow> (case relation_type r of
          Some t \<Rightarrow> (if dget d ''target_discogs_artist_id'' = JNull then None
             else Some (t, edge_ends source (py_str (dget d ''target_discogs_artist_id'')) (dget d ''direction'')))
        | None \<Rightarrow> None)
    | _ \<Rightarrow> None)"

definition skip_side :: "stats \<Rightarrow> stats" where
  "skip_side st = st\<lparr>relationships_skipped_missing_side := relationships_skipped_missing_side st + 1\<rparr>"

definition count_merge :: "nat \<Rightarrow> nat \<Rightarrow> stats \<Rightarrow> stats" where
  "count_merge created matched st =
     (if created > 0 then st\<lparr>relationships_created := relationships_created st + 1\<rparr>
      else if matched > 0 then st\<lparr>relationships_updated := relationships_updated st + 1\<rparr>
      else skip_side st)"

definition relation_step :: "string \<Rightarrow> json \<Rightarrow> tx_state \<Rightarrow> tx_state" where
  "relation_step source r s =
     (if relation_type r = None then s
      else case relation_key source r of
        None \<Rightarrow> (skip_side (fst s), snd s)
      | Some (t, a, b) \<Rightarrow> (case merge_rel t a b (snd s) of (c, m, g') \<Rightarrow> (count_merge c m (fst s), g')))"

lemma project_relation_eq:
  "project_relation source r s =
     (case r of JObj d \<Rightarrow> if relation_ok r then Inr (relation_step source r s) else Inl TypeError
      | _ \<Rightarrow> Inl AttributeError)"
proof (cases r)
  case (JObj d)
  then show ?thesis
    by (cases s; cases "dget_default d ''type'' (JStr [])")
      (auto simp: project_relation_def relation_ok_def relation_step_def relation_type_def relation_key_def
        edge_type_of_def count_merge_def skip_side_def Let_def split: option.splits prod.splits)
qed (cases s; simp add: project_relation_def edge_type_of_def)+

lemma project_relation_Inr:
  "(project_relation source r s = Inr s') = (relation_ok r \<and> s' = relation_step source r s)"
  by (cases r) (auto simp: project_relation_eq relation_ok_def)

lemma create_relationship_edges_Inr:
  "(create_relationship_edges source rels s = Inr s') =
     ((\<forall>r \<in> set rels. relation_ok r) \<and> s' = fold (relation_step source) rels s)"
  unfolding create_relationship_edges_def
  by (induction rels arbitrary: s) (auto simp: res_simps project_relation_Inr)

lemma relation_key_type: "relation_key source r = Some (t, e) \<Longrightarrow> relation_type r = Some t"
  by (auto simp: relation_key_def split: json.splits option.splits if_splits)

lemma relation_step_graph:
  "snd (relation_step source r s) = (case relation_key source r of
      None \<Rightarrow> snd s | Some (t, a, b) \<Rightarrow> snd (snd (merge_rel t a b (snd s))))"
  by (auto simp: relation_step_def dest: relation_key_type split: option.splits prod.splits)

lemma graph_frame_merge_rel_snd: "graph_frame g (snd (snd (merge_rel t s d g)))"
  by (cases "merge_rel t s d g") (auto dest: graph_frame_merge_rel)

lemma graph_frame_relation_steps: "graph_frame (snd s) (snd (fold (relation_step source) rels s))"
proof (induction rels arbitrary: s)
  case (Cons r rels)
  have "graph_frame (snd s) (snd (relation_step source r s))"
    by (auto simp: relation_step_graph graph_frame_merge_rel_snd split: option.split)
  with Cons.IH [of "relation_step source r s"] show ?case by (auto intro: graph_frame_trans)
qed simp

lemma nodes_relation_steps: "nodes (snd (fold (relation_step source) rels s)) = nodes (snd s)"
proof (induction rels arbitrary: s)
  case (Cons r rels)
  have "nodes (snd (snd (merge_rel t a b g))) = nodes g" for t a b g
    by (cases "merge_rel t a b g") (simp add: merge_rel_frame)
  then have "nodes (snd (relation_step source r s)) = nodes (snd s)"
    by (auto simp: relation_step_graph split: option.split)
  with Cons.IH [of "relation_step source r s"] show ?case by simp
qed simp

lemma fold_set_summary_prop:
  assumes "nodes (fold set_summary xs h) k = Some n'" and "nodes h k = Some n"
    and p: "p \<noteq> ''mb_medium_count''" "p \<noteq> ''mb_media_families''"
  shows "n' p = n p"
  using assms(1,2)
proof (induction xs arbitrary: h n)
  case (Cons a xs)
  have "\<exists>m. nodes (set_summary a h) k = Some m \<and> m p = n p"
    using Cons.prems p
    by (cases "k = (Release, ms_release a)") (simp_all add: set_summary_def nodes_upd_node)
  then obtain m where "nodes (set_summary a h) k = Some m" "m p = n p" by blast
  with Cons.IH [of "set_summary a h" m] Cons.prems show ?case by simp
qed simp

lemma apply_media_prop:
  assumes "nodes g k = Some n" and "nodes (apply_media S I g) k = Some n'"
    and "p \<noteq> ''mb_medium_count''" "p \<noteq> ''mb_media_families''"
  shows "n' p = n p"
proof -
  have "nodes (apply_media S I g) =
      nodes (fold set_summary (matched_rows S g) (lock_graph (map summary_key S) (map snd I) g))"
    by (simp only: apply_media_def frame_simps nodes_summary_batch)
  with assms show ?thesis
    by (intro fold_set_summary_prop [of _ "lock_graph (map summary_key S) (map snd I) g"])
      (simp_all only: frame_simps simp_thms)
qed

lemma graph_frame_apply_media:
  assumes "good_plan S I"
  shows "graph_frame g (apply_media S I g)"
proof -
  have props: "n' p = n p" if "nodes g k = Some n" "nodes (apply_media S I g) k = Some n'" "\<not> owned_prop p" for k n n' p
    using that by (intro apply_media_prop) (auto simp: owned_prop_def)
  have views: "issued_view (apply_media S I g) (r, m, s) = issued_view g (r, m, s)"
    if "s \<noteq> Some MEDIA_SOURCE" for r m s
    using that by (simp only: apply_media_view [OF assms] simp_thms if_False)
  have edges: "edge_set (apply_media S I g) = edge_set g"
    by (simp only: edge_set_def apply_media_frame)
  show ?thesis
    unfolding graph_frame_def edges apply_media_frame nodes_apply_media_dom
    by (intro conjI allI impI views apply_media_families wf_apply_media refl order_refl) (rule props)
qed

section \<open>The per-message media reconcile is a plan\<close>

definition media_plan :: "string \<Rightarrow> json \<Rightarrow> json list \<Rightarrow> edge_row list \<Rightarrow> media_summary" where
  "media_plan r fams items rows = \<lparr>ms_release = r, ms_families = fams,
     ms_count = int (length items), ms_medium_ids = map er_medium rows\<rparr>"

lemma reconcile_as_plan:
  assumes "release_media_block E record = Some media"
    and "media_edge_rows E media = Inr rows" and "media_items media = Inr items"
  shows "reconcile_release_media E r record g =
    Inr (True, apply_media [media_plan r (families_of E media) items rows] (map (Pair r) rows) g)"
  using assms
  by (simp add: reconcile_release_media_def apply_media_def media_plan_def summary_key_def comp_def
      release_media_summary_def release_media_edges_def release_media_edges_batch_def Let_def)

lemma good_plan_single:
  assumes "distinct (map er_medium rows)"
  shows "good_plan [media_plan r fams items rows] (map (Pair r) rows)"
proof -
  have "map fst (item_qtys (map (Pair r) rows)) = map (Pair r) (map er_medium rows)"
    by (simp add: item_qtys_def comp_def)
  then have "distinct (map fst (item_qtys (map (Pair r) rows)))"
    using assms by (simp only: distinct_map) (simp add: inj_on_def)
  then show ?thesis
    by (auto simp: good_plan_def media_plan_def)
qed

lemma reconcile_cases:
  assumes "reconcile_release_media E r record g = Inr (b, g')"
  obtains "release_media_block E record = None" "b = False" "g' = g"
  | media rows items where "release_media_block E record = Some media"
      "media_edge_rows E media = Inr rows" "media_items media = Inr items" "b = True"
      "g' = apply_media [media_plan r (families_of E media) items rows] (map (Pair r) rows) g"
proof (cases "release_media_block E record")
  case None
  with assms that(1) show ?thesis by (simp add: reconcile_release_media_def)
next
  case (Some media)
  with assms obtain rows items where "media_edge_rows E media = Inr rows" "media_items media = Inr items"
    by (auto simp: reconcile_release_media_def res_simps)
  with assms that(2) [OF Some this] reconcile_as_plan [OF Some this, of r g] show ?thesis by simp
qed

lemma graph_frame_reconcile:
  "reconcile_release_media E r record g = Inr (b, g') \<Longrightarrow> graph_frame g g'"
  by (erule reconcile_cases)
    (auto intro: graph_frame_apply_media good_plan_single media_edge_rows_distinct)

section \<open>The contract of a projection\<close>

definition handled :: "stats \<Rightarrow> int" where
  "handled st = entities_enriched st + entities_skipped_no_discogs_match st"

text \<open>
  A projection counts a record exactly once, as enriched or as without a catalog match; a replay
  is counted only for an enriched record.
\<close>

definition counted_once :: "stats \<Rightarrow> stats \<Rightarrow> bool" where
  "counted_once st st' \<longleftrightarrow>
     (entities_enriched st' = entities_enriched st + 1 \<and>
        entities_skipped_no_discogs_match st' = entities_skipped_no_discogs_match st \<or>
      entities_enriched st' = entities_enriched st \<and>
        entities_skipped_no_discogs_match st' = entities_skipped_no_discogs_match st + 1) \<and>
     0 \<le> replays_skipped_unchanged st' - replays_skipped_unchanged st \<and>
     replays_skipped_unchanged st' - replays_skipped_unchanged st \<le> entities_enriched st' - entities_enriched st"

locale enricher =
  fixes enrich :: "obj \<Rightarrow> tx_state \<Rightarrow> tx_state res"
  assumes counts: "enrich record (st, g) = Inr (st', g') \<Longrightarrow> counted_once st st'"
    and frames: "enrich record (st, g) = Inr (st', g') \<Longrightarrow> graph_frame g g'"
begin

lemma sequence_handled:
  "rfold enrich records (st, g) = Inr (st', g') \<Longrightarrow> handled st' = handled st + int (length records)"
proof (induction records arbitrary: st g)
  case (Cons r rs)
  then obtain st1 g1 where "enrich r (st, g) = Inr (st1, g1)" "rfold enrich rs (st1, g1) = Inr (st', g')"
    by (auto simp: res_simps)
  with Cons.IH [of st1 g1] counts [of r st g st1 g1] show ?case
    by (auto simp: counted_once_def handled_def)
qed simp

lemma sequence_frame: "rfold enrich records (st, g) = Inr (st', g') \<Longrightarrow> graph_frame g g'"
proof (induction records arbitrary: st g)
  case (Cons r rs)
  then obtain st1 g1 where "enrich r (st, g) = Inr (st1, g1)" "rfold enrich rs (st1, g1) = Inr (st', g')"
    by (auto simp: res_simps)
  with Cons.IH [of st1 g1] frames [of r st g st1 g1] show ?case by (auto intro: graph_frame_trans)
qed simp

end

lemma counted_skip: "counted_once st (skip_no_match st)"
  by (simp add: counted_once_def skip_no_match_def)

lemma counted_outcome: "counted_once st (snd (record_outcome m st))"
  by (auto simp: counted_once_def record_outcome_def Let_def split: option.split)

lemma relation_step_entities:
  "entities_enriched (fst (relation_step source r s)) = entities_enriched (fst s)"
  "entities_skipped_no_discogs_match (fst (relation_step source r s)) = entities_skipped_no_discogs_match (fst s)"
  "replays_skipped_unchanged (fst (relation_step source r s)) = replays_skipped_unchanged (fst s)"
  by (auto simp: relation_step_def count_merge_def skip_side_def split: option.splits prod.splits)

lemma counted_relation_steps:
  "counted_once st (fst (fold (relation_step source) rels s)) = counted_once st (fst s)"
proof (induction rels arbitrary: s)
  case (Cons r rels)
  have "counted_once st (fst (relation_step source r s)) = counted_once st (fst s)"
    by (simp add: counted_once_def relation_step_entities)
  with Cons show ?case by simp
qed simp

text \<open>What a successful run of each projection did.\<close>

definition record_relations :: "obj \<Rightarrow> json list" where
  "record_relations record = (case py_iter (py_or (dget record ''relations'') (JArr [])) of
      Inr rels \<Rightarrow> rels | Inl _ \<Rightarrow> [])"

lemma falsy_relations: "\<not> truthy (py_or x (JArr [])) \<Longrightarrow> py_iter (py_or x (JArr [])) = Inr []"
  by (auto simp: py_or_def split: if_splits)

lemma enrich_artist_eq:
  "enrich_artist E now record (st, g) =
     (let d = dget record ''discogs_artist_id''; rels = py_or (dget record ''relations'') (JArr []) in
      if d = JNull then Inr (skip_no_match st, g)
      else rbind (artist_row record) (\<lambda>row.
        case gated_write E Artist ARTIST_FIELDS (py_str d) row (payload_hash E [JObj row, rels]) now g of
          (None, g1) \<Rightarrow> Inr (skip_no_match st, g1)
        | (Some m, g1) \<Rightarrow> rbind (py_iter rels) (\<lambda>rs.
            create_relationship_edges (py_str d) rs (snd (record_outcome (Some m) st), g1))))"
  unfolding enrich_artist_def Let_def prod.case
  by (intro if_cong refl arg_cong2 [of _ _ _ _ rbind] ext)
    (simp add: record_outcome_def skip_no_match_def falsy_relations create_relationship_edges_def Let_def
      split: prod.split option.split)

lemma enrich_artist_Inr:
  assumes run: "enrich_artist E now record (st, g) = Inr r'"
  obtains "dget record ''discogs_artist_id'' = JNull" "r' = (skip_no_match st, g)"
  | row g1 where "dget record ''discogs_artist_id'' \<noteq> JNull" "artist_row record = Inr row"
      "gated_write E Artist ARTIST_FIELDS (py_str (dget record ''discogs_artist_id'')) row
         (payload_hash E [JObj row, py_or (dget record ''relations'') (JArr [])]) now g = (None, g1)"
      "r' = (skip_no_match st, g1)"
  | row m g1 where "dget record ''discogs_artist_id'' \<noteq> JNull" "artist_row record = Inr row"
      "gated_write E Artist ARTIST_FIELDS (py_str (dget record ''discogs_artist_id'')) row
         (payload_hash E [JObj row, py_or (dget record ''relations'') (JArr [])]) now g = (Some m, g1)"
      "py_iter (py_or (dget record ''relations'') (JArr [])) = Inr (record_relations record)"
      "\<forall>r \<in> set (record_relations record). relation_ok r"
      "r' = fold (relation_step (py_str (dget record ''discogs_artist_id'')))
         (record_relations record) (snd (record_outcome (Some m) st), g1)"
proof (cases "dget record ''discogs_artist_id'' = JNull")
  case True
  with run that(1) show ?thesis by (simp add: enrich_artist_def)
next
  case False
  let ?d = "py_str (dget record ''discogs_artist_id'')"
  let ?rels = "py_or (dget record ''relations'') (JArr [])"
  from False run obtain row where row: "artist_row record = Inr row"
    by (auto simp: enrich_artist_eq res_simps Let_def)
  obtain m g1 where gw: "gated_write E Artist ARTIST_FIELDS ?d row (payload_hash E [JObj row, ?rels]) now g = (m, g1)"
    by fastforce
  show ?thesis
  proof (cases m)
    case None
    with run False row gw that(2) [OF False row] show ?thesis
      by (simp add: enrich_artist_eq)
  next
    case (Some r)
    from run False row gw Some obtain rs where it: "py_iter ?rels = Inr rs"
      and "create_relationship_edges ?d rs (snd (record_outcome (Some r) st), g1) = Inr r'"
      by (auto simp: enrich_artist_eq res_simps)
    with that(3) [OF False row, of r g1] gw Some show ?thesis
      by (simp add: create_relationship_edges_Inr record_relations_def)
  qed
qed

lemma nodes_only_Inr:
  assumes "(if d = JNull then Inr (skip_no_match st, g)
      else rbind row_res (\<lambda>row. let (matched, g1) = gated_write E l fs (py_str d) row (h row) now g
             in Inr (snd (record_outcome matched st), g1))) = Inr r'"
  obtains "d = JNull" "r' = (skip_no_match st, g)"
  | row m g1 where "d \<noteq> JNull" "row_res = Inr row" "gated_write E l fs (py_str d) row (h row) now g = (m, g1)"
      "r' = (snd (record_outcome m st), g1)"
proof (cases "d = JNull")
  case True
  with assms that(1) show ?thesis by simp
next
  case False
  with assms obtain row where row: "row_res = Inr row" by (auto simp: res_simps)
  obtain m g1 where "gated_write E l fs (py_str d) row (h row) now g = (m, g1)" by fastforce
  with assms False row that(2) [OF False row this] show ?thesis by simp
qed

lemma enrich_release_Inr:
  assumes run: "enrich_release E now record (st, g) = Inr r'"
  obtains "dget record ''discogs_release_id'' = JNull" "r' = (skip_no_match st, g)"
  | row media m g1 g2 b where "dget record ''discogs_release_id'' \<noteq> JNull" "release_row record = Inr row"
      "media_digest E record = Inr media"
      "gated_write E Release RELEASE_FIELDS (py_str (dget record ''discogs_release_id'')) row
         (payload_hash E [JObj row, media]) now g = (m, g1)"
      "if fst (record_outcome m st)
       then reconcile_release_media E (py_str (dget record ''discogs_release_id'')) record g1 = Inr (b, g2)
       else g2 = g1"
      "r' = (snd (record_outcome m st), g2)"
proof (cases "dget record ''discogs_release_id'' = JNull")
  case True
  with run that(1) show ?thesis by (simp add: enrich_release_def)
next
  case False
  from run False obtain row media where row: "release_row record = Inr row" "media_digest E record = Inr media"
    by (auto simp: enrich_release_def Let_def res_simps)
  obtain m g1 where gw: "gated_write E Release RELEASE_FIELDS (py_str (dget record ''discogs_release_id'')) row
         (payload_hash E [JObj row, media]) now g = (m, g1)"
    by fastforce
  from run False row gw that(2) [OF False row gw] show ?thesis
    by (cases "fst (record_outcome m st)")
      (auto simp: enrich_release_def Let_def res_simps split: prod.splits)
qed

lemmas gated_frames = graph_frame_gated_write [OF _ owned_fields(1)] graph_frame_gated_write [OF _ owned_fields(2)]
  graph_frame_gated_write [OF _ owned_fields(3)] graph_frame_gated_write [OF _ owned_fields(4)]

text \<open>The interpretations.\<close>

interpretation artists: enricher "enrich_artist E now" for E and now
proof
  fix ev st g st' g'
  assume run: "enrich_artist E now ev (st, g) = Inr (st', g')"
  show "counted_once st st'"
    using run
  proof (cases rule: enrich_artist_Inr)
    case (3 row m g1)
    have "counted_once st (fst (st', g'))"
      unfolding 3(6) counted_relation_steps fst_conv by (rule counted_outcome)
    then show ?thesis by simp
  qed (simp_all add: counted_skip)
  show "graph_frame g g'"
    using run
  proof (cases rule: enrich_artist_Inr)
    case (3 row m g1)
    let ?s = "(snd (record_outcome (Some m) st), g1)"
    have "graph_frame g (snd ?s)"
      using gated_frames(1) [OF 3(3)] by simp
    moreover have "graph_frame (snd ?s) (snd (st', g'))"
      unfolding 3(6) by (rule graph_frame_relation_steps)
    ultimately show ?thesis unfolding snd_conv by (rule graph_frame_trans)
  qed (auto intro: gated_frames)
qed

interpretation labels: enricher "enrich_label E now" for E and now
proof
  fix ev st g st' g'
  assume "enrich_label E now ev (st, g) = Inr (st', g')"
  then show "counted_once st st'" "graph_frame g g'"
    unfolding enrich_label_def Let_def prod.case
    by (auto elim!: nodes_only_Inr [unfolded Let_def] simp: counted_skip counted_outcome
        intro: gated_frames)
qed

interpretation release_groups: enricher "enrich_release_group E now" for E and now
proof
  fix ev st g st' g'
  assume "enrich_release_group E now ev (st, g) = Inr (st', g')"
  then show "counted_once st st'" "graph_frame g g'"
    unfolding enrich_release_group_def Let_def prod.case
    by (auto elim!: nodes_only_Inr [unfolded Let_def] simp: counted_skip counted_outcome
        intro: gated_frames)
qed

interpretation releases: enricher "enrich_release E now" for E and now
proof
  fix ev st g st' g'
  assume run: "enrich_release E now ev (st, g) = Inr (st', g')"
  then show "counted_once st st'"
    by (auto elim!: enrich_release_Inr simp: counted_skip counted_outcome)
  from run show "graph_frame g g'"
  proof (cases rule: enrich_release_Inr)
    case (2 row media m g1 g2 b)
    then have "graph_frame g g1" by (auto intro: gated_frames)
    moreover have "graph_frame g1 g2"
      using 2(5) graph_frame_reconcile graph_frame_refl by (cases "fst (record_outcome m st)") simp_all
    ultimately show ?thesis using 2 by (auto intro: graph_frame_trans)
  qed simp
qed

end
