(* ===== verification/Replay.thy ===== *)
theory Replay
  imports Projection
begin

text \<open>
  Redelivery. RabbitMQ delivers at least once, so every projection meets the same event again: with
  the replay gate on, the second run of an event that was projected leaves the graph exactly as it
  is. For the gated statement the stored digest decides; the artist relationships, which run for
  every matched event, are shown to have reached a fixed point.
\<close>

section \<open>The gated statement\<close>

lemma gated_write_replay:
  assumes "gated_write E l fs d row h now g = (m, g1)" and "replay_gate E"
    and "rel_option (\<lambda>n n'. n' ''mb_hash'' = n ''mb_hash'') (nodes g1 (l, d)) (nodes g2 (l, d))"
  obtains m' where "gated_write E l fs d row h now' g2 = (m', g2)" "(m' = None) = (m = None)"
    "\<And>r. m' = Some r \<Longrightarrow> \<not> changed r"
proof (cases "nodes g (l, d)")
  case None
  with assms that show ?thesis by (auto simp: gated_write_def)
next
  case (Some n)
  with assms(1,2) have "\<exists>n1. nodes g1 (l, d) = Some n1 \<and> n1 ''mb_hash'' = Some (JStr h) \<and> m \<noteq> None"
    by (auto simp: gated_write_def gate_open_def nodes_upd_node write_props_def split: if_splits)
  with assms(3) obtain n2 where "nodes g2 (l, d) = Some n2" "n2 ''mb_hash'' = Some (JStr h)" "m \<noteq> None"
    by (cases "nodes g2 (l, d)") auto
  with that assms(2) show ?thesis
    by (simp add: gated_write_def gate_open_def)
qed

lemma rel_option_refl_hash: "rel_option (\<lambda>n n'. n' ''mb_hash'' = n ''mb_hash'') x x"
  by (cases x) auto

text \<open>The counters of a replayed event: an enriched record is a skipped replay, nothing is created.\<close>

definition replay_counts :: "stats \<Rightarrow> stats \<Rightarrow> bool" where
  "replay_counts st st' \<longleftrightarrow>
     replays_skipped_unchanged st' - replays_skipped_unchanged st = entities_enriched st' - entities_enriched st \<and>
     relationships_created st' = relationships_created st"

lemma replay_counts_skip: "replay_counts st (skip_no_match st)"
  by (simp add: replay_counts_def skip_no_match_def)

lemma replay_counts_outcome:
  "(\<And>r. m = Some r \<Longrightarrow> \<not> changed r) \<Longrightarrow> replay_counts st (snd (record_outcome m st))"
  by (auto simp: replay_counts_def record_outcome_def Let_def split: option.split)

lemma not_written: "(\<And>r. m = Some r \<Longrightarrow> \<not> changed r) \<Longrightarrow> \<not> fst (record_outcome m st)"
  by (auto simp: record_outcome_def Let_def split: option.split)

section \<open>Settled relationships\<close>

text \<open>An edge key is settled when merging it again would change nothing.\<close>

definition settled :: "graph \<Rightarrow> string \<times> string \<times> string \<Rightarrow> bool" where
  "settled g k = (case k of (t, a, b) \<Rightarrow> artist_exists g a \<longrightarrow> artist_exists g b \<longrightarrow>
     0 < rel_count g t a b \<and>
     (\<forall>e \<in> set (arels g). rel_matches t a b e \<longrightarrow> a_source e = Some ''musicbrainz''))"

lemma merge_rel_of_settled:
  assumes "settled g (t, a, b)"
  shows "\<exists>m. merge_rel t a b g = (0, m, g)"
proof (cases "artist_exists g a \<and> artist_exists g b")
  case False
  then show ?thesis by (auto simp: merge_rel_def artist_exists_def)
next
  case True
  have "map (\<lambda>e. if rel_matches t a b e then e\<lparr>a_source := Some ''musicbrainz''\<rparr> else e) (arels g) = arels g"
    using assms True by (intro map_idI) (auto simp: settled_def)
  moreover obtain n where "length (filter (rel_matches t a b) (arels g)) = Suc n"
    using assms True by (auto simp: settled_def rel_count_def gr0_conv_Suc)
  moreover have "nodes g (Artist, a) \<noteq> None" "nodes g (Artist, b) \<noteq> None"
    using True by (simp_all add: artist_exists_def)
  ultimately have "merge_rel t a b g = (0, Suc n, g\<lparr>arels := arels g\<rparr>)"
    by (simp only: merge_rel_def simp_thms if_False nat.case)
  also have "g\<lparr>arels := arels g\<rparr> = g" by simp
  finally have "merge_rel t a b g = (0, Suc n, g)" .
  then show ?thesis ..
qed

lemma settled_merge_rel:
  assumes "merge_rel t a b g = (c, m, g')"
  shows "settled g' (t, a, b)" and "settled g k \<Longrightarrow> settled g' k"
proof -
  have ex: "artist_exists g' x = artist_exists g x" for x
    using merge_rel_frame(1) [OF assms] by (simp add: artist_exists_def)
  have stamped: "a_source e' = Some ''musicbrainz''"
    if "artist_exists g a" "artist_exists g b" "e' \<in> set (arels g')" "rel_matches t a b e'" for e'
  proof (cases "rel_count g t a b")
    case 0
    then have "\<forall>e \<in> set (arels g). \<not> rel_matches t a b e"
      by (simp add: rel_count_def filter_empty_conv)
    moreover have "arels g' = arels g @ [\<lparr>a_type = t, a_src = a, a_tgt = b, a_source = Some ''musicbrainz''\<rparr>]"
      using assms that(1,2) 0 by (auto simp: merge_rel_def artist_exists_def rel_count_def)
    ultimately show ?thesis using that(3,4) by auto
  next
    case (Suc n)
    then have "arels g' = map (\<lambda>e. if rel_matches t a b e then e\<lparr>a_source := Some ''musicbrainz''\<rparr> else e) (arels g)"
      using assms that(1,2) by (auto simp: merge_rel_def artist_exists_def rel_count_def)
    with that(3,4) show ?thesis by auto
  qed
  have new: "a_source e' = Some ''musicbrainz'' \<or> e' \<in> set (arels g)" if "e' \<in> set (arels g')" for e'
    using assms that by (auto simp: merge_rel_def split: if_splits nat.splits)
  show "settled g' (t, a, b)"
    using stamped by (auto simp: settled_def ex merge_rel_count [OF assms])
  show "settled g' k" if "settled g k"
  proof -
    obtain t' a' b' where k: "k = (t', a', b')" by (metis prod_cases3)
    have "0 < rel_count g' t' a' b'" if "0 < rel_count g t' a' b'"
      using that by (auto simp: merge_rel_count [OF assms])
    with \<open>settled g k\<close> new show ?thesis by (auto simp: k settled_def ex)
  qed
qed

lemma settled_relation_step:
  shows "relation_key d r = Some k \<Longrightarrow> settled (snd (relation_step d r s)) k"
    and "settled (snd s) k \<Longrightarrow> settled (snd (relation_step d r s)) k"
proof -
  show "settled (snd (relation_step d r s)) k" if "relation_key d r = Some k"
  proof -
    obtain t a b where k: "k = (t, a, b)" by (metis prod_cases3)
    with that show ?thesis
      by (cases "merge_rel t a b (snd s)") (simp add: relation_step_graph settled_merge_rel(1))
  qed
  show "settled (snd (relation_step d r s)) k" if "settled (snd s) k"
  proof (cases "relation_key d r")
    case (Some k')
    obtain t a b where k: "k' = (t, a, b)" by (metis prod_cases3)
    with that Some show ?thesis
      by (cases "merge_rel t a b (snd s)") (simp add: relation_step_graph settled_merge_rel(2))
  qed (simp add: relation_step_graph that)
qed

lemma settled_relation_steps:
  assumes "(\<exists>r \<in> set rels. relation_key d r = Some k) \<or> settled (snd s) k"
  shows "settled (snd (fold (relation_step d) rels s)) k"
  using assms
proof (induction rels arbitrary: s)
  case (Cons r rels)
  have "(\<exists>r' \<in> set rels. relation_key d r' = Some k) \<or> settled (snd (relation_step d r s)) k"
    using Cons.prems settled_relation_step(1) [of d r k s] settled_relation_step(2) [of s k d r] by auto
  from Cons.IH [OF this] show ?case by simp
qed simp

lemma relation_step_settled:
  assumes "\<And>k. relation_key d r = Some k \<Longrightarrow> settled g k"
  shows "snd (relation_step d r (st, g)) = g \<and>
    relationships_created (fst (relation_step d r (st, g))) = relationships_created st"
proof (cases "relation_key d r")
  case None
  then show ?thesis by (simp add: relation_step_def skip_side_def)
next
  case (Some k)
  obtain t a b where k: "k = (t, a, b)" by (metis prod_cases3)
  with Some assms obtain m where "merge_rel t a b g = (0, m, g)"
    using merge_rel_of_settled by blast
  with Some k show ?thesis by (simp add: relation_step_def count_merge_def skip_side_def)
qed

lemma relation_steps_settled:
  assumes "\<And>r k. r \<in> set rels \<Longrightarrow> relation_key d r = Some k \<Longrightarrow> settled g k"
  shows "snd (fold (relation_step d) rels (st, g)) = g \<and>
    relationships_created (fst (fold (relation_step d) rels (st, g))) = relationships_created st"
  using assms
proof (induction rels arbitrary: st)
  case (Cons r rels)
  obtain st1 where "relation_step d r (st, g) = (st1, g)" "relationships_created st1 = relationships_created st"
    using relation_step_settled [of d r g st] Cons.prems by (metis list.set_intros(1) prod.collapse)
  with Cons.IH [of st1] Cons.prems show ?case by auto
qed simp

section \<open>The contract\<close>

locale replay_safe =
  fixes enrich_at :: "string \<Rightarrow> obj \<Rightarrow> tx_state \<Rightarrow> tx_state res"
  assumes replay: "enrich_at now ev (st, g) = Inr (st1, g1) \<Longrightarrow>
      \<exists>st'. enrich_at now' ev (st2, g1) = Inr (st', g1) \<and> replay_counts st2 st'"
begin

lemma redeliveries:
  assumes "enrich_at now ev (st, g) = Inr (st1, g1)"
  shows "\<exists>st'. rfold (\<lambda>t. enrich_at t ev) instants (st2, g1) = Inr (st', g1) \<and> replay_counts st2 st'"
proof (induction instants arbitrary: st2)
  case (Cons t instants)
  from replay [OF assms, of t st2] obtain st3 where run: "enrich_at t ev (st2, g1) = Inr (st3, g1)"
    and counts: "replay_counts st2 st3"
    by blast
  from Cons.IH [of st3] obtain st' where "rfold (\<lambda>t. enrich_at t ev) instants (st3, g1) = Inr (st', g1)"
    "replay_counts st3 st'" by blast
  with run counts show ?case by (auto simp: replay_counts_def)
qed (simp add: replay_counts_def)

end

text \<open>The four projections with the gate on.\<close>

abbreviation gated :: "env \<Rightarrow> env" where
  "gated E \<equiv> E\<lparr>replay_gate := True\<rparr>"

lemma replay_nodes_only:
  assumes "gated_write E l fs d row h now g = (m, g1)" and "replay_gate E"
  obtains m' where "gated_write E l fs d row h now' g1 = (m', g1)"
    "replay_counts st (snd (record_outcome m' st))" "\<not> fst (record_outcome m' st)" "(m' = None) = (m = None)"
  using gated_write_replay [OF assms rel_option_refl_hash, of now'] replay_counts_outcome not_written by metis

interpretation labels_replay: replay_safe "enrich_label (gated E)" for E
proof
  fix now ev st g st1 g1 now' st2
  assume run: "enrich_label (gated E) now ev (st, g) = Inr (st1, g1)"
  show "\<exists>st'. enrich_label (gated E) now' ev (st2, g1) = Inr (st', g1) \<and> replay_counts st2 st'"
    using run [unfolded enrich_label_def Let_def prod.case]
  proof (cases rule: nodes_only_Inr [unfolded Let_def, consumes 1])
    case (2 row m g')
    then have eq: "g' = g1" by simp
    from replay_nodes_only [OF 2(3), where now' = now' and st = st2] obtain m' where
      "gated_write (gated E) Label LABEL_FIELDS (py_str (dget ev ''discogs_label_id'')) row
         (payload_hash (gated E) [JObj row, JNull]) now' g1 = (m', g1)"
      "replay_counts st2 (snd (record_outcome m' st2))"
      unfolding eq by auto
    with 2 show ?thesis by (simp add: enrich_label_def)
  qed (simp add: replay_counts_skip enrich_label_def)
qed

interpretation release_groups_replay: replay_safe "enrich_release_group (gated E)" for E
proof
  fix now ev st g st1 g1 now' st2
  assume run: "enrich_release_group (gated E) now ev (st, g) = Inr (st1, g1)"
  show "\<exists>st'. enrich_release_group (gated E) now' ev (st2, g1) = Inr (st', g1) \<and> replay_counts st2 st'"
    using run [unfolded enrich_release_group_def Let_def prod.case]
  proof (cases rule: nodes_only_Inr [unfolded Let_def, consumes 1])
    case (2 row m g')
    then have eq: "g' = g1" by simp
    from replay_nodes_only [OF 2(3), where now' = now' and st = st2] obtain m' where
      "gated_write (gated E) Master RELEASE_GROUP_FIELDS (py_str (dget ev ''discogs_master_id'')) row
         (payload_hash (gated E) [JObj row, JNull]) now' g1 = (m', g1)"
      "replay_counts st2 (snd (record_outcome m' st2))"
      unfolding eq by auto
    with 2 show ?thesis by (simp add: enrich_release_group_def)
  qed (simp add: replay_counts_skip enrich_release_group_def)
qed

lemma reconcile_keeps_hash:
  assumes "reconcile_release_media E r ev g = Inr (b, g')"
  shows "rel_option (\<lambda>n n'. n' ''mb_hash'' = n ''mb_hash'') (nodes g k) (nodes g' k)"
  using assms
proof (cases rule: reconcile_cases)
  case (2 media rows items)
  let ?S = "[media_plan r (families_of E media) items rows]" and ?I = "map (Pair r) rows"
  have "(nodes g' k = None) = (nodes g k = None)"
    unfolding 2(5) by (rule nodes_apply_media_dom)
  moreover have "n' ''mb_hash'' = n ''mb_hash''" if "nodes g k = Some n" "nodes g' k = Some n'" for n n'
    using that apply_media_prop [of g k n ?S ?I n' "''mb_hash''"] by (simp add: 2(5))
  ultimately show ?thesis
    by (cases "nodes g k"; cases "nodes g' k") auto
qed (simp add: rel_option_refl_hash)

interpretation releases_replay: replay_safe "enrich_release (gated E)" for E
proof
  fix now ev st g st1 g1 now' st2
  assume "enrich_release (gated E) now ev (st, g) = Inr (st1, g1)"
  then show "\<exists>st'. enrich_release (gated E) now' ev (st2, g1) = Inr (st', g1) \<and> replay_counts st2 st'"
  proof (cases rule: enrich_release_Inr)
    case 1
    then show ?thesis by (simp add: enrich_release_def replay_counts_skip)
  next
    case (2 row media m gw g2 b)
    have "rel_option (\<lambda>n n'. n' ''mb_hash'' = n ''mb_hash'') (nodes gw k) (nodes g2 k)" for k
      using 2(5) by (auto simp: rel_option_refl_hash intro: reconcile_keeps_hash split: if_splits)
    from gated_write_replay [OF 2(4) _ this, of now'] obtain m' where
      "gated_write (gated E) Release RELEASE_FIELDS (py_str (dget ev ''discogs_release_id'')) row
         (payload_hash (gated E) [JObj row, media]) now' g2 = (m', g2)"
      and old: "\<And>r. m' = Some r \<Longrightarrow> \<not> changed r"
      by auto
    moreover have "replay_counts st2 (snd (record_outcome m' st2))" "\<not> fst (record_outcome m' st2)"
      using old replay_counts_outcome not_written by blast+
    ultimately show ?thesis
      using 2 by (cases "record_outcome m' st2") (simp add: enrich_release_def)
  qed
qed

lemma replay_counts_relation_steps:
  assumes "replay_counts st (fst s)" and "relationships_created (fst (fold (relation_step d) rels s)) = relationships_created (fst s)"
  shows "replay_counts st (fst (fold (relation_step d) rels s))"
proof -
  have "entities_enriched (fst (fold (relation_step d) rels s)) = entities_enriched (fst s)"
    "replays_skipped_unchanged (fst (fold (relation_step d) rels s)) = replays_skipped_unchanged (fst s)"
    by (induction rels arbitrary: s) (simp_all add: relation_step_entities)
  with assms show ?thesis by (simp add: replay_counts_def)
qed

interpretation artists_replay: replay_safe "enrich_artist (gated E)" for E
proof
  fix now ev st g st1 g1 now' st2
  assume "enrich_artist (gated E) now ev (st, g) = Inr (st1, g1)"
  then show "\<exists>st'. enrich_artist (gated E) now' ev (st2, g1) = Inr (st', g1) \<and> replay_counts st2 st'"
  proof (cases rule: enrich_artist_Inr)
    case 1
    then show ?thesis by (simp add: enrich_artist_def replay_counts_skip)
  next
    case (2 row gw)
    then have "nodes gw (Artist, py_str (dget ev ''discogs_artist_id'')) = None"
      by (auto simp: gated_write_def split: option.splits)
    with 2 show ?thesis
      by (simp add: enrich_artist_eq gated_write_def replay_counts_skip)
  next
    case (3 row m gw)
    let ?d = "py_str (dget ev ''discogs_artist_id'')" and ?rels = "record_relations ev"
    let ?s = "(snd (record_outcome (Some m) st), gw)"
    have g1: "g1 = snd (fold (relation_step ?d) ?rels ?s)" by (metis 3(6) snd_conv)
    have same: "nodes g1 = nodes gw" unfolding g1 by (simp add: nodes_relation_steps)
    have hash: "rel_option (\<lambda>n n'. n' ''mb_hash'' = n ''mb_hash'') (nodes gw k) (nodes g1 k)" for k
      unfolding same by (rule rel_option_refl_hash)
    obtain m' where
      gw': "gated_write (gated E) Artist ARTIST_FIELDS ?d row
         (payload_hash (gated E) [JObj row, py_or (dget ev ''relations'') (JArr [])]) now' g1 = (Some m', g1)"
      and old: "\<not> changed m'"
    proof (rule gated_write_replay [OF 3(3) _ hash, of now'])
      show "replay_gate (gated E)" by simp
    qed (use that in \<open>metis not_None_eq\<close>)
    let ?s' = "(snd (record_outcome (Some m') st2), g1)"
    have run: "enrich_artist (gated E) now' ev (st2, g1) = Inr (fold (relation_step ?d) ?rels ?s')"
      using 3(1,2,4,5) gw' by (simp add: enrich_artist_eq create_relationship_edges_Inr)
    have fixed: "snd (fold (relation_step ?d) ?rels ?s') = g1 \<and>
        relationships_created (fst (fold (relation_step ?d) ?rels ?s')) = relationships_created (fst ?s')"
    proof -
      have "settled g1 k" if "r \<in> set ?rels" "relation_key ?d r = Some k" for r k
        unfolding g1 using that by (intro settled_relation_steps) blast
      from relation_steps_settled [OF this] show ?thesis by simp
    qed
    have "replay_counts st2 (fst (fold (relation_step ?d) ?rels ?s'))"
    proof (rule replay_counts_relation_steps)
      show "replay_counts st2 (fst ?s')"
        using replay_counts_outcome [of "Some m'" st2] old by simp
    qed (use fixed in blast)
    with run fixed show ?thesis by (metis prod.collapse)
  qed
qed

end
