(* ===== verification/Batch.thy ===== *)
theory Batch
  imports Replay "HOL-Library.Product_Lexorder"
begin

text \<open>
  The cross-message batches of \<^verbatim>\<open>_projections.py\<close>: one statement per entity kind and flush. Records
  for the same catalog id collapse to the last one; artists add their relationships, gated by a
  digest of their own, and releases add one media plan for the whole batch.
\<close>

section \<open>One entity batch\<close>

record outcome =
  o_matched :: bool
  o_changed :: bool
  o_stored :: json

type_synonym index = "(string \<times> nat) list"

text \<open>\<open>last_index[str(record[id_key])] = index\<close> for the records that carry an id.\<close>

definition last_index :: "string \<Rightarrow> obj list \<Rightarrow> index" where
  "last_index id_key records = fold
     (\<lambda>(i, r) d. if dget r id_key = JNull then d else AList.update (py_str (dget r id_key)) i d)
     (enumerate 0 records) []"

record entity_row =
  e_idx :: nat
  e_id :: string
  e_row :: obj
  e_hash :: string

definition entity_row :: "env \<Rightarrow> string \<Rightarrow> (obj \<Rightarrow> obj res) \<Rightarrow> (obj \<Rightarrow> json res) \<Rightarrow> obj list \<Rightarrow> nat \<Rightarrow> entity_row res" where
  "entity_row E id_key build_row extra_hash records i =
     (let r = records ! i in
      rbind (build_row r) (\<lambda>row. rbind (extra_hash r) (\<lambda>extra.
        Inr \<lparr>e_idx = i, e_id = py_str (dget r id_key), e_row = row, e_hash = payload_hash E [JObj row, extra]\<rparr>)))"

definition entity_rows :: "env \<Rightarrow> string \<Rightarrow> (obj \<Rightarrow> obj res) \<Rightarrow> (obj \<Rightarrow> json res) \<Rightarrow> obj list \<Rightarrow> entity_row list res" where
  "entity_rows E id_key build_row extra_hash records =
     rmap (entity_row E id_key build_row extra_hash records) (sort (dvalues (last_index id_key records)))"

text \<open>The UNWIND statement: a result row per matched node.\<close>

definition gated_write_row ::
    "env \<Rightarrow> nlabel \<Rightarrow> fields \<Rightarrow> string \<Rightarrow> entity_row \<Rightarrow> (nat \<times> gate_result) list \<times> graph \<Rightarrow> (nat \<times> gate_result) list \<times> graph" where
  "gated_write_row E label fs now r s = (case s of (written, g) \<Rightarrow>
     (case gated_write E label fs (e_id r) (e_row r) (e_hash r) now g of
        (None, g') \<Rightarrow> (written, g')
      | (Some m, g') \<Rightarrow> (written @ [(e_idx r, m)], g')))"

definition gated_write_batch ::
    "env \<Rightarrow> nlabel \<Rightarrow> fields \<Rightarrow> string \<Rightarrow> entity_row list \<Rightarrow> graph \<Rightarrow> (nat \<times> gate_result) list \<times> graph" where
  "gated_write_batch E label fs now rows g = fold (gated_write_row E label fs now) rows ([], g)"

definition record_outcome_of ::
    "string \<Rightarrow> bool \<Rightarrow> index \<Rightarrow> (nat \<times> gate_result) list \<Rightarrow> nat \<times> obj \<Rightarrow> outcome" where
  "record_outcome_of id_key relations li written x = (case x of (i, r) \<Rightarrow>
     (let representative = (if dget r id_key = JNull then None else map_of li (py_str (dget r id_key)));
          none = \<lparr>o_matched = False, o_changed = False, o_stored = JNull\<rparr>
      in case representative of
          None \<Rightarrow> none
        | Some j \<Rightarrow> (case map_of written j of
            None \<Rightarrow> none
          | Some m \<Rightarrow> \<lparr>o_matched = True, o_changed = changed m \<and> i = j,
                       o_stored = (if relations then relations_hash m else JNull)\<rparr>)))"

definition count_batch :: "outcome list \<Rightarrow> (nat \<times> gate_result) list \<Rightarrow> stats \<Rightarrow> stats" where
  "count_batch outcomes written st =
     (let matched = int (length (filter o_matched outcomes))
      in st\<lparr>entities_enriched := entities_enriched st + matched,
            entities_skipped_no_discogs_match := entities_skipped_no_discogs_match st + (int (length outcomes) - matched),
            replays_skipped_unchanged := replays_skipped_unchanged st
              + int (length (filter (\<lambda>w. \<not> changed (snd w)) written))\<rparr>)"

definition run_entity_batch ::
    "env \<Rightarrow> string \<Rightarrow> nlabel \<Rightarrow> fields \<Rightarrow> string \<Rightarrow> (obj \<Rightarrow> obj res) \<Rightarrow> (obj \<Rightarrow> json res) \<Rightarrow> bool
      \<Rightarrow> obj list \<Rightarrow> tx_state \<Rightarrow> (outcome list \<times> tx_state) res" where
  "run_entity_batch E now label fs id_key build_row extra_hash relations records s = (case s of (st, g) \<Rightarrow>
     rbind (entity_rows E id_key build_row extra_hash records) (\<lambda>rows.
       let (written, g') = gated_write_batch E label fs now rows g;
           outcomes = map (record_outcome_of id_key relations (last_index id_key records) written)
                        (enumerate 0 records)
       in Inr (outcomes, count_batch outcomes written st, g')))"

section \<open>Relationships of a batch\<close>

record rel_row =
  rr_owner :: string
  rr_source :: string
  rr_target :: string

definition append_to :: "'k \<Rightarrow> 'v \<Rightarrow> ('k \<times> 'v list) list \<Rightarrow> ('k \<times> 'v list) list" where
  "append_to k v d = AList.update k ((case map_of d k of None \<Rightarrow> [] | Some xs \<Rightarrow> xs) @ [v]) d"

definition add_count :: "'k \<Rightarrow> nat \<Rightarrow> ('k \<times> nat) list \<Rightarrow> ('k \<times> nat) list" where
  "add_count k n d = AList.update k ((case map_of d k of None \<Rightarrow> 0 | Some m \<Rightarrow> m) + n) d"

text \<open>The first loop: rows by edge type, supported relations expected per owner, missing targets.\<close>

record rel_plan =
  rp_by_type :: "(string \<times> rel_row list) list"
  rp_expected :: "(string \<times> nat) list"
  rp_missing :: nat

definition plan_relation :: "string \<times> json \<Rightarrow> rel_plan \<Rightarrow> rel_plan res" where
  "plan_relation x p = (case x of (owner, relation) \<Rightarrow>
     rbind (edge_type_of relation) (\<lambda>et. case et of
        None \<Rightarrow> Inr p
      | Some t \<Rightarrow>
          (let p1 = p\<lparr>rp_expected := add_count owner 1 (rp_expected p)\<rparr> in
           rbind (jget relation ''target_discogs_artist_id'') (\<lambda>target.
           if target = JNull then Inr (p1\<lparr>rp_missing := rp_missing p1 + 1\<rparr>)
           else rbind (jget relation ''direction'') (\<lambda>direction.
             let (src, tgt) = edge_ends owner (py_str target) direction
             in Inr (p1\<lparr>rp_by_type := append_to t \<lparr>rr_owner = owner, rr_source = src, rr_target = tgt\<rparr>
                         (rp_by_type p1)\<rparr>))))))"

definition plan_relations :: "(string \<times> json) list \<Rightarrow> rel_plan res" where
  "plan_relations relations = rfold plan_relation relations \<lparr>rp_by_type = [], rp_expected = [], rp_missing = 0\<rparr>"

text \<open>One statement: created edges, result rows per input row (in order), graph.\<close>

definition merge_rel_row :: "string \<Rightarrow> rel_row \<Rightarrow> nat \<times> (string \<times> nat) list \<times> graph \<Rightarrow> nat \<times> (string \<times> nat) list \<times> graph" where
  "merge_rel_row t row s = (case s of (created, matches, g) \<Rightarrow>
     (case merge_rel t (rr_source row) (rr_target row) g of (c, m, g') \<Rightarrow>
        (created + c, matches @ [(rr_owner row, m)], g')))"

definition merge_rel_batch :: "string \<Rightarrow> rel_row list \<Rightarrow> graph \<Rightarrow> nat \<times> (string \<times> nat) list \<times> graph" where
  "merge_rel_batch t rows g = fold (merge_rel_row t) rows (0, [], g)"

text \<open>\<open>RETURN row.owner, count(*)\<close>: one group per owner that has a result row.\<close>

definition owner_groups :: "(string \<times> nat) list \<Rightarrow> (string \<times> nat) list" where
  "owner_groups matches =
     map (\<lambda>owner. (owner, sum_list (map snd (filter (\<lambda>x. fst x = owner) matches))))
       (firsts (map fst (filter (\<lambda>x. snd x > 0) matches)))"

definition project_edge_type :: "string \<times> rel_row list \<Rightarrow> (string \<times> nat) list \<times> tx_state \<Rightarrow> (string \<times> nat) list \<times> tx_state" where
  "project_edge_type x s = (case (x, s) of ((t, rows), (projected, st, g)) \<Rightarrow>
     (let (created, matches, g') = merge_rel_batch t rows g;
          groups = owner_groups matches;
          matched = sum_list (map snd groups)
      in (fold (\<lambda>(owner, n). add_count owner n) groups projected,
          st\<lparr>relationships_created := relationships_created st + int created,
             relationships_updated := relationships_updated st + max (int matched - int created) 0,
             relationships_skipped_missing_side :=
               relationships_skipped_missing_side st + (int (length rows) - int matched)\<rparr>, g')))"

definition create_relationship_edges_batch ::
    "(string \<times> json) list \<Rightarrow> tx_state \<Rightarrow> ((string \<times> bool) list \<times> tx_state) res" where
  "create_relationship_edges_batch relations s = (case s of (st, g) \<Rightarrow>
     rbind (plan_relations relations) (\<lambda>p.
       let st1 = st\<lparr>relationships_skipped_missing_side := relationships_skipped_missing_side st + int (rp_missing p)\<rparr>;
           (projected, s') = fold project_edge_type (rp_by_type p) ([], st1, g)
       in Inr (map (\<lambda>(owner, count). (owner, count \<le> (case map_of projected owner of None \<Rightarrow> 0 | Some n \<Rightarrow> n)))
                 (rp_expected p), s')))"

section \<open>The four batch projections\<close>

definition superseded :: "nat \<Rightarrow> obj list \<Rightarrow> bool" where
  "superseded index records =
     (let discogs_id = py_str (dget (records ! index) ''discogs_artist_id'')
      in \<exists>later \<in> set (drop (index + 1) records). py_str (dget later ''discogs_artist_id'') = discogs_id)"

text \<open>The second loop of \<open>enrich_artists_batch\<close>: relations to project and digests to store.\<close>

definition collect_relations ::
    "env \<Rightarrow> obj list \<Rightarrow> nat \<times> obj \<times> outcome \<Rightarrow> (string \<times> json) list \<times> (string \<times> string) list
      \<Rightarrow> ((string \<times> json) list \<times> (string \<times> string) list) res" where
  "collect_relations E records x acc = (case (x, acc) of ((i, record, outcome), (relations, digests)) \<Rightarrow>
     (if \<not> o_matched outcome \<or> superseded i records then Inr acc
      else let record_relations = py_or (dget record ''relations'') (JArr []);
               d = payload_hash E [record_relations];
               owner = py_str (dget record ''discogs_artist_id'')
           in if replay_gate E \<and> o_stored outcome = JStr d then Inr acc
              else rbind (py_iter record_relations) (\<lambda>rels.
                Inr (relations @ map (Pair owner) rels, AList.update owner d digests))))"

definition store_relations_hash :: "string \<times> string \<Rightarrow> graph \<Rightarrow> graph" where
  "store_relations_hash x g = upd_node (Artist, fst x) (set_prop ''mb_relations_hash'' (JStr (snd x))) g"

definition enrich_artists_batch :: "env \<Rightarrow> string \<Rightarrow> obj list \<Rightarrow> tx_state \<Rightarrow> (bool list \<times> tx_state) res" where
  "enrich_artists_batch E now records s =
     rbind (run_entity_batch E now Artist ARTIST_FIELDS ''discogs_artist_id'' artist_row
              (\<lambda>record. Inr (py_or (dget record ''relations'') (JArr []))) True records s) (\<lambda>(outcomes, s1).
     rbind (rfold (collect_relations E records) (enumerate 0 (zip records outcomes)) ([], [])) (\<lambda>(relations, digests).
       let flags = map o_matched outcomes in
       if digests = [] then Inr (flags, s1)
       else rbind (create_relationship_edges_batch relations s1) (\<lambda>(complete, (st2, g2)).
         let done = filter (\<lambda>x. case map_of complete (fst x) of None \<Rightarrow> True | Some b \<Rightarrow> b) digests
         in Inr (flags, st2, fold store_relations_hash done g2))))"

definition enrich_labels_batch :: "env \<Rightarrow> string \<Rightarrow> obj list \<Rightarrow> tx_state \<Rightarrow> (bool list \<times> tx_state) res" where
  "enrich_labels_batch E now records s =
     rbind (run_entity_batch E now Label LABEL_FIELDS ''discogs_label_id'' label_row (\<lambda>_. Inr JNull) False records s)
       (\<lambda>(outcomes, s1). Inr (map o_matched outcomes, s1))"

definition enrich_release_groups_batch :: "env \<Rightarrow> string \<Rightarrow> obj list \<Rightarrow> tx_state \<Rightarrow> (bool list \<times> tx_state) res" where
  "enrich_release_groups_batch E now records s =
     rbind (run_entity_batch E now Master RELEASE_GROUP_FIELDS ''discogs_master_id'' release_group_row
              (\<lambda>_. Inr JNull) False records s)
       (\<lambda>(outcomes, s1). Inr (map o_matched outcomes, s1))"

text \<open>The media of the written releases, by release; a later message replaces an earlier one.\<close>

type_synonym media_acc = "(string \<times> media_summary) list \<times> (string \<times> (string \<times> edge_row) list) list"

definition collect_media :: "env \<Rightarrow> obj \<times> outcome \<Rightarrow> media_acc \<Rightarrow> media_acc res" where
  "collect_media E x acc = (case (x, acc) of ((record, outcome), (summaries, edges)) \<Rightarrow>
     (if \<not> o_changed outcome then Inr acc
      else case release_media_block E record of
        None \<Rightarrow> Inr acc
      | Some media \<Rightarrow>
          (let discogs_id = py_str (dget record ''discogs_release_id'') in
           rbind (media_edge_rows E media) (\<lambda>media_rows.
           rbind (media_items media) (\<lambda>items.
             Inr (AList.update discogs_id
                    \<lparr>ms_release = discogs_id, ms_families = families_of E media,
                     ms_count = int (length items), ms_medium_ids = map er_medium media_rows\<rparr> summaries,
                  AList.update discogs_id (map (Pair discogs_id) media_rows) edges))))))"

definition items_flat :: "(string \<times> (string \<times> edge_row) list) list \<Rightarrow> (string \<times> edge_row) list" where
  "items_flat edges = sort_key (\<lambda>(r, row). (er_medium row, r)) (concat (dvalues edges))"

definition enrich_releases_batch :: "env \<Rightarrow> string \<Rightarrow> obj list \<Rightarrow> tx_state \<Rightarrow> (bool list \<times> tx_state) res" where
  "enrich_releases_batch E now records s =
     rbind (run_entity_batch E now Release RELEASE_FIELDS ''discogs_release_id'' release_row (media_digest E) False records s)
       (\<lambda>(outcomes, (st, g)).
     rbind (rfold (collect_media E) (zip records outcomes) ([], [])) (\<lambda>(summaries, edges).
       let flags = map o_matched outcomes;
           S = dvalues summaries;
           items = items_flat edges
       in if summaries = [] then Inr (flags, st, g)
          else let g1 = snd (lock_media_in_order (map summary_key S) (map snd items) g);
                   g2 = release_media_summary_batch S g1;
                   g3 = (if items = [] then g2 else release_media_edges_batch items g2)
               in Inr (flags, st, g3)))"

end
