(* ===== verification/Collapse.thy ===== *)
theory Collapse
  imports Batch
begin

text \<open>
  Why a batch may collapse the records of one catalog id to the last one: the gated writes of a
  node, run in order, end where the last of them alone would end, up to \<open>mb_updated_at\<close>. The
  result is \<open>entity_batch_sequential\<close>: one UNWIND leaves the graph the per-message path would.
\<close>

section \<open>Gated writes on one node\<close>

lemma set_fields_apply:
  "set_fields fs row n p = (case map_of (rev fs) p of
      None \<Rightarrow> n p | Some k \<Rightarrow> (if dget row k = JNull then None else Some (dget row k)))"
  unfolding set_fields_def
  by (induction fs rule: rev_induct) (auto simp: set_prop_def)

definition node_write :: "env \<Rightarrow> fields \<Rightarrow> string \<Rightarrow> obj \<times> string \<Rightarrow> props \<Rightarrow> props" where
  "node_write E fs now w n = (if gate_open E (snd w) n then write_props fs (fst w) (snd w) now n else n)"

lemma nodes_gated_write:
  "nodes (snd (gated_write E l fs d row h now g)) k =
     (if k = (l, d) then map_option (node_write E fs now (row, h)) (nodes g k) else nodes g k)"
  by (auto simp: gated_write_def node_write_def nodes_upd_node split: option.split)

text \<open>Equality of nodes up to the time stamp, and the fields the service manages.\<close>

definition same_node :: "props \<Rightarrow> props \<Rightarrow> bool" where
  "same_node n n' \<longleftrightarrow> (\<forall>p. p \<noteq> ''mb_updated_at'' \<longrightarrow> n p = n' p)"

definition clean_fields :: "fields \<Rightarrow> bool" where
  "clean_fields fs \<longleftrightarrow> ''mb_hash'' \<notin> fst ` set fs \<and> ''mb_updated_at'' \<notin> fst ` set fs"

text \<open>A stored digest vouches for the stored fields.\<close>

definition coherent :: "fields \<Rightarrow> (obj \<times> string) set \<Rightarrow> props \<Rightarrow> bool" where
  "coherent fs W n \<longleftrightarrow> (\<forall>(row, h) \<in> W. n ''mb_hash'' = Some (JStr h) \<longrightarrow> set_fields fs row n = n)"

definition separated :: "fields \<Rightarrow> (obj \<times> string) set \<Rightarrow> bool" where
  "separated fs W \<longleftrightarrow> (\<forall>(r, h) \<in> W. \<forall>(r', h') \<in> W. h = h' \<longrightarrow> set_fields fs r = set_fields fs r')"

lemma set_fields_idem: "set_fields fs row (set_fields fs row n) = set_fields fs row n"
  by (rule ext) (simp add: set_fields_apply split: option.split)

lemma set_fields_absent: "p \<notin> fst ` set fs \<Longrightarrow> map_of (rev fs) p = None"
  by (simp add: map_of_eq_None_iff)

lemma write_props_apply:
  assumes "clean_fields fs"
  shows "write_props fs row h now n p =
     (if p = ''mb_updated_at'' then Some (JStr now) else if p = ''mb_hash'' then Some (JStr h)
      else set_fields fs row n p)"
  by (simp add: write_props_def set_prop_def)

lemma set_fields_write_props:
  assumes "clean_fields fs" and "set_fields fs row' = set_fields fs row"
  shows "set_fields fs row' (write_props fs row h now n) = write_props fs row h now n"
proof
  fix p
  show "set_fields fs row' (write_props fs row h now n) p = write_props fs row h now n p"
    using assms(1) set_fields_absent [of "''mb_hash''" fs] set_fields_absent [of "''mb_updated_at''" fs]
    unfolding assms(2)
    by (auto simp: set_fields_apply [of fs row] write_props_apply clean_fields_def split: option.split)
qed

lemma coherent_node_write:
  assumes "clean_fields fs" and "separated fs W" and "w \<in> W" and "coherent fs W n"
  shows "coherent fs W (node_write E fs now w n)"
proof (cases "gate_open E (snd w) n")
  case True
  have "set_fields fs row' (write_props fs (fst w) (snd w) now n) = write_props fs (fst w) (snd w) now n"
    if "(row', h') \<in> W" "write_props fs (fst w) (snd w) now n ''mb_hash'' = Some (JStr h')" for row' h'
  proof (rule set_fields_write_props [OF assms(1)])
    from that(2) have "h' = snd w" by (simp add: write_props_apply [OF assms(1)])
    obtain r h where w: "w = (r, h)" by fastforce
    from assms(2) that(1) have "\<forall>(r, h) \<in> W. h' = h \<longrightarrow> set_fields fs row' = set_fields fs r"
      unfolding separated_def by blast
    with assms(3) \<open>h' = snd w\<close> show "set_fields fs row' = set_fields fs (fst w)"
      unfolding w by force
  qed
  with True show ?thesis by (auto simp: coherent_def node_write_def)
qed (use assms(4) in \<open>simp add: node_write_def\<close>)

text \<open>The result of a write on a coherent node does not depend on whether the gate was open.\<close>

lemma node_write_target:
  assumes "clean_fields fs" and "coherent fs W n" and "w \<in> W" and "p \<noteq> ''mb_updated_at''"
  shows "node_write E fs now w n p =
    (if p = ''mb_hash'' then Some (JStr (snd w)) else set_fields fs (fst w) n p)"
proof (cases "gate_open E (snd w) n")
  case True
  with assms show ?thesis by (simp add: node_write_def write_props_apply)
next
  case False
  then have "n ''mb_hash'' = Some (JStr (snd w))" by (simp add: gate_open_def split: if_splits)
  moreover from this have "set_fields fs (fst w) n = n"
    using assms(2,3) by (cases w) (auto simp: coherent_def)
  ultimately show ?thesis using False by (simp add: node_write_def)
qed

lemma node_writes_frame:
  assumes "clean_fields fs" and "p \<noteq> ''mb_updated_at''" "p \<noteq> ''mb_hash''" "p \<notin> fst ` set fs"
  shows "fold (node_write E fs now) ws n p = n p"
  by (induction ws arbitrary: n)
    (simp_all add: assms node_write_def write_props_apply set_fields_apply set_fields_absent)

lemma collapse_writes:
  assumes clean: "clean_fields fs" and sep: "separated fs W" and W: "set ws \<subseteq> W" "w \<in> W"
    and coh: "coherent fs W n"
  shows "same_node (fold (node_write E fs now) (ws @ [w]) n) (node_write E fs now w n)"
proof -
  let ?m = "fold (node_write E fs now) ws n"
  have "coherent fs W ?m"
    using W(1) coh by (induction ws arbitrary: n) (auto intro: coherent_node_write clean sep)
  then have "node_write E fs now w ?m p = node_write E fs now w n p" if "p \<noteq> ''mb_updated_at''" for p
  proof (cases "map_of (rev fs) p")
    case None
    then have "p \<notin> fst ` set fs" by (simp add: map_of_eq_None_iff)
    with that None coh W(2) clean \<open>coherent fs W ?m\<close> node_writes_frame [OF clean, of p E now ws n] show ?thesis
      by (simp add: node_write_target set_fields_apply)
  next
    case (Some k)
    with that coh W(2) clean \<open>coherent fs W ?m\<close> show ?thesis
      by (simp add: node_write_target set_fields_apply)
  qed
  then show ?thesis by (simp add: same_node_def)
qed

section \<open>The last index of an id\<close>

definition record_id :: "string \<Rightarrow> obj \<Rightarrow> string option" where
  "record_id id_key r = (if dget r id_key = JNull then None else Some (py_str (dget r id_key)))"

lemma last_index_snoc:
  "last_index k (rs @ [r]) = (case record_id k r of
      None \<Rightarrow> last_index k rs | Some d \<Rightarrow> AList.update d (length rs) (last_index k rs))"
  by (simp add: last_index_def record_id_def enumerate_append_eq)

lemma last_index_Nil: "last_index k [] = []"
  by (simp add: last_index_def)

lemma last_index_distinct: "distinct (map fst (last_index k rs))"
  by (induction rs rule: rev_induct)
    (auto simp: last_index_Nil last_index_snoc distinct_update split: option.split)

lemma last_index_Some:
  "map_of (last_index k rs) d = Some i \<longleftrightarrow>
     i < length rs \<and> record_id k (rs ! i) = Some d \<and> (\<forall>j. i < j \<longrightarrow> j < length rs \<longrightarrow> record_id k (rs ! j) \<noteq> Some d)"
proof (induction rs arbitrary: i rule: rev_induct)
  case (snoc r rs)
  show ?case
  proof (cases "record_id k r = Some d")
    case True
    then show ?thesis
      by (auto simp: last_index_snoc update_conv nth_append not_less_eq less_Suc_eq
          intro: ccontr dest: spec [of _ "length rs"])
  next
    case False
    then have "map_of (last_index k (rs @ [r])) d = map_of (last_index k rs) d"
      by (auto simp: last_index_snoc update_conv split: option.split)
    with snoc False show ?thesis
      by (auto simp: nth_append less_Suc_eq)
  qed
qed (simp add: last_index_Nil)

lemma last_index_None:
  "map_of (last_index k rs) d = None \<longleftrightarrow> (\<forall>r \<in> set rs. record_id k r \<noteq> Some d)"
proof (induction rs rule: rev_induct)
  case (snoc r rs)
  then show ?case by (auto simp: last_index_snoc update_conv split: option.split)
qed (simp add: last_index_Nil)

lemma last_index_values: "set (dvalues (last_index k rs)) = {i. \<exists>d. map_of (last_index k rs) d = Some i}"
proof -
  have "i \<in> snd ` set (last_index k rs) \<longleftrightarrow> (\<exists>d. map_of (last_index k rs) d = Some i)" for i
    using last_index_distinct [of k rs] by (force simp: map_of_eq_Some_iff)
  then show ?thesis by (auto simp: dvalues_def)
qed

lemma last_index_inj:
  "map_of (last_index k rs) d = Some i \<Longrightarrow> map_of (last_index k rs) d' = Some i \<Longrightarrow> d = d'"
  by (simp add: last_index_Some)

lemma last_index_values_distinct: "distinct (dvalues (last_index k rs))"
proof -
  have "inj_on snd (set (last_index k rs))"
  proof (rule inj_onI)
    fix x y assume "x \<in> set (last_index k rs)" "y \<in> set (last_index k rs)" "snd x = snd y"
    then show "x = y"
      using last_index_inj [of k rs "fst x" "snd x" "fst y"] last_index_distinct [of k rs]
      by (metis map_of_eq_Some_iff prod.collapse)
  qed
  then show ?thesis
    using last_index_distinct [of k rs] by (auto simp: dvalues_def distinct_map)
qed

end
