(* ===== verification/Sequential.thy ===== *)
theory Sequential
  imports Collapse
begin

text \<open>
  One entity batch against the sequential delivery of its records (\<open>node_enrich\<close>, the statement part
  of the per-record functions): both are instances of \<open>write_nodes\<close>, which applies to each node the
  list of writes addressed to it.
\<close>

section \<open>Writes by node\<close>

definition write_nodes :: "env \<Rightarrow> fields \<Rightarrow> string \<Rightarrow> nlabel \<Rightarrow> (string \<Rightarrow> (obj \<times> string) list) \<Rightarrow> graph \<Rightarrow> graph" where
  "write_nodes E fs now l wr g = g\<lparr>nodes := \<lambda>k. if fst k = l
     then map_option (fold (node_write E fs now) (wr (snd k))) (nodes g k) else nodes g k\<rparr>"

lemma write_nodes_frame:
  "arels (write_nodes E fs now l wr g) = arels g" "mediums (write_nodes E fs now l wr g) = mediums g"
  "families (write_nodes E fs now l wr g) = families g" "in_family (write_nodes E fs now l wr g) = in_family g"
  "issued (write_nodes E fs now l wr g) = issued g" "other_rels (write_nodes E fs now l wr g) = other_rels g"
  by (simp_all add: write_nodes_def)

lemma write_nodes_exists: "(nodes (write_nodes E fs now l wr g) k = None) = (nodes g k = None)"
  by (simp add: write_nodes_def)

lemma write_nodes_Nil: "write_nodes E fs now l (\<lambda>_. []) g = g"
  by (intro graph.equality ext) (simp_all add: write_nodes_def option.map_id)

lemma gated_write_nodes:
  "snd (gated_write E l fs d row h now g) = write_nodes E fs now l (\<lambda>d'. if d' = d then [(row, h)] else []) g"
proof (rule graph.equality)
  show "nodes (snd (gated_write E l fs d row h now g)) =
      nodes (write_nodes E fs now l (\<lambda>d'. if d' = d then [(row, h)] else []) g)"
    by (rule ext) (auto simp: nodes_gated_write write_nodes_def option.map_id)
qed (auto simp: gated_write_def write_nodes_frame frame_simps split: option.split)

lemma gated_write_matched: "(fst (gated_write E l fs d row h now g) = None) = (nodes g (l, d) = None)"
  by (simp add: gated_write_def split: option.split)

lemma write_nodes_compose:
  "write_nodes E fs now l wr' (write_nodes E fs now l wr g) = write_nodes E fs now l (\<lambda>d. wr d @ wr' d) g"
  by (auto simp: write_nodes_def option.map_comp fun_eq_iff intro!: graph.equality)

section \<open>Sequential delivery\<close>

definition node_enrich ::
    "env \<Rightarrow> string \<Rightarrow> nlabel \<Rightarrow> fields \<Rightarrow> string \<Rightarrow> (obj \<Rightarrow> obj res) \<Rightarrow> (obj \<Rightarrow> json res) \<Rightarrow> obj \<Rightarrow> tx_state \<Rightarrow> tx_state res" where
  "node_enrich E now l fs k build extra ev s = (case s of (st, g) \<Rightarrow>
     if dget ev k = JNull then Inr (skip_no_match st, g)
     else rbind (build ev) (\<lambda>row. rbind (extra ev) (\<lambda>x.
       let (m, g1) = gated_write E l fs (py_str (dget ev k)) row (payload_hash E [JObj row, x]) now g
       in Inr (snd (record_outcome m st), g1))))"

lemma enrich_label_node:
  "enrich_label E now = node_enrich E now Label LABEL_FIELDS ''discogs_label_id'' label_row (\<lambda>_. Inr JNull)"
  unfolding enrich_label_def node_enrich_def Let_def rbind.simps ..

lemma enrich_release_group_node:
  "enrich_release_group E now =
     node_enrich E now Master RELEASE_GROUP_FIELDS ''discogs_master_id'' release_group_row (\<lambda>_. Inr JNull)"
  unfolding enrich_release_group_def node_enrich_def Let_def rbind.simps ..

text \<open>The write a record stands for, and the records that address an existing node.\<close>

definition write_of :: "env \<Rightarrow> (obj \<Rightarrow> obj res) \<Rightarrow> (obj \<Rightarrow> json res) \<Rightarrow> obj \<Rightarrow> obj \<times> string" where
  "write_of E build extra r = (case (build r, extra r) of
      (Inr row, Inr x) \<Rightarrow> (row, payload_hash E [JObj row, x]) | _ \<Rightarrow> ([], []))"

definition writes_to :: "env \<Rightarrow> string \<Rightarrow> (obj \<Rightarrow> obj res) \<Rightarrow> (obj \<Rightarrow> json res) \<Rightarrow> obj list \<Rightarrow> string \<Rightarrow> (obj \<times> string) list" where
  "writes_to E k build extra rs d = map (write_of E build extra) (filter (\<lambda>r. record_id k r = Some d) rs)"

definition buildable :: "string \<Rightarrow> (obj \<Rightarrow> obj res) \<Rightarrow> (obj \<Rightarrow> json res) \<Rightarrow> obj \<Rightarrow> bool" where
  "buildable k build extra r \<longleftrightarrow> record_id k r = None \<or> (\<exists>row x. build r = Inr row \<and> extra r = Inr x)"

definition has_node :: "graph \<Rightarrow> nlabel \<Rightarrow> string \<Rightarrow> obj \<Rightarrow> bool" where
  "has_node g l k r = (case record_id k r of None \<Rightarrow> False | Some d \<Rightarrow> nodes g (l, d) \<noteq> None)"

lemma node_enrich_Inr:
  assumes "node_enrich E now l fs k build extra r (st, g) = Inr (st', g')"
  shows "buildable k build extra r"
    and "g' = write_nodes E fs now l (writes_to E k build extra [r]) g"
    and "entities_enriched st' = entities_enriched st + (if has_node g l k r then 1 else 0)"
    and "entities_skipped_no_discogs_match st' = entities_skipped_no_discogs_match st + (if has_node g l k r then 0 else 1)"
proof -
  have *: "buildable k build extra r \<and> g' = write_nodes E fs now l (writes_to E k build extra [r]) g \<and>
    entities_enriched st' = entities_enriched st + (if has_node g l k r then 1 else 0) \<and>
    entities_skipped_no_discogs_match st' = entities_skipped_no_discogs_match st + (if has_node g l k r then 0 else 1)"
  proof (cases "record_id k r")
    case None
    then have "dget r k = JNull" by (simp add: record_id_def split: if_splits)
    moreover from None have "writes_to E k build extra [r] = (\<lambda>_. [])"
      by (simp add: writes_to_def fun_eq_iff)
    ultimately show ?thesis using assms None
      by (simp add: node_enrich_def buildable_def has_node_def write_nodes_Nil)
        (auto simp: skip_no_match_def)
  next
    case (Some d)
    then have d: "dget r k \<noteq> JNull" "py_str (dget r k) = d" by (auto simp: record_id_def split: if_splits)
    with assms obtain row x where bx: "build r = Inr row" "extra r = Inr x"
      by (auto simp: node_enrich_def res_simps)
    obtain m g1 where gw: "gated_write E l fs d row (payload_hash E [JObj row, x]) now g = (m, g1)" by fastforce
    have "writes_to E k build extra [r] = (\<lambda>d'. if d' = d then [(row, payload_hash E [JObj row, x])] else [])"
      using Some bx by (auto simp: writes_to_def write_of_def fun_eq_iff)
    then have "g1 = write_nodes E fs now l (writes_to E k build extra [r]) g"
      using gated_write_nodes [of E l fs d row _ now g] gw by (metis snd_conv)
    moreover have "(m = None) = (nodes g (l, d) = None)"
      using gated_write_matched [of E l fs d row _ now g] gw by (metis fst_conv)
    moreover have "st' = snd (record_outcome m st)" "g' = g1"
      using assms d bx gw by (auto simp: node_enrich_def)
    ultimately show ?thesis
      using bx Some by (auto simp: buildable_def has_node_def record_outcome_def Let_def split: option.split)
  qed
  then show "buildable k build extra r" "g' = write_nodes E fs now l (writes_to E k build extra [r]) g"
    "entities_enriched st' = entities_enriched st + (if has_node g l k r then 1 else 0)"
    "entities_skipped_no_discogs_match st' = entities_skipped_no_discogs_match st + (if has_node g l k r then 0 else 1)"
    by blast+
qed

lemma has_node_write_nodes: "has_node (write_nodes E fs now l' wr g) l k r = has_node g l k r"
  by (simp add: has_node_def write_nodes_exists split: option.split)

lemma sequential_run:
  assumes "rfold (node_enrich E now l fs k build extra) rs (st, g) = Inr (st', g')"
  shows "(\<forall>r \<in> set rs. buildable k build extra r) \<and>
    g' = write_nodes E fs now l (writes_to E k build extra rs) g \<and>
    entities_enriched st' = entities_enriched st + int (length (filter (has_node g l k) rs)) \<and>
    entities_skipped_no_discogs_match st' =
      entities_skipped_no_discogs_match st + int (length (filter (\<lambda>r. \<not> has_node g l k r) rs))"
  using assms
proof (induction rs arbitrary: st g)
  case Nil
  then show ?case by (simp add: writes_to_def write_nodes_Nil)
next
  case (Cons r rs)
  then obtain st1 g1 where run: "node_enrich E now l fs k build extra r (st, g) = Inr (st1, g1)"
    and rest: "rfold (node_enrich E now l fs k build extra) rs (st1, g1) = Inr (st', g')"
    by (auto simp: res_simps)
  note one = node_enrich_Inr [OF run]
  have "(\<lambda>d. writes_to E k build extra [r] d @ writes_to E k build extra rs d) = writes_to E k build extra (r # rs)"
    by (auto simp: writes_to_def fun_eq_iff)
  with Cons.IH [OF rest] one show ?case
    by (simp add: has_node_write_nodes write_nodes_compose)
qed

section \<open>The batch\<close>

lemma gated_write_batch_graph:
  "snd (fold (gated_write_row E l fs now) rows (w, g)) =
     write_nodes E fs now l (\<lambda>d. map (\<lambda>r. (e_row r, e_hash r)) (filter (\<lambda>r. e_id r = d) rows)) g"
proof (induction rows arbitrary: w g)
  case Nil
  then show ?case by (simp add: write_nodes_Nil)
next
  case (Cons r rows)
  obtain m g1 where gw: "gated_write E l fs (e_id r) (e_row r) (e_hash r) now g = (m, g1)" by fastforce
  then have "g1 = write_nodes E fs now l (\<lambda>d'. if d' = e_id r then [(e_row r, e_hash r)] else []) g"
    using gated_write_nodes [of E l fs "e_id r" "e_row r" "e_hash r" now g] by simp
  moreover have "\<exists>w'. gated_write_row E l fs now r (w, g) = (w', g1)"
    using gw by (cases m) (simp_all add: gated_write_row_def)
  moreover have "(\<lambda>d. (if d = e_id r then [(e_row r, e_hash r)] else []) @
        map (\<lambda>r. (e_row r, e_hash r)) (filter (\<lambda>r. e_id r = d) rows)) =
      (\<lambda>d. map (\<lambda>r. (e_row r, e_hash r)) (filter (\<lambda>r. e_id r = d) (r # rows)))"
    by (auto simp: fun_eq_iff)
  ultimately show ?case using Cons.IH by (auto simp: write_nodes_compose)
qed

lemma gated_write_batch_indices:
  "map fst (fst (fold (gated_write_row E l fs now) rows (w, g))) =
     map fst w @ map e_idx (filter (\<lambda>r. nodes g (l, e_id r) \<noteq> None) rows)"
proof (induction rows arbitrary: w g)
  case (Cons r rows)
  obtain m g1 where gw: "gated_write E l fs (e_id r) (e_row r) (e_hash r) now g = (m, g1)" by fastforce
  then have "(nodes g1 key = None) = (nodes g key = None)" for key
    using gated_write_nodes [of E l fs "e_id r" "e_row r" "e_hash r" now g] by (simp add: write_nodes_exists)
  moreover have "(m = None) = (nodes g (l, e_id r) = None)"
    using gated_write_matched [of E l fs "e_id r" "e_row r" "e_hash r" now g] gw by simp
  ultimately show ?case
    using Cons.IH [of _ g1] gw by (cases m) (simp_all add: gated_write_row_def)
qed simp

lemma rmap_all: "(\<And>x. x \<in> set xs \<Longrightarrow> f x = Inr (h x)) \<Longrightarrow> rmap f xs = Inr (map h xs)"
  by (induction xs) auto

lemma filter_single:
  "distinct xs \<Longrightarrow> x \<in> set xs \<Longrightarrow> (\<And>y. y \<in> set xs \<Longrightarrow> P y = (y = x)) \<Longrightarrow> filter P xs = [x]"
proof (induction xs)
  case (Cons a xs)
  show ?case
  proof (cases "a = x")
    case True
    with Cons.prems have "filter P xs = []" by (auto simp: filter_empty_conv)
    with True Cons.prems(3) show ?thesis by simp
  next
    case False
    with Cons show ?thesis by simp
  qed
qed simp

text \<open>The rows of a batch whose records can all be built: one per id, from its last record.\<close>

definition row_of :: "env \<Rightarrow> string \<Rightarrow> (obj \<Rightarrow> obj res) \<Rightarrow> (obj \<Rightarrow> json res) \<Rightarrow> obj list \<Rightarrow> nat \<Rightarrow> entity_row" where
  "row_of E k build extra rs i = \<lparr>e_idx = i, e_id = py_str (dget (rs ! i) k),
     e_row = fst (write_of E build extra (rs ! i)), e_hash = snd (write_of E build extra (rs ! i))\<rparr>"

definition last_write :: "env \<Rightarrow> string \<Rightarrow> (obj \<Rightarrow> obj res) \<Rightarrow> (obj \<Rightarrow> json res) \<Rightarrow> obj list \<Rightarrow> string \<Rightarrow> (obj \<times> string) list" where
  "last_write E k build extra rs d = (case map_of (last_index k rs) d of
      None \<Rightarrow> [] | Some i \<Rightarrow> [write_of E build extra (rs ! i)])"

lemma index_id:
  assumes "i \<in> set (dvalues (last_index k rs))"
  shows "record_id k (rs ! i) = Some (py_str (dget (rs ! i) k))" "i < length rs"
    "map_of (last_index k rs) (py_str (dget (rs ! i) k)) = Some i"
proof -
  from assms obtain d where d: "map_of (last_index k rs) d = Some i" by (auto simp: last_index_values)
  then have "record_id k (rs ! i) = Some d" "i < length rs" by (simp_all add: last_index_Some)
  moreover from this have "d = py_str (dget (rs ! i) k)" by (auto simp: record_id_def split: if_splits)
  ultimately show "record_id k (rs ! i) = Some (py_str (dget (rs ! i) k))" "i < length rs"
    "map_of (last_index k rs) (py_str (dget (rs ! i) k)) = Some i"
    using d by simp_all
qed

lemma entity_rows_all:
  assumes "\<forall>r \<in> set rs. buildable k build extra r"
  shows "entity_rows E k build extra rs = Inr (map (row_of E k build extra rs) (sort (dvalues (last_index k rs))))"
proof -
  have "entity_row E k build extra rs i = Inr (row_of E k build extra rs i)"
    if "i \<in> set (dvalues (last_index k rs))" for i
  proof -
    have "buildable k build extra (rs ! i)" using assms index_id(2) [OF that] by simp
    with index_id(1) [OF that] show ?thesis
      by (auto simp: buildable_def entity_row_def row_of_def write_of_def)
  qed
  then show ?thesis unfolding entity_rows_def by (intro rmap_all) simp
qed

lemma rows_of_id:
  "map (\<lambda>r. (e_row r, e_hash r)) (filter (\<lambda>r. e_id r = d)
     (map (row_of E k build extra rs) (sort (dvalues (last_index k rs))))) = last_write E k build extra rs d"
proof (cases "map_of (last_index k rs) d")
  case None
  have "py_str (dget (rs ! i) k) \<noteq> d" if "i \<in> set (dvalues (last_index k rs))" for i
    using index_id(3) [OF that] None by (metis option.distinct(1))
  then have "filter (\<lambda>i. py_str (dget (rs ! i) k) = d) (sort (dvalues (last_index k rs))) = []"
    by (auto simp: filter_empty_conv)
  with None show ?thesis by (simp add: filter_map last_write_def row_of_def comp_def)
next
  case (Some i)
  then have i: "i \<in> set (dvalues (last_index k rs))" by (auto simp: last_index_values)
  have id: "py_str (dget (rs ! i) k) = d"
    using Some index_id(1) [OF i] by (simp add: last_index_Some)
  have "(py_str (dget (rs ! j) k) = d) = (j = i)" if "j \<in> set (dvalues (last_index k rs))" for j
    using index_id(3) [OF that] Some id by (metis option.inject)
  then have "filter (\<lambda>i. py_str (dget (rs ! i) k) = d) (sort (dvalues (last_index k rs))) = [i]"
    using i last_index_values_distinct [of k rs] by (intro filter_single) auto
  with Some show ?thesis by (simp add: filter_map last_write_def row_of_def comp_def)
qed

lemma matched_flag:
  assumes "r = rs ! i" and "i < length rs"
    and "fst ` set written = e_idx ` {x \<in> set (map (row_of E k build extra rs) (sort (dvalues (last_index k rs)))).
            nodes g (l, e_id x) \<noteq> None}"
  shows "o_matched (record_outcome_of k rel (last_index k rs) written (i, r)) = has_node g l k r"
proof (cases "record_id k r")
  case None
  then show ?thesis by (simp add: record_outcome_of_def has_node_def record_id_def Let_def split: if_splits)
next
  case (Some d)
  then have d: "dget r k \<noteq> JNull" "py_str (dget r k) = d" by (auto simp: record_id_def split: if_splits)
  from Some assms have "map_of (last_index k rs) d \<noteq> None" by (auto simp: last_index_None)
  then obtain j where j: "map_of (last_index k rs) d = Some j" by auto
  then have jd: "j \<in> set (dvalues (last_index k rs))" by (auto simp: last_index_values)
  have "record_id k (rs ! j) = Some d" using j by (simp add: last_index_Some)
  then have idj: "py_str (dget (rs ! j) k) = d" by (auto simp: record_id_def split: if_splits)
  have "(j \<in> fst ` set written) = (nodes g (l, d) \<noteq> None)"
  proof
    assume "j \<in> fst ` set written"
    then show "nodes g (l, d) \<noteq> None" unfolding assms(3) by (auto simp: row_of_def idj)
  next
    assume "nodes g (l, d) \<noteq> None"
    then have "row_of E k build extra rs j \<in> {x \<in> set (map (row_of E k build extra rs) (sort (dvalues (last_index k rs)))).
            nodes g (l, e_id x) \<noteq> None}"
      using jd idj by (simp only: mem_Collect_eq set_map set_sort image_eqI) (simp add: row_of_def)
    then have "e_idx (row_of E k build extra rs j) \<in> fst ` set written" unfolding assms(3) by (rule imageI)
    then show "j \<in> fst ` set written" by (simp add: row_of_def)
  qed
  moreover have "(map_of written j = None) = (j \<notin> fst ` set written)" by (simp add: map_of_eq_None_iff)
  ultimately show ?thesis
    using d Some j by (auto simp: record_outcome_of_def has_node_def Let_def split: option.split)
qed

lemma batch_run:
  assumes ok: "\<forall>r \<in> set rs. buildable k build extra r"
  shows "\<exists>outs st' g'. run_entity_batch E now l fs k build extra rel rs (st, g) = Inr (outs, st', g') \<and>
    g' = write_nodes E fs now l (last_write E k build extra rs) g \<and>
    map o_matched outs = map (has_node g l k) rs \<and>
    entities_enriched st' = entities_enriched st + int (length (filter (has_node g l k) rs)) \<and>
    entities_skipped_no_discogs_match st' =
      entities_skipped_no_discogs_match st + int (length (filter (\<lambda>r. \<not> has_node g l k r) rs))"
proof -
  let ?rows = "map (row_of E k build extra rs) (sort (dvalues (last_index k rs)))"
  obtain written g' where gb: "gated_write_batch E l fs now ?rows g = (written, g')" by fastforce
  let ?outs = "map (record_outcome_of k rel (last_index k rs) written) (enumerate 0 rs)"
  have graph: "g' = write_nodes E fs now l (last_write E k build extra rs) g"
    using gated_write_batch_graph [of E l fs now ?rows "[]" g] gb
    unfolding gated_write_batch_def rows_of_id by simp
  have "map fst written = map e_idx (filter (\<lambda>r. nodes g (l, e_id r) \<noteq> None) ?rows)"
    using gated_write_batch_indices [of E l fs now ?rows "[]" g] gb
    by (simp only: gated_write_batch_def fst_conv list.map append_Nil)
  then have "set (map fst written) = e_idx ` {x \<in> set ?rows. nodes g (l, e_id x) \<noteq> None}"
    by (simp only: set_map set_filter)
  then have idx: "fst ` set written = e_idx ` {x \<in> set ?rows. nodes g (l, e_id x) \<noteq> None}"
    by (simp only: set_map)
  have flags: "map o_matched ?outs = map (has_node g l k) rs"
    by (rule nth_equalityI) (simp_all add: nth_enumerate_eq matched_flag [OF refl _ idx])
  have "length (filter P xs) = length (filter Q ys)" if "map P xs = map Q ys" for P Q and xs :: "outcome list" and ys :: "obj list"
    using that by (induction xs arbitrary: ys) (auto simp: Cons_eq_map_conv)
  from this [OF flags] have "length (filter o_matched ?outs) = length (filter (has_node g l k) rs)" .
  moreover have "length rs = length (filter (has_node g l k) rs) + length (filter (\<lambda>r. \<not> has_node g l k r) rs)"
    by (simp add: sum_length_filter_compl)
  ultimately show ?thesis
    using flags graph
    by (simp add: run_entity_batch_def entity_rows_all [OF ok] gb count_batch_def Let_def)
qed

section \<open>A batch is its records in order\<close>

definition same_graph :: "graph \<Rightarrow> graph \<Rightarrow> bool" where
  "same_graph g g' \<longleftrightarrow> (\<forall>k. rel_option same_node (nodes g k) (nodes g' k)) \<and>
     arels g = arels g' \<and> mediums g = mediums g' \<and> families g = families g' \<and>
     in_family g = in_family g' \<and> issued g = issued g' \<and> other_rels g = other_rels g'"

text \<open>
  The payloads in play for a node: distinct rows have distinct digests (no SHA-256 collision among
  them), and a digest already stored vouches for the stored fields.
\<close>

definition honest_digests ::
    "env \<Rightarrow> nlabel \<Rightarrow> fields \<Rightarrow> string \<Rightarrow> (obj \<Rightarrow> obj res) \<Rightarrow> (obj \<Rightarrow> json res) \<Rightarrow> obj list \<Rightarrow> graph \<Rightarrow> bool" where
  "honest_digests E l fs k build extra rs g \<longleftrightarrow>
     (\<forall>d. separated fs (set (writes_to E k build extra rs d)) \<and>
        (\<forall>n. nodes g (l, d) = Some n \<longrightarrow> coherent fs (set (writes_to E k build extra rs d)) n))"

lemma same_node_refl [simp]: "same_node n n"
  by (simp add: same_node_def)

lemma writes_split:
  "writes_to E k build extra rs d =
     (case map_of (last_index k rs) d of None \<Rightarrow> []
      | Some i \<Rightarrow> writes_to E k build extra (take i rs) d @ [write_of E build extra (rs ! i)])"
proof (cases "map_of (last_index k rs) d")
  case None
  then have "filter (\<lambda>r. record_id k r = Some d) rs = []"
    by (auto simp: last_index_None filter_empty_conv)
  with None show ?thesis by (simp add: writes_to_def)
next
  case (Some i)
  then have i: "i < length rs" "record_id k (rs ! i) = Some d"
    and later: "\<And>j. i < j \<Longrightarrow> j < length rs \<Longrightarrow> record_id k (rs ! j) \<noteq> Some d"
    by (auto simp: last_index_Some)
  have "record_id k r \<noteq> Some d" if "r \<in> set (drop (Suc i) rs)" for r
  proof -
    from that obtain j where "j < length rs - Suc i" "r = rs ! (Suc i + j)"
      by (auto simp: in_set_conv_nth)
    with later [of "Suc i + j"] show ?thesis by simp
  qed
  then have tail: "filter (\<lambda>r. record_id k r = Some d) (drop (Suc i) rs) = []"
    by (auto simp: filter_empty_conv)
  have "rs = take i rs @ rs ! i # drop (Suc i) rs" using i(1) by (rule id_take_nth_drop)
  then have "filter (\<lambda>r. record_id k r = Some d) rs =
      filter (\<lambda>r. record_id k r = Some d) (take i rs @ rs ! i # drop (Suc i) rs)"
    by (rule arg_cong)
  with tail i(2) Some show ?thesis by (simp add: writes_to_def)
qed

lemma same_write_nodes:
  assumes clean: "clean_fields fs" and honest: "honest_digests E l fs k build extra rs g"
  shows "same_graph (write_nodes E fs now l (writes_to E k build extra rs) g)
    (write_nodes E fs now l (last_write E k build extra rs) g)"
proof -
  have "same_node (fold (node_write E fs now) (writes_to E k build extra rs d) n)
      (fold (node_write E fs now) (last_write E k build extra rs d) n)"
    if node: "nodes g (l, d) = Some n" for d n
  proof (cases "map_of (last_index k rs) d")
    case None
    then show ?thesis by (simp add: writes_split [of E k build extra rs] last_write_def)
  next
    case (Some i)
    let ?ws = "writes_to E k build extra (take i rs) d" and ?w = "write_of E build extra (rs ! i)"
    let ?W = "set (writes_to E k build extra rs d)"
    have split: "writes_to E k build extra rs d = ?ws @ [?w]"
      using Some by (simp add: writes_split [of E k build extra rs])
    have "separated fs ?W" "coherent fs ?W n"
      using honest node unfolding honest_digests_def by blast+
    then have "same_node (fold (node_write E fs now) (?ws @ [?w]) n) (node_write E fs now ?w n)"
      by (intro collapse_writes [OF clean, of ?W]) (auto simp add: split)
    with Some show ?thesis by (simp add: split last_write_def)
  qed
  then have "rel_option same_node (nodes (write_nodes E fs now l (writes_to E k build extra rs) g) key)
      (nodes (write_nodes E fs now l (last_write E k build extra rs) g) key)" for key
    by (cases key; cases "nodes g key") (auto simp add: write_nodes_def)
  then show ?thesis by (simp add: same_graph_def write_nodes_frame)
qed

lemma entity_batch_sequential:
  assumes "clean_fields fs" and "honest_digests E l fs k build extra rs g"
    and "rfold (node_enrich E now l fs k build extra) rs (st, g) = Inr (st1, g1)"
  obtains outs st2 g2 where "run_entity_batch E now l fs k build extra rel rs (st, g) = Inr (outs, st2, g2)"
    "same_graph g1 g2" "map o_matched outs = map (has_node g l k) rs"
    "entities_enriched st2 = entities_enriched st1"
    "entities_skipped_no_discogs_match st2 = entities_skipped_no_discogs_match st1"
proof -
  note seq = sequential_run [OF assms(3)]
  then have "\<forall>r \<in> set rs. buildable k build extra r" by blast
  from batch_run [OF this, of E now l fs rel st g] seq same_write_nodes [OF assms(1,2), of now] that
  show ?thesis by auto
qed

lemma clean_entity_fields:
  "clean_fields ARTIST_FIELDS" "clean_fields LABEL_FIELDS" "clean_fields RELEASE_FIELDS" "clean_fields RELEASE_GROUP_FIELDS"
  by (simp_all add: clean_fields_def ARTIST_FIELDS_def LABEL_FIELDS_def RELEASE_FIELDS_def RELEASE_GROUP_FIELDS_def)

end
