(* ===== verification/Relations.thy ===== *)
theory Relations
  imports Sequential "HOL-Library.Multiset"
begin

text \<open>
  The relationships of a batch of artists: the rows grouped by edge type are the supported relations
  of the batch, the statements create exactly the edges the per-message loop would, and in a graph
  without parallel edges an artist is reported complete exactly when each of its supported
  relations has both ends in the graph.
\<close>

section \<open>Generic counting\<close>

lemma length_filter_le_iff:
  "length (filter P xs) \<le> length (filter (\<lambda>x. P x \<and> Q x) xs) \<longleftrightarrow> (\<forall>x \<in> set xs. P x \<longrightarrow> Q x)"
proof (induction xs)
  case (Cons a xs)
  have "length (filter (\<lambda>x. P x \<and> Q x) xs) \<le> length (filter P xs)"
    by (induction xs) auto
  with Cons show ?case by auto
qed simp

definition count_of :: "('k \<times> nat) list \<Rightarrow> 'k \<Rightarrow> nat" where
  "count_of d k = (case map_of d k of None \<Rightarrow> 0 | Some n \<Rightarrow> n)"

definition owner_sum :: "('k \<times> nat) list \<Rightarrow> 'k \<Rightarrow> nat" where
  "owner_sum xs k = sum_list (map snd (filter (\<lambda>x. fst x = k) xs))"

lemma count_of_add [simp]: "count_of (add_count k n d) k' = count_of d k' + (if k' = k then n else 0)"
  by (simp add: count_of_def add_count_def update_conv split: option.split)

lemma count_of_add_all: "count_of (fold (\<lambda>(k, n). add_count k n) xs d) k = count_of d k + owner_sum xs k"
  by (induction xs arbitrary: d) (auto simp: owner_sum_def)

lemma sum_list_group:
  assumes "distinct ks" and "\<forall>x \<in> set xs. snd x > 0 \<longrightarrow> fst x \<in> set ks"
  shows "sum_list (map (owner_sum xs) ks) = sum_list (map snd xs)"
  using assms(2)
proof (induction xs)
  case Nil
  then show ?case by (simp add: owner_sum_def)
next
  case (Cons x xs)
  have "owner_sum (x # xs) k = owner_sum xs k + (if k = fst x then snd x else 0)" for k
    by (simp add: owner_sum_def)
  then have "sum_list (map (owner_sum (x # xs)) ks) =
      sum_list (map (owner_sum xs) ks) + sum_list (map (\<lambda>k. if k = fst x then snd x else 0) ks)"
    by (induction ks) simp_all
  moreover have "sum_list (map (\<lambda>k. if k = fst x then snd x else 0) ks) = (if fst x \<in> set ks then snd x else 0)"
    using assms(1) by (induction ks) auto
  ultimately show ?case using Cons by auto
qed

lemma owner_groups_eq:
  "owner_groups ms = map (\<lambda>k. (k, owner_sum ms k)) (firsts (map fst (filter (\<lambda>x. snd x > 0) ms)))"
  by (simp add: owner_groups_def owner_sum_def)

lemma owner_groups_total: "sum_list (map snd (owner_groups ms)) = sum_list (map snd ms)"
  unfolding owner_groups_eq by (simp add: comp_def) (rule sum_list_group, auto)

lemma owner_sum_groups: "owner_sum (owner_groups ms) k = owner_sum ms k"
proof -
  have "owner_sum (map (\<lambda>k. (k, f k)) ks) k = (if k \<in> set ks then f k else 0)" if "distinct ks" for ks and f :: "string \<Rightarrow> nat"
    using that by (induction ks) (auto simp: owner_sum_def)
  moreover have "owner_sum ms k = 0" if "k \<notin> fst ` set (filter (\<lambda>x. snd x > 0) ms)"
    using that by (induction ms) (auto simp: owner_sum_def split: if_splits)
  ultimately show ?thesis by (auto simp: owner_groups_eq)
qed

lemma map_of_keyed: "map_of (map (\<lambda>(k, v). (k, f k v)) xs) k = map_option (f k) (map_of xs k)"
  by (induction xs) auto

lemma set_map_filter_Some: "set (List.map_filter f xs) = {y. \<exists>x \<in> set xs. f x = Some y}"
  by (induction xs) (auto simp: map_filter_def)

section \<open>The plan\<close>

definition flat_rows :: "(string \<times> rel_row list) list \<Rightarrow> (string \<times> rel_row) list" where
  "flat_rows d = concat (map (\<lambda>(t, rows). map (Pair t) rows) d)"

definition rel_entry :: "string \<times> json \<Rightarrow> (string \<times> rel_row) option" where
  "rel_entry x = (case relation_key (fst x) (snd x) of None \<Rightarrow> None
     | Some (t, a, b) \<Rightarrow> Some (t, \<lparr>rr_owner = fst x, rr_source = a, rr_target = b\<rparr>))"

definition supported :: "string \<times> json \<Rightarrow> bool" where
  "supported x \<longleftrightarrow> relation_type (snd x) \<noteq> None"

definition plan_step :: "string \<times> json \<Rightarrow> rel_plan \<Rightarrow> rel_plan" where
  "plan_step x p = (if \<not> supported x then p
     else let p1 = p\<lparr>rp_expected := add_count (fst x) 1 (rp_expected p)\<rparr>
          in (case rel_entry x of None \<Rightarrow> p1\<lparr>rp_missing := rp_missing p1 + 1\<rparr>
              | Some (t, row) \<Rightarrow> p1\<lparr>rp_by_type := append_to t row (rp_by_type p1)\<rparr>))"

lemma plan_relation_Inr:
  "(plan_relation x p = Inr p') = (relation_ok (snd x) \<and> p' = plan_step x p)"
proof (cases x)
  case (Pair owner r)
  show ?thesis
  proof (cases r)
    case (JObj d)
    then show ?thesis unfolding Pair
      by (cases "dget_default d ''type'' (JStr [])")
        (auto simp: plan_relation_def plan_step_def relation_ok_def supported_def rel_entry_def relation_type_def
          relation_key_def edge_type_of_def Let_def split: option.splits prod.splits)
  qed (simp_all add: Pair plan_relation_def relation_ok_def edge_type_of_def)
qed

lemma mset_flat_append_to: "mset (flat_rows (append_to t r d)) = add_mset (t, r) (mset (flat_rows d))"
  by (induction d) (auto simp: flat_rows_def append_to_def)

lemma rel_entry_supported: "rel_entry x = Some e \<Longrightarrow> supported x"
  by (auto simp: rel_entry_def supported_def dest: relation_key_type split: option.splits)

lemma plan_relations_Inr:
  assumes "plan_relations rels = Inr p"
  shows "\<forall>x \<in> set rels. relation_ok (snd x)"
    and "mset (flat_rows (rp_by_type p)) = mset (List.map_filter rel_entry rels)"
    and "count_of (rp_expected p) owner = length (filter (\<lambda>x. fst x = owner \<and> supported x) rels)"
    and "rp_missing p = length (filter (\<lambda>x. supported x \<and> rel_entry x = None) rels)"
    and "owner \<in> fst ` set (rp_expected p) \<longleftrightarrow> (\<exists>x \<in> set rels. fst x = owner \<and> supported x)"
proof -
  let ?p0 = "\<lparr>rp_by_type = [], rp_expected = [], rp_missing = 0\<rparr>"
  have run: "(\<forall>x \<in> set rels. relation_ok (snd x)) \<and> p' = fold plan_step rels p0"
    if "rfold plan_relation rels p0 = Inr p'" for p0 p'
    using that by (induction rels arbitrary: p0) (auto simp: res_simps plan_relation_Inr)
  have p: "p = fold plan_step rels ?p0" and ok: "\<forall>x \<in> set rels. relation_ok (snd x)"
    using run assms unfolding plan_relations_def by blast+
  show "\<forall>x \<in> set rels. relation_ok (snd x)" by (rule ok)
  have "mset (flat_rows (rp_by_type (fold plan_step rels q))) =
      mset (flat_rows (rp_by_type q)) + mset (List.map_filter rel_entry rels)" for q
    by (induction rels arbitrary: q)
      (auto simp: plan_step_def Let_def mset_flat_append_to map_filter_def dest: rel_entry_supported split: option.splits)
  then show "mset (flat_rows (rp_by_type p)) = mset (List.map_filter rel_entry rels)"
    by (simp add: p flat_rows_def)
  have step: "count_of (rp_expected (plan_step x q)) owner =
      count_of (rp_expected q) owner + (if fst x = owner \<and> supported x then 1 else 0)" for x q
    by (auto simp: plan_step_def Let_def split: option.split)
  have "count_of (rp_expected (fold plan_step rels q)) owner =
      count_of (rp_expected q) owner + length (filter (\<lambda>x. fst x = owner \<and> supported x) rels)" for q
    by (induction rels arbitrary: q) (simp_all add: step)
  then show "count_of (rp_expected p) owner = length (filter (\<lambda>x. fst x = owner \<and> supported x) rels)"
    by (simp add: p count_of_def)
  have miss: "rp_missing (plan_step x q) = rp_missing q + (if supported x \<and> rel_entry x = None then 1 else 0)" for x q
    by (auto simp: plan_step_def Let_def split: option.split)
  have "rp_missing (fold plan_step rels q) =
      rp_missing q + length (filter (\<lambda>x. supported x \<and> rel_entry x = None) rels)" for q
    by (induction rels arbitrary: q) (simp_all add: miss)
  then show "rp_missing p = length (filter (\<lambda>x. supported x \<and> rel_entry x = None) rels)"
    by (simp add: p)
  have key: "fst ` set (rp_expected (plan_step x q)) =
      (if supported x then insert (fst x) (fst ` set (rp_expected q)) else fst ` set (rp_expected q))" for x q
    by (auto simp: plan_step_def Let_def add_count_def dom_update [unfolded dom_map_of_conv_image_fst] split: option.splits)
  have "owner \<in> fst ` set (rp_expected (fold plan_step rels q)) \<longleftrightarrow>
      owner \<in> fst ` set (rp_expected q) \<or> (\<exists>x \<in> set rels. fst x = owner \<and> supported x)" for q
    by (induction rels arbitrary: q) (auto simp: key)
  then show "owner \<in> fst ` set (rp_expected p) \<longleftrightarrow> (\<exists>x \<in> set rels. fst x = owner \<and> supported x)"
    by (simp add: p)
qed

section \<open>The statements\<close>

definition has_ends :: "graph \<Rightarrow> string \<times> rel_row \<Rightarrow> bool" where
  "has_ends g x = (artist_exists g (rr_source (snd x)) \<and> artist_exists g (rr_target (snd x)))"

definition row_edge :: "string \<times> rel_row \<Rightarrow> string \<times> string \<times> string" where
  "row_edge x = (fst x, rr_source (snd x), rr_target (snd x))"

text \<open>No parallel edges of one type between two artists.\<close>

definition simple_rels :: "graph \<Rightarrow> bool" where
  "simple_rels g \<longleftrightarrow> (\<forall>t a b. rel_count g t a b \<le> 1)"

lemma has_ends_nodes: "nodes g = nodes g' \<Longrightarrow> has_ends g x = has_ends g' x"
  by (simp add: has_ends_def artist_exists_def)

lemma finite_edge_set [simp]: "finite (edge_set g)"
  by (simp add: edge_set_def)

lemma merge_rel_card:
  assumes "merge_rel t a b g = (c, m, g')"
  shows "card (edge_set g') = card (edge_set g) + c" and "c \<le> m"
  using merge_rel_result [OF assms] edge_set_merge_rel [OF assms] rel_count_pos [of g t a b]
  by (auto simp: card_insert_if)

lemma merge_rel_batch_run:
  assumes "fold (merge_rel_row t) rows (c, ms, g) = (c', ms', g')"
  shows "nodes g' = nodes g" and "graph_frame g g'"
    and "edge_set g' = edge_set g \<union> row_edge ` {x \<in> Pair t ` set rows. has_ends g x}"
    and "card (edge_set g') + c = card (edge_set g) + c'"
    and "c' + sum_list (map snd ms) \<le> c + sum_list (map snd ms')"
    and "simple_rels g \<Longrightarrow> simple_rels g' \<and>
      ms' = ms @ map (\<lambda>row. (rr_owner row, if has_ends g (t, row) then 1 else 0)) rows"
proof -
  have "nodes g' = nodes g \<and> graph_frame g g' \<and>
    edge_set g' = edge_set g \<union> row_edge ` {x \<in> Pair t ` set rows. has_ends g x} \<and>
    card (edge_set g') + c = card (edge_set g) + c' \<and>
    c' + sum_list (map snd ms) \<le> c + sum_list (map snd ms') \<and>
    (simple_rels g \<longrightarrow> simple_rels g' \<and>
      ms' = ms @ map (\<lambda>row. (rr_owner row, if has_ends g (t, row) then 1 else 0)) rows)"
    using assms
  proof (induction rows arbitrary: c ms g)
    case Nil
    then show ?case by simp
  next
    case (Cons row rows)
    obtain c1 m1 g1 where mr: "merge_rel t (rr_source row) (rr_target row) g = (c1, m1, g1)"
      by (metis prod_cases3)
    then have "merge_rel_row t row (c, ms, g) = (c + c1, ms @ [(rr_owner row, m1)], g1)"
      by (simp add: merge_rel_row_def)
    with Cons.prems have rest: "fold (merge_rel_row t) rows (c + c1, ms @ [(rr_owner row, m1)], g1) = (c', ms', g')"
      by simp
    note IH = Cons.IH [OF rest]
    have n1: "nodes g1 = nodes g" by (rule merge_rel_frame(1) [OF mr])
    have ends: "has_ends g1 x = has_ends g x" for x by (rule has_ends_nodes [OF n1])
    have e1: "edge_set g1 = edge_set g \<union> row_edge ` {x \<in> {(t, row)}. has_ends g x}"
      using edge_set_merge_rel [OF mr] by (auto simp: has_ends_def row_edge_def)
    have simple: "simple_rels g1 \<and> m1 = (if has_ends g (t, row) then 1 else 0)" if "simple_rels g"
    proof -
      have "max 1 (rel_count g t (rr_source row) (rr_target row)) = 1"
        using that unfolding simple_rels_def by (simp add: max_def le_antisym)
      then show ?thesis
        using that merge_rel_count [OF mr] merge_rel_result(1) [OF mr]
        unfolding simple_rels_def has_ends_def by simp
    qed
    have "edge_set g' = edge_set g1 \<union> row_edge ` {x \<in> Pair t ` set rows. has_ends g x}"
      using IH by (simp add: ends)
    then have "edge_set g' = edge_set g \<union> row_edge ` {x \<in> Pair t ` set (row # rows). has_ends g x}"
      unfolding e1 by auto
    moreover have "card (edge_set g') + c = card (edge_set g) + c'"
      using IH merge_rel_card(1) [OF mr] by linarith
    moreover have "c' + sum_list (map snd ms) \<le> c + sum_list (map snd ms')"
      using IH merge_rel_card(2) [OF mr] by simp
    moreover have "graph_frame g g'"
      using IH graph_frame_merge_rel [OF mr] graph_frame_trans by blast
    moreover have "simple_rels g' \<and>
        ms' = ms @ map (\<lambda>row. (rr_owner row, if has_ends g (t, row) then 1 else 0)) (row # rows)" if "simple_rels g"
      using IH simple [OF that] by (simp add: ends)
    ultimately show ?case using IH n1 by simp
  qed
  then show "nodes g' = nodes g" "graph_frame g g'"
    "edge_set g' = edge_set g \<union> row_edge ` {x \<in> Pair t ` set rows. has_ends g x}"
    "card (edge_set g') + c = card (edge_set g) + c'"
    "c' + sum_list (map snd ms) \<le> c + sum_list (map snd ms')"
    "simple_rels g \<Longrightarrow> simple_rels g' \<and>
      ms' = ms @ map (\<lambda>row. (rr_owner row, if has_ends g (t, row) then 1 else 0)) rows"
    by blast+
qed

definition rels_handled :: "stats \<Rightarrow> int" where
  "rels_handled st = relationships_created st + relationships_updated st + relationships_skipped_missing_side st"

text \<open>One edge type.\<close>

lemma project_edge_type_run:
  assumes "project_edge_type (t, rows) (pr, st, g) = (pr', st', g')"
  shows "nodes g' = nodes g" and "graph_frame g g'"
    and "edge_set g' = edge_set g \<union> row_edge ` {x \<in> set (map (Pair t) rows). has_ends g x}"
    and "relationships_created st' = relationships_created st + (int (card (edge_set g')) - int (card (edge_set g)))"
    and "rels_handled st' = rels_handled st + int (length rows)"
    and "simple_rels g \<Longrightarrow> simple_rels g' \<and> count_of pr' owner = count_of pr owner +
      length (filter (\<lambda>x. rr_owner (snd x) = owner \<and> has_ends g x) (map (Pair t) rows))"
proof -
  obtain c ms g1 where mb: "merge_rel_batch t rows g = (c, ms, g1)" by (metis prod_cases3)
  note run = merge_rel_batch_run [OF mb [unfolded merge_rel_batch_def]]
  have parts: "g' = g1" "pr' = fold (\<lambda>(k, n). add_count k n) (owner_groups ms) pr"
    "st' = st\<lparr>relationships_created := relationships_created st + int c,
       relationships_updated := relationships_updated st + max (int (sum_list (map snd ms)) - int c) 0,
       relationships_skipped_missing_side :=
         relationships_skipped_missing_side st + (int (length rows) - int (sum_list (map snd ms)))\<rparr>"
    using assms mb by (auto simp: project_edge_type_def Let_def owner_groups_total)
  show "nodes g' = nodes g" "graph_frame g g'"
    "edge_set g' = edge_set g \<union> row_edge ` {x \<in> set (map (Pair t) rows). has_ends g x}"
    using run(1-3) by (simp_all add: parts)
  show "relationships_created st' = relationships_created st + (int (card (edge_set g')) - int (card (edge_set g)))"
    using run(4) by (simp add: parts)
  show "rels_handled st' = rels_handled st + int (length rows)"
    using run(5) by (simp add: rels_handled_def parts)
  show "simple_rels g' \<and> count_of pr' owner = count_of pr owner +
      length (filter (\<lambda>x. rr_owner (snd x) = owner \<and> has_ends g x) (map (Pair t) rows))" if "simple_rels g"
  proof -
    have ms: "ms = map (\<lambda>row. (rr_owner row, if has_ends g (t, row) then 1 else 0)) rows"
      and "simple_rels g1" using run(6) [OF that] by simp_all
    have "owner_sum (map (\<lambda>row. (rr_owner row, if P row then 1 else 0)) rs) owner =
        length (filter (\<lambda>row. rr_owner row = owner \<and> P row) rs)" for P rs
      by (induction rs) (simp_all add: owner_sum_def)
    then have "owner_sum ms owner = length (filter (\<lambda>row. rr_owner row = owner \<and> has_ends g (t, row)) rows)"
      unfolding ms .
    with \<open>simple_rels g1\<close> show ?thesis
      by (simp add: parts count_of_add_all owner_sum_groups filter_map comp_def)
  qed
qed

text \<open>All of them.\<close>

lemma project_edge_types_run:
  assumes "fold project_edge_type d (pr, st, g) = (pr', st', g')"
  shows "nodes g' = nodes g \<and> graph_frame g g' \<and>
    edge_set g' = edge_set g \<union> row_edge ` {x \<in> set (flat_rows d). has_ends g x} \<and>
    relationships_created st' = relationships_created st + (int (card (edge_set g')) - int (card (edge_set g))) \<and>
    rels_handled st' = rels_handled st + int (length (flat_rows d)) \<and>
    (simple_rels g \<longrightarrow> (\<forall>owner. count_of pr' owner = count_of pr owner +
      length (filter (\<lambda>x. rr_owner (snd x) = owner \<and> has_ends g x) (flat_rows d))))"
  using assms
proof (induction d arbitrary: pr st g)
  case Nil
  then show ?case by (simp add: flat_rows_def)
next
  case (Cons x d)
  obtain t rows where x: "x = (t, rows)" by fastforce
  obtain pr1 st1 g1 where one: "project_edge_type (t, rows) (pr, st, g) = (pr1, st1, g1)" by (metis prod_cases3)
  with Cons.prems x have rest: "fold project_edge_type d (pr1, st1, g1) = (pr', st', g')" by simp
  note run = project_edge_type_run [OF one]
  note IH = Cons.IH [OF rest]
  have ends: "has_ends g1 y = has_ends g y" for y by (rule has_ends_nodes [OF run(1)])
  have flat: "flat_rows (x # d) = map (Pair t) rows @ flat_rows d" by (simp add: flat_rows_def x)
  have "edge_set g' = edge_set g \<union> row_edge ` {y \<in> set (map (Pair t) rows @ flat_rows d). has_ends g y}"
    using IH run(3) by (auto simp: ends)
  moreover have "graph_frame g g'" using IH run(2) graph_frame_trans by blast
  moreover have "nodes g' = nodes g" using IH run(1) by simp
  moreover have "relationships_created st' = relationships_created st + (int (card (edge_set g')) - int (card (edge_set g)))"
    using IH run(4) by linarith
  moreover have "rels_handled st' = rels_handled st + int (length (map (Pair t) rows @ flat_rows d))"
    using IH run(5) by simp
  moreover have "count_of pr' owner = count_of pr owner +
      length (filter (\<lambda>x. rr_owner (snd x) = owner \<and> has_ends g x) (map (Pair t) rows @ flat_rows d))"
    if "simple_rels g" for owner
    using IH run(6) [OF that, of owner] by (simp add: ends)
  ultimately show ?case unfolding flat by blast
qed

section \<open>What the batch of relationships does\<close>

definition relation_edges :: "graph \<Rightarrow> (string \<times> json) list \<Rightarrow> (string \<times> string \<times> string) set" where
  "relation_edges g rels = {(t, a, b). artist_exists g a \<and> artist_exists g b \<and>
     (\<exists>(owner, r) \<in> set rels. relation_key owner r = Some (t, a, b))}"

definition resolved :: "graph \<Rightarrow> string \<times> json \<Rightarrow> bool" where
  "resolved g x \<longleftrightarrow> (case relation_key (fst x) (snd x) of None \<Rightarrow> False
     | Some (t, a, b) \<Rightarrow> artist_exists g a \<and> artist_exists g b)"

lemma entry_resolved: "resolved g x \<longleftrightarrow> (\<exists>e. rel_entry x = Some e \<and> has_ends g e)"
  by (auto simp: resolved_def rel_entry_def has_ends_def split: option.split)

lemma entry_owner: "rel_entry x = Some e \<Longrightarrow> rr_owner (snd e) = fst x"
  by (auto simp: rel_entry_def split: option.splits)

lemma entry_owner_pair: "rel_entry (owner, r) = Some (t, row) \<Longrightarrow> rr_owner row = owner"
  using entry_owner by fastforce

lemma rel_entry_key: "rel_entry x = Some e \<Longrightarrow> relation_key (fst x) (snd x) = Some (row_edge e)"
  by (auto simp: rel_entry_def row_edge_def split: option.splits)

lemma entry_edges:
  "row_edge ` {x \<in> {e. \<exists>x \<in> set rels. rel_entry x = Some e}. has_ends g x} = relation_edges g rels"
proof (intro set_eqI iffI)
  fix k assume "k \<in> row_edge ` {x \<in> {e. \<exists>x \<in> set rels. rel_entry x = Some e}. has_ends g x}"
  then obtain e x where "x \<in> set rels" "rel_entry x = Some e" "has_ends g e" "k = row_edge e" by blast
  then show "k \<in> relation_edges g rels"
    using rel_entry_key [of x e] unfolding relation_edges_def row_edge_def has_ends_def
    by (cases x) auto
next
  fix k assume "k \<in> relation_edges g rels"
  then obtain t a b x where x: "k = (t, a, b)" "artist_exists g a" "artist_exists g b" "x \<in> set rels"
    "relation_key (fst x) (snd x) = Some (t, a, b)"
    unfolding relation_edges_def by fastforce
  let ?e = "(t, \<lparr>rr_owner = fst x, rr_source = a, rr_target = b\<rparr>)"
  have "rel_entry x = Some ?e" "row_edge ?e = k" "has_ends g ?e"
    using x by (simp_all add: rel_entry_def row_edge_def has_ends_def)
  with x(4) show "k \<in> row_edge ` {x \<in> {e. \<exists>x \<in> set rels. rel_entry x = Some e}. has_ends g x}"
    by (metis (mono_tags, lifting) image_eqI mem_Collect_eq)
qed

lemma length_filter_mset: "mset xs = mset ys \<Longrightarrow> length (filter P xs) = length (filter P ys)"
  by (metis mset_filter size_mset)

lemma create_relationship_edges_batch_run:
  assumes run: "create_relationship_edges_batch rels (st, g) = Inr (complete, st', g')"
  shows "\<forall>x \<in> set rels. relation_ok (snd x)"
    and "nodes g' = nodes g" and "graph_frame g g'"
    and "edge_set g' = edge_set g \<union> relation_edges g rels"
    and "relationships_created st' = relationships_created st + (int (card (edge_set g')) - int (card (edge_set g)))"
    and "rels_handled st' = rels_handled st + int (length (filter supported rels))"
    and "simple_rels g \<Longrightarrow> map_of complete owner =
      (if \<exists>x \<in> set rels. fst x = owner \<and> supported x
       then Some (\<forall>x \<in> set rels. fst x = owner \<longrightarrow> supported x \<longrightarrow> resolved g x) else None)"
proof -
  let ?skip = "\<lambda>n. st\<lparr>relationships_skipped_missing_side := relationships_skipped_missing_side st + n\<rparr>"
  obtain p where p: "plan_relations rels = Inr p"
    using run by (auto simp: create_relationship_edges_batch_def res_simps)
  obtain pr st2 g2 where fl: "fold project_edge_type (rp_by_type p) ([], ?skip (int (rp_missing p)), g) = (pr, st2, g2)"
    by (metis prod_cases3)
  have parts: "st' = st2" "g' = g2" and complete: "complete = map (\<lambda>(owner, count). (owner, count \<le> count_of pr owner)) (rp_expected p)"
    using run p fl by (auto simp: create_relationship_edges_batch_def count_of_def Let_def)
  note plan = plan_relations_Inr [OF p]
  note exec = project_edge_types_run [OF fl]
  have rows: "set (flat_rows (rp_by_type p)) = {e. \<exists>x \<in> set rels. rel_entry x = Some e}"
    using arg_cong [OF plan(2), of set_mset] by (simp add: set_map_filter_Some)
  show "\<forall>x \<in> set rels. relation_ok (snd x)" by (rule plan(1))
  show "nodes g' = nodes g" "graph_frame g g'" using exec by (simp_all add: parts)
  have "row_edge ` {x \<in> {e. \<exists>x \<in> set rels. rel_entry x = Some e}. has_ends g x} = relation_edges g rels"
    by (rule entry_edges)
  then show "edge_set g' = edge_set g \<union> relation_edges g rels"
    using exec by (simp add: parts rows)
  show "relationships_created st' = relationships_created st + (int (card (edge_set g')) - int (card (edge_set g)))"
    using exec by (simp add: parts)
  have "length (filter (\<lambda>x. supported x \<and> rel_entry x = None) xs) + length (List.map_filter rel_entry xs) =
      length (filter supported xs)" for xs
    by (induction xs) (auto simp: map_filter_def dest: rel_entry_supported)
  then have "rp_missing p + length (flat_rows (rp_by_type p)) = length (filter supported rels)"
    using plan(4) arg_cong [OF plan(2), of size] by simp
  then show "rels_handled st' = rels_handled st + int (length (filter supported rels))"
  proof -
    assume "rp_missing p + length (flat_rows (rp_by_type p)) = length (filter supported rels)"
    then have "int (rp_missing p) + int (length (flat_rows (rp_by_type p))) = int (length (filter supported rels))"
      by linarith
    moreover have "rels_handled st2 = rels_handled (?skip (int (rp_missing p))) + int (length (flat_rows (rp_by_type p)))"
      using exec by blast
    moreover have "rels_handled (?skip n) = rels_handled st + n" for n
      by (simp add: rels_handled_def)
    ultimately show ?thesis by (simp add: parts)
  qed
  show "map_of complete owner =
      (if \<exists>x \<in> set rels. fst x = owner \<and> supported x
       then Some (\<forall>x \<in> set rels. fst x = owner \<longrightarrow> supported x \<longrightarrow> resolved g x) else None)" if "simple_rels g"
  proof -
    have got: "count_of pr owner = length (filter (\<lambda>e. rr_owner (snd e) = owner \<and> has_ends g e) (List.map_filter rel_entry rels))"
      using exec that length_filter_mset [OF plan(2), of "\<lambda>e. rr_owner (snd e) = owner \<and> has_ends g e"]
      by (simp add: count_of_def)
    have "length (filter (\<lambda>e. rr_owner (snd e) = owner \<and> has_ends g e) (List.map_filter rel_entry xs)) =
        length (filter (\<lambda>x. (fst x = owner \<and> supported x) \<and> resolved g x) xs)" for xs
      by (induction xs) (auto simp: map_filter_def entry_resolved dest: rel_entry_supported entry_owner_pair)
    then have "(count_of (rp_expected p) owner \<le> count_of pr owner) \<longleftrightarrow>
        (\<forall>x \<in> set rels. fst x = owner \<and> supported x \<longrightarrow> resolved g x)"
      unfolding plan(3) got by (simp only: length_filter_le_iff)
    moreover have "map_of complete owner = map_option (\<lambda>n. n \<le> count_of pr owner) (map_of (rp_expected p) owner)"
      unfolding complete by (rule map_of_keyed)
    moreover have "(map_of (rp_expected p) owner = None) = (\<not> (\<exists>x \<in> set rels. fst x = owner \<and> supported x))"
      unfolding plan(5) [symmetric] by (simp add: map_of_eq_None_iff)
    ultimately show ?thesis by (auto simp: count_of_def split: option.splits)
  qed
qed

end
