(* ===== verification/BatchContract.thy ===== *)
theory BatchContract
  imports Relations
begin

text \<open>
  What every batch projection promises the flusher, as the locale \<open>batch_enricher\<close>: one flag per
  record, every record counted once, and the territory of the service. Interpreted on the four
  batch projections.
\<close>

section \<open>The entity batch\<close>

lemma run_entity_batch_Inr:
  assumes "run_entity_batch E now l fs k build extra rel records (st, g) = Inr (outs, st', g')"
  obtains rows written where "entity_rows E k build extra records = Inr rows"
    "gated_write_batch E l fs now rows g = (written, g')"
    "outs = map (record_outcome_of k rel (last_index k records) written) (enumerate 0 records)"
    "st' = count_batch outs written st"
proof -
  from assms obtain rows where rows: "entity_rows E k build extra records = Inr rows"
    by (auto simp: run_entity_batch_def res_simps)
  obtain written g1 where "gated_write_batch E l fs now rows g = (written, g1)" by fastforce
  with assms rows that [OF rows, of written] show ?thesis
    by (auto simp: run_entity_batch_def Let_def)
qed

lemma gated_write_row_snd:
  "snd (gated_write_row E l fs now r (w, g)) = snd (gated_write E l fs (e_id r) (e_row r) (e_hash r) now g)"
  by (simp add: gated_write_row_def split: prod.split option.split)

lemma graph_frame_batch:
  assumes "gated_write_batch E l fs now rows g = (w', g')" and "\<forall>(p, k) \<in> set fs. owned_prop p"
  shows "graph_frame g g'"
proof -
  have "graph_frame g (snd (fold (gated_write_row E l fs now) rows (w, g)))" for w
  proof (induction rows arbitrary: w g)
    case (Cons r rows)
    obtain w1 g1 where one: "gated_write_row E l fs now r (w, g) = (w1, g1)" by fastforce
    then have "g1 = snd (gated_write E l fs (e_id r) (e_row r) (e_hash r) now g)"
      by (metis gated_write_row_snd snd_conv)
    then have "graph_frame g g1"
      using graph_frame_gated_write [OF _ assms(2)] by (metis prod.collapse)
    then show ?case using Cons.IH [of g1 w1] one by (auto intro: graph_frame_trans)
  qed simp
  from this [of "[]"] show ?thesis using assms(1) by (simp add: gated_write_batch_def)
qed

lemma batch_nodes:
  assumes "gated_write_batch E l fs now rows g = (w', g')" and "clean_fields fs"
  shows "(nodes g' key = None) = (nodes g key = None)"
    and "nodes g key = Some n \<Longrightarrow> nodes g' key = Some n' \<Longrightarrow> p \<noteq> ''mb_updated_at'' \<Longrightarrow> p \<noteq> ''mb_hash'' \<Longrightarrow>
      p \<notin> fst ` set fs \<Longrightarrow> n' p = n p"
    and "arels g' = arels g" and "issued g' = issued g" and "other_rels g' = other_rels g"
    and "mediums g' = mediums g"
proof -
  have g': "g' = write_nodes E fs now l (\<lambda>d. map (\<lambda>r. (e_row r, e_hash r)) (filter (\<lambda>r. e_id r = d) rows)) g"
    using gated_write_batch_graph [of E l fs now rows "[]" g] assms(1) by (simp add: gated_write_batch_def)
  show "(nodes g' key = None) = (nodes g key = None)" unfolding g' by (rule write_nodes_exists)
  show "n' p = n p" if "nodes g key = Some n" "nodes g' key = Some n'" "p \<noteq> ''mb_updated_at''" "p \<noteq> ''mb_hash''"
    "p \<notin> fst ` set fs"
    using that node_writes_frame [OF assms(2) that(3-5)] unfolding g'
    by (auto simp: write_nodes_def split: if_splits)
  show "arels g' = arels g" "issued g' = issued g" "other_rels g' = other_rels g" "mediums g' = mediums g"
    by (simp_all add: g' write_nodes_frame)
qed

lemma handled_count_batch: "handled (count_batch outs written st) = handled st + int (length outs)"
  by (simp add: handled_def count_batch_def Let_def)

lemma enriched_count_batch:
  "entities_enriched (count_batch outs written st) = entities_enriched st + int (length (filter id (map o_matched outs)))"
  by (simp add: count_batch_def Let_def filter_map comp_def)

lemma run_entity_batch_contract:
  assumes "run_entity_batch E now l fs k build extra rel records (st, g) = Inr (outs, st', g')"
    and "\<forall>(p, k) \<in> set fs. owned_prop p"
  shows "length outs = length records" and "handled st' = handled st + int (length records)"
    and "graph_frame g g'"
    and "entities_enriched st' = entities_enriched st + int (length (filter id (map o_matched outs)))"
  using assms(1)
  by (auto elim!: run_entity_batch_Inr simp: handled_count_batch enriched_count_batch intro: graph_frame_batch [OF _ assms(2)])

section \<open>The contract\<close>

locale batch_enricher =
  fixes enrich_batch :: "obj list \<Rightarrow> tx_state \<Rightarrow> (bool list \<times> tx_state) res"
  assumes flags: "enrich_batch records (st, g) = Inr (flags, st', g') \<Longrightarrow> length flags = length records"
    and counts: "enrich_batch records (st, g) = Inr (flags, st', g') \<Longrightarrow>
      handled st' = handled st + int (length records)"
    and enriched: "enrich_batch records (st, g) = Inr (flags, st', g') \<Longrightarrow>
      entities_enriched st' = entities_enriched st + int (length (filter id flags))"
    and frames: "enrich_batch records (st, g) = Inr (flags, st', g') \<Longrightarrow> graph_frame g g'"
begin

lemma nothing_foreign_touched:
  assumes "enrich_batch records (st, g) = Inr (flags, st', g')"
  shows "s \<noteq> Some MEDIA_SOURCE \<Longrightarrow> issued_view g' (r, m, s) = issued_view g (r, m, s)"
    and "edge_set g \<subseteq> edge_set g'" and "wf_graph g \<Longrightarrow> wf_graph g'"
  using frames [OF assms] unfolding graph_frame_def by auto

end

interpretation labels_batch: batch_enricher "enrich_labels_batch E now" for E now
proof
  fix records st g flags st' g'
  assume "enrich_labels_batch E now records (st, g) = Inr (flags, st', g')"
  then obtain outs where "run_entity_batch E now Label LABEL_FIELDS ''discogs_label_id'' label_row (\<lambda>_. Inr JNull)
      False records (st, g) = Inr (outs, st', g')" and "flags = map o_matched outs"
    by (auto simp: enrich_labels_batch_def res_simps)
  with run_entity_batch_contract [OF this(1) owned_fields(2)]
  show "length flags = length records" "handled st' = handled st + int (length records)" "graph_frame g g'"
    "entities_enriched st' = entities_enriched st + int (length (filter id flags))"
    by (simp_all add: \<open>flags = _\<close>)
qed

interpretation release_groups_batch: batch_enricher "enrich_release_groups_batch E now" for E now
proof
  fix records st g flags st' g'
  assume "enrich_release_groups_batch E now records (st, g) = Inr (flags, st', g')"
  then obtain outs where "run_entity_batch E now Master RELEASE_GROUP_FIELDS ''discogs_master_id'' release_group_row
      (\<lambda>_. Inr JNull) False records (st, g) = Inr (outs, st', g')" and "flags = map o_matched outs"
    by (auto simp: enrich_release_groups_batch_def res_simps)
  with run_entity_batch_contract [OF this(1) owned_fields(4)]
  show "length flags = length records" "handled st' = handled st + int (length records)" "graph_frame g g'"
    "entities_enriched st' = entities_enriched st + int (length (filter id flags))"
    by (simp_all add: \<open>flags = _\<close>)
qed

section \<open>Artists\<close>

text \<open>
  What the collecting loop establishes: every digest belongs to a matched record of that artist
  whose relations are all among the collected ones.
\<close>

definition collected ::
    "env \<Rightarrow> obj list \<Rightarrow> (string \<times> json) list \<times> (string \<times> string) list \<Rightarrow> bool" where
  "collected E records acc \<longleftrightarrow> (\<forall>(owner, d) \<in> set (snd acc). \<exists>r \<in> set records.
     record_id ''discogs_artist_id'' r = Some owner \<and>
     d = payload_hash E [py_or (dget r ''relations'') (JArr [])] \<and>
     Pair owner ` set (record_relations r) \<subseteq> set (fst acc))"

lemma set_update_subset: "set (AList.update k v d) \<subseteq> insert (k, v) (set d)"
  by (induction d) auto

lemma matched_has_id:
  "o_matched (record_outcome_of k rel li written (i, r)) \<Longrightarrow> record_id k r = Some (py_str (dget r k))"
  by (auto simp: record_outcome_of_def record_id_def Let_def split: if_splits)

lemma collected_step:
  assumes "collect_relations E records (i, r, out) acc = Inr acc'" and "collected E records acc"
    and "r \<in> set records" and "o_matched out \<Longrightarrow> record_id ''discogs_artist_id'' r = Some (py_str (dget r ''discogs_artist_id''))"
  shows "collected E records acc'"
proof (cases "acc' = acc")
  case False
  obtain relations digests where acc: "acc = (relations, digests)" by fastforce
  let ?owner = "py_str (dget r ''discogs_artist_id'')" and ?rr = "py_or (dget r ''relations'') (JArr [])"
  from False assms(1) acc obtain rels where rels: "py_iter ?rr = Inr rels" "o_matched out"
    and acc': "acc' = (relations @ map (Pair ?owner) rels, AList.update ?owner (payload_hash E [?rr]) digests)"
    by (auto simp: collect_relations_def Let_def res_simps split: if_splits)
  have rr: "record_relations r = rels" using rels(1) by (simp add: record_relations_def)
  show ?thesis
    unfolding collected_def
  proof (rule ballI, clarify)
    fix owner d assume "(owner, d) \<in> set (snd acc')"
    then have "(owner, d) = (?owner, payload_hash E [?rr]) \<or> (owner, d) \<in> set digests"
      unfolding acc' using set_update_subset by fastforce
    then show "\<exists>r \<in> set records. record_id ''discogs_artist_id'' r = Some owner \<and>
       d = payload_hash E [py_or (dget r ''relations'') (JArr [])] \<and>
       Pair owner ` set (record_relations r) \<subseteq> set (fst acc')"
    proof
      assume "(owner, d) = (?owner, payload_hash E [?rr])"
      with assms(3,4) rels(2) show ?thesis
        by (intro bexI [of _ r] conjI) (simp_all only: rr acc' fst_conv prod.inject set_append set_map Un_upper2 simp_thms)
    next
      assume "(owner, d) \<in> set digests"
      with assms(2) obtain r' where "r' \<in> set records" "record_id ''discogs_artist_id'' r' = Some owner"
        "d = payload_hash E [py_or (dget r' ''relations'') (JArr [])]"
        "Pair owner ` set (record_relations r') \<subseteq> set relations"
        unfolding collected_def acc by auto
      then show ?thesis
        by (intro bexI [of _ r'] conjI) (auto simp: acc')
    qed
  qed
qed (use assms(2) in simp)

lemma store_relations_hash_frame:
  "nodes (store_relations_hash x g) key = (if key = (Artist, fst x)
     then map_option (set_prop ''mb_relations_hash'' (JStr (snd x))) (nodes g key) else nodes g key)"
  "edge_set (store_relations_hash x g) = edge_set g"
  by (simp_all add: store_relations_hash_def nodes_upd_node edge_set_def frame_simps)

lemma graph_frame_store: "graph_frame g (fold store_relations_hash xs g)"
proof (induction xs arbitrary: g)
  case (Cons x xs)
  have "graph_frame g (store_relations_hash x g)"
    unfolding store_relations_hash_def
  proof (rule graph_frame_upd_node)
    fix n p assume "\<not> owned_prop p"
    then have "p \<noteq> ''mb_relations_hash''" by (auto simp: owned_prop_def)
    then show "set_prop ''mb_relations_hash'' (JStr (snd x)) n p = n p" by simp
  qed
  with Cons.IH [of "store_relations_hash x g"] show ?case by (auto intro: graph_frame_trans)
qed simp

lemma edge_set_store [simp]: "edge_set (fold store_relations_hash xs g) = edge_set g"
  by (induction xs arbitrary: g) (simp_all add: store_relations_hash_frame)

text \<open>The digest an artist node carries after the storing statement.\<close>

lemma stored_digest:
  assumes "nodes (fold store_relations_hash xs g) (Artist, d) = Some n'"
  obtains n where "nodes g (Artist, d) = Some n"
    "n' ''mb_relations_hash'' = n ''mb_relations_hash'' \<or> (\<exists>h. (d, h) \<in> set xs \<and> n' ''mb_relations_hash'' = Some (JStr h))"
  using assms
proof (induction xs arbitrary: g thesis)
  case (Cons x xs)
  obtain n1 where n1: "nodes (store_relations_hash x g) (Artist, d) = Some n1"
    "n' ''mb_relations_hash'' = n1 ''mb_relations_hash'' \<or> (\<exists>h. (d, h) \<in> set xs \<and> n' ''mb_relations_hash'' = Some (JStr h))"
    using Cons.IH [of "store_relations_hash x g"] Cons.prems(2) by auto
  from n1(1) obtain n where "nodes g (Artist, d) = Some n"
    "n1 = (if d = fst x then set_prop ''mb_relations_hash'' (JStr (snd x)) n else n)"
    by (auto simp: store_relations_hash_frame split: if_splits)
  with n1(2) Cons.prems(1) show ?case by (cases x) (auto split: if_splits)
qed auto

lemma enrich_artists_batch_Inr:
  assumes "enrich_artists_batch E now records (st, g) = Inr (flags, st', g')"
  obtains outs st1 g1 relations digests where
    "run_entity_batch E now Artist ARTIST_FIELDS ''discogs_artist_id'' artist_row
       (\<lambda>record. Inr (py_or (dget record ''relations'') (JArr []))) True records (st, g) = Inr (outs, st1, g1)"
    "rfold (collect_relations E records) (enumerate 0 (zip records outs)) ([], []) = Inr (relations, digests)"
    "flags = map o_matched outs"
    "digests = [] \<and> st' = st1 \<and> g' = g1 \<or>
     (\<exists>complete st2 g2. create_relationship_edges_batch relations (st1, g1) = Inr (complete, st2, g2) \<and>
        st' = st2 \<and> g' = fold store_relations_hash
          (filter (\<lambda>x. case map_of complete (fst x) of None \<Rightarrow> True | Some b \<Rightarrow> b) digests) g2)"
proof -
  from assms obtain x where
    run: "run_entity_batch E now Artist ARTIST_FIELDS ''discogs_artist_id'' artist_row
       (\<lambda>record. Inr (py_or (dget record ''relations'') (JArr []))) True records (st, g) = Inr x"
    unfolding enrich_artists_batch_def rbind_Inr_iff by blast
  obtain outs st1 g1 where [simp]: "x = (outs, st1, g1)" by (metis prod_cases3)
  from assms run obtain acc where
    col: "rfold (collect_relations E records) (enumerate 0 (zip records outs)) ([], []) = Inr acc"
    by (auto simp: enrich_artists_batch_def res_simps)
  obtain relations digests where [simp]: "acc = (relations, digests)" by fastforce
  show ?thesis
  proof (cases "digests = []")
    case True
    with assms run col that [of outs st1 g1 relations digests] show ?thesis
      by (simp add: enrich_artists_batch_def)
  next
    case False
    with assms run col that [of outs st1 g1 relations digests] show ?thesis
      by (auto simp: enrich_artists_batch_def res_simps Let_def)
  qed
qed

lemma collected_all:
  assumes "run_entity_batch E now Artist ARTIST_FIELDS ''discogs_artist_id'' artist_row x rel records (st, g) = Inr (outs, st1, g1)"
    and "rfold (collect_relations E records) (enumerate 0 (zip records outs)) ([], []) = Inr acc"
  shows "collected E records acc"
proof (rule rfold_invariant [OF _ _ assms(2)])
  show "collected E records ([], [])" by (simp add: collected_def)
next
  fix y acc acc' assume y: "y \<in> set (enumerate 0 (zip records outs))" and "collected E records acc"
    and step: "collect_relations E records y acc = Inr acc'"
  obtain i r out where [simp]: "y = (i, r, out)" by (metis prod_cases3)
  obtain written where outs: "outs = map (record_outcome_of ''discogs_artist_id'' rel (last_index ''discogs_artist_id'' records) written) (enumerate 0 records)"
    using assms(1) by (elim run_entity_batch_Inr)
  from y have i: "i < length records" "r = records ! i" "out = outs ! i"
    by (auto simp: in_set_enumerate_eq outs)
  then have "r \<in> set records" by simp
  moreover have "o_matched out \<Longrightarrow> record_id ''discogs_artist_id'' r = Some (py_str (dget r ''discogs_artist_id''))"
    using i by (auto simp: outs nth_enumerate_eq intro: matched_has_id)
  ultimately show "collected E records acc'"
    using collected_step step \<open>collected E records acc\<close> by simp
qed

lemma entities_edge_types:
  "handled (fst (snd (fold project_edge_type d (pr, s)))) = handled (fst s) \<and>
   entities_enriched (fst (snd (fold project_edge_type d (pr, s)))) = entities_enriched (fst s)"
proof (induction d arbitrary: pr s)
  case (Cons x d)
  obtain t rows st g where xs: "x = (t, rows)" "s = (st, g)" by fastforce
  obtain pr1 st1 g1 where one: "project_edge_type x (pr, s) = (pr1, st1, g1)" by (metis prod_cases3)
  then have "handled st1 = handled (fst s) \<and> entities_enriched st1 = entities_enriched (fst s)"
    by (auto simp: xs project_edge_type_def Let_def handled_def split: prod.splits)
  with Cons.IH [of pr1 "(st1, g1)"] one show ?case by simp
qed simp

lemma handled_relationships_batch:
  assumes "create_relationship_edges_batch rels (st, g) = Inr (complete, st', g')"
  shows "handled st' = handled st" and "entities_enriched st' = entities_enriched st"
proof -
  obtain p where "plan_relations rels = Inr p"
    using assms by (auto simp: create_relationship_edges_batch_def res_simps)
  with assms have "st' = fst (snd (fold project_edge_type (rp_by_type p) ([],
      st\<lparr>relationships_skipped_missing_side := relationships_skipped_missing_side st + int (rp_missing p)\<rparr>, g)))"
    by (simp add: create_relationship_edges_batch_def Let_def split: prod.splits)
  then show "handled st' = handled st" "entities_enriched st' = entities_enriched st"
    by (simp_all add: entities_edge_types) (simp add: handled_def)
qed

interpretation artists_batch: batch_enricher "enrich_artists_batch E now" for E now
proof
  fix records st g flags st' g'
  assume run: "enrich_artists_batch E now records (st, g) = Inr (flags, st', g')"
  obtain outs st1 g1 relations digests where
    ent: "run_entity_batch E now Artist ARTIST_FIELDS ''discogs_artist_id'' artist_row
       (\<lambda>record. Inr (py_or (dget record ''relations'') (JArr []))) True records (st, g) = Inr (outs, st1, g1)"
    and "flags = map o_matched outs"
    and rels: "digests = [] \<and> st' = st1 \<and> g' = g1 \<or>
     (\<exists>complete st2 g2. create_relationship_edges_batch relations (st1, g1) = Inr (complete, st2, g2) \<and>
        st' = st2 \<and> g' = fold store_relations_hash
          (filter (\<lambda>x. case map_of complete (fst x) of None \<Rightarrow> True | Some b \<Rightarrow> b) digests) g2)"
    using run by (elim enrich_artists_batch_Inr)
  note entity = run_entity_batch_contract [OF ent owned_fields(1)]
  then show "length flags = length records" by (simp add: \<open>flags = _\<close>)
  show "handled st' = handled st + int (length records)"
    using rels entity(2) by (auto dest: handled_relationships_batch(1))
  show "entities_enriched st' = entities_enriched st + int (length (filter id flags))"
    using rels entity(4) by (auto simp: \<open>flags = _\<close> dest: handled_relationships_batch(2))
  show "graph_frame g g'"
    using rels
  proof (elim disjE exE conjE)
    fix complete st2 g2
    assume "create_relationship_edges_batch relations (st1, g1) = Inr (complete, st2, g2)"
    then have "graph_frame g1 g2" by (rule create_relationship_edges_batch_run(3))
    moreover assume "g' = fold store_relations_hash
          (filter (\<lambda>x. case map_of complete (fst x) of None \<Rightarrow> True | Some b \<Rightarrow> b) digests) g2"
    ultimately show ?thesis using entity(3) graph_frame_store graph_frame_trans by blast
  qed (use entity(3) in simp)
qed

text \<open>The relations digest is stored only for a relation set that is in the graph.\<close>

lemma simple_rels_cong: "arels g = arels g' \<Longrightarrow> simple_rels g = simple_rels g'"
  by (simp add: simple_rels_def rel_count_def)

lemma stored_relations_projected:
  assumes run: "enrich_artists_batch E now records (st, g) = Inr (flags, st', g')"
    and simple: "simple_rels g" and node: "nodes g' (Artist, d) = Some n'"
  shows "(\<exists>n. nodes g (Artist, d) = Some n \<and> n' ''mb_relations_hash'' = n ''mb_relations_hash'') \<or>
    (\<exists>r \<in> set records. record_id ''discogs_artist_id'' r = Some d \<and>
       n' ''mb_relations_hash'' = Some (JStr (payload_hash E [py_or (dget r ''relations'') (JArr [])])) \<and>
       (\<forall>x \<in> set (record_relations r). relation_type x \<noteq> None \<longrightarrow>
          (\<exists>k. relation_key d x = Some k \<and> k \<in> edge_set g')))"
proof -
  let ?p = "''mb_relations_hash''"
  obtain outs st1 g1 relations digests where
    ent: "run_entity_batch E now Artist ARTIST_FIELDS ''discogs_artist_id'' artist_row
       (\<lambda>record. Inr (py_or (dget record ''relations'') (JArr []))) True records (st, g) = Inr (outs, st1, g1)"
    and col: "rfold (collect_relations E records) (enumerate 0 (zip records outs)) ([], []) = Inr (relations, digests)"
    and rels: "digests = [] \<and> st' = st1 \<and> g' = g1 \<or>
     (\<exists>complete st2 g2. create_relationship_edges_batch relations (st1, g1) = Inr (complete, st2, g2) \<and>
        st' = st2 \<and> g' = fold store_relations_hash
          (filter (\<lambda>x. case map_of complete (fst x) of None \<Rightarrow> True | Some b \<Rightarrow> b) digests) g2)"
    using run by (elim enrich_artists_batch_Inr)
  from ent obtain rows written where gb: "gated_write_batch E Artist ARTIST_FIELDS now rows g = (written, g1)"
    by (elim run_entity_batch_Inr)
  note entity = batch_nodes [OF gb clean_entity_fields(1)]
  have keep: "\<exists>n. nodes g (Artist, d) = Some n \<and> n1 ?p = n ?p" if "nodes g1 (Artist, d) = Some n1" for n1
  proof -
    from that entity(1) [of "(Artist, d)"] obtain n where "nodes g (Artist, d) = Some n" by fastforce
    with that entity(2) [of "(Artist, d)" n n1 ?p] show ?thesis by (simp add: ARTIST_FIELDS_def)
  qed
  from rels show ?thesis
  proof (elim disjE exE conjE)
    assume "g' = g1"
    with node keep show ?thesis by blast
  next
    fix complete st2 g2
    let ?done = "filter (\<lambda>x. case map_of complete (fst x) of None \<Rightarrow> True | Some b \<Rightarrow> b) digests"
    assume cre: "create_relationship_edges_batch relations (st1, g1) = Inr (complete, st2, g2)"
      and g': "g' = fold store_relations_hash ?done g2"
    note batch = create_relationship_edges_batch_run [OF cre]
    have simple1: "simple_rels g1" using simple simple_rels_cong [OF entity(3)] by simp
    from stored_digest [OF node [unfolded g']] obtain n2 where n2: "nodes g2 (Artist, d) = Some n2"
      and new: "n' ?p = n2 ?p \<or> (\<exists>h. (d, h) \<in> set ?done \<and> n' ?p = Some (JStr h))" by blast
    from new show ?thesis
    proof
      assume "n' ?p = n2 ?p"
      with n2 batch(2) keep show ?thesis by metis
    next
      assume "\<exists>h. (d, h) \<in> set ?done \<and> n' ?p = Some (JStr h)"
      then obtain h where h: "(d, h) \<in> set digests" "case map_of complete d of None \<Rightarrow> True | Some b \<Rightarrow> b"
        "n' ?p = Some (JStr h)" by auto
      from h(1) collected_all [OF ent col] obtain r where r: "r \<in> set records"
        "record_id ''discogs_artist_id'' r = Some d" "h = payload_hash E [py_or (dget r ''relations'') (JArr [])]"
        and sub: "Pair d ` set (record_relations r) \<subseteq> set relations"
        unfolding collected_def by fastforce
      have "\<exists>k. relation_key d x = Some k \<and> k \<in> edge_set g'"
        if x: "x \<in> set (record_relations r)" "relation_type x \<noteq> None" for x
      proof -
        have in_rels: "(d, x) \<in> set relations" and sup: "supported (d, x)"
          using sub x by (auto simp: supported_def)
        then have "map_of complete d = Some (\<forall>y \<in> set relations. fst y = d \<longrightarrow> supported y \<longrightarrow> resolved g1 y)"
          unfolding batch(7) [OF simple1] by force
        with h(2) in_rels sup have "resolved g1 (d, x)" by force
        then obtain t a b where k: "relation_key d x = Some (t, a, b)" "artist_exists g1 a" "artist_exists g1 b"
          by (auto simp: resolved_def split: option.splits)
        with in_rels have "(t, a, b) \<in> relation_edges g1 relations" by (auto simp: relation_edges_def)
        with k(1) batch(4) show ?thesis by (simp add: g')
      qed
      with r h(3) show ?thesis by blast
    qed
  qed
qed

section \<open>Releases\<close>

text \<open>What the collecting loop establishes about summaries and edges.\<close>

definition media_acc_ok :: "media_acc \<Rightarrow> bool" where
  "media_acc_ok acc \<longleftrightarrow> distinct (map fst (fst acc)) \<and> distinct (map fst (snd acc)) \<and>
     (\<forall>k. case map_of (fst acc) k of None \<Rightarrow> map_of (snd acc) k = None
       | Some s \<Rightarrow> ms_release s = k \<and>
           (\<exists>rows. map_of (snd acc) k = Some (map (Pair k) rows) \<and> ms_medium_ids s = map er_medium rows \<and>
              distinct (map er_medium rows)))"

lemma media_acc_ok_at:
  assumes "media_acc_ok (S, Ed)"
  shows "map_of S k = None \<Longrightarrow> map_of Ed k = None"
    and "map_of S k = Some s \<Longrightarrow> ms_release s = k \<and>
      (\<exists>rows. map_of Ed k = Some (map (Pair k) rows) \<and> ms_medium_ids s = map er_medium rows \<and> distinct (map er_medium rows))"
proof -
  from assms have at: "case map_of S k of None \<Rightarrow> map_of Ed k = None
       | Some s \<Rightarrow> ms_release s = k \<and>
           (\<exists>rows. map_of Ed k = Some (map (Pair k) rows) \<and> ms_medium_ids s = map er_medium rows \<and>
              distinct (map er_medium rows))"
    unfolding media_acc_ok_def fst_conv snd_conv by blast
  show "map_of S k = None \<Longrightarrow> map_of Ed k = None" using at by simp
  show "map_of S k = Some s \<Longrightarrow> ms_release s = k \<and>
      (\<exists>rows. map_of Ed k = Some (map (Pair k) rows) \<and> ms_medium_ids s = map er_medium rows \<and> distinct (map er_medium rows))"
    using at by simp
qed

lemma collect_media_Inr:
  assumes "collect_media E (r, out) (S, Ed) = Inr acc'"
  obtains "\<not> o_changed out \<or> release_media_block E r = None" "acc' = (S, Ed)"
  | media rows items where "o_changed out" "release_media_block E r = Some media"
      "media_edge_rows E media = Inr rows" "media_items media = Inr items"
      "acc' = (AList.update (py_str (dget r ''discogs_release_id''))
                 (media_plan (py_str (dget r ''discogs_release_id'')) (families_of E media) items rows) S,
               AList.update (py_str (dget r ''discogs_release_id''))
                 (map (Pair (py_str (dget r ''discogs_release_id''))) rows) Ed)"
proof (cases "o_changed out \<and> release_media_block E r \<noteq> None")
  case False
  with assms that(1) show ?thesis by (auto simp: collect_media_def split: option.splits)
next
  case True
  then obtain media where media: "o_changed out" "release_media_block E r = Some media" by auto
  with assms obtain rows items where rows: "media_edge_rows E media = Inr rows" "media_items media = Inr items"
    by (auto simp: collect_media_def Let_def res_simps)
  from assms media rows that(2) [OF media rows] show ?thesis
    by (simp add: collect_media_def media_plan_def Let_def)
qed

lemma collect_media_ok:
  assumes "collect_media E x acc = Inr acc'" and ok: "media_acc_ok acc"
  shows "media_acc_ok acc'"
proof -
  obtain r out S Ed where [simp]: "x = (r, out)" "acc = (S, Ed)" by fastforce
  from assms(1) have "collect_media E (r, out) (S, Ed) = Inr acc'" by simp
  then show ?thesis
  proof (cases rule: collect_media_Inr)
    case (2 media rows items)
    have "distinct (map er_medium rows)" by (rule media_edge_rows_distinct [OF 2(3)])
    let ?d = "py_str (dget r ''discogs_release_id'')"
    have okSE: "media_acc_ok (S, Ed)" using ok by simp
    show ?thesis
      unfolding media_acc_ok_def 2(5) fst_conv snd_conv
    proof (intro conjI allI distinct_update)
      show "distinct (map fst S)" "distinct (map fst Ed)" using okSE by (simp_all add: media_acc_ok_def)
      fix k
      show "case map_of (AList.update ?d (media_plan ?d (families_of E media) items rows) S) k of
          None \<Rightarrow> map_of (AList.update ?d (map (Pair ?d) rows) Ed) k = None
        | Some s \<Rightarrow> ms_release s = k \<and> (\<exists>rows'. map_of (AList.update ?d (map (Pair ?d) rows) Ed) k = Some (map (Pair k) rows') \<and>
            ms_medium_ids s = map er_medium rows' \<and> distinct (map er_medium rows'))"
      proof (cases "k = ?d")
        case True
        with \<open>distinct (map er_medium rows)\<close> show ?thesis by (auto simp: update_conv media_plan_def)
      next
        case False
        then show ?thesis
          using media_acc_ok_at [OF okSE, of k] by (cases "map_of S k") (simp_all add: update_conv)
      qed
    qed
  qed (use ok in simp)
qed

lemma distinct_flat_keys:
  assumes "distinct (map fst d)" and "\<And>k xs. (k, xs) \<in> set d \<Longrightarrow> \<exists>rows. xs = map (Pair k) rows \<and> distinct (map er_medium rows)"
  shows "distinct (map (\<lambda>(r, row). (r, er_medium row)) (concat (map snd d)))"
  using assms
proof (induction d)
  case (Cons x d)
  obtain k rows where x: "x = (k, map (Pair k) rows)" and rows: "distinct (map er_medium rows)"
    using Cons.prems(2) [of "fst x" "snd x"] by (metis list.set_intros(1) prod.collapse)
  let ?key = "\<lambda>(r, row). (r, er_medium row)"
  have head: "map ?key (map (Pair k) rows) = map (Pair k) (map er_medium rows)"
    by simp
  have "distinct (map (Pair k) (map er_medium rows))"
    using rows by (simp only: distinct_map) (simp add: inj_on_def)
  moreover have "distinct (map ?key (concat (map snd d)))"
    using Cons by auto
  moreover have other: "fst y \<noteq> k" if "y \<in> set (concat (map snd d))" for y
  proof -
    from that obtain k' xs where k': "(k', xs) \<in> set d" "y \<in> set xs" by auto
    with Cons.prems(2) [of k' xs] have "fst y = k'" by auto
    moreover have "k' \<noteq> k" using Cons.prems(1) k'(1) by (force simp: x)
    ultimately show ?thesis by simp
  qed
  have "set (map (Pair k) (map er_medium rows)) \<inter> set (map ?key (concat (map snd d))) = {}"
    using other by force
  ultimately show ?case
    by (simp only: x list.map snd_conv concat.simps map_append distinct_append head simp_thms)
qed simp

lemma media_plan_simps [simp]:
  "ms_release (media_plan r f i rows) = r" "ms_medium_ids (media_plan r f i rows) = map er_medium rows"
  "ms_families (media_plan r f i rows) = f" "ms_count (media_plan r f i rows) = int (length i)"
  by (simp_all add: media_plan_def)

text \<open>The collected plan is good.\<close>

lemma media_acc_edges:
  assumes "media_acc_ok (S, Ed)" and "(k, xs) \<in> set Ed"
  obtains rows s where "xs = map (Pair k) rows" "distinct (map er_medium rows)"
    "map_of S k = Some s" "ms_release s = k" "ms_medium_ids s = map er_medium rows"
proof -
  from assms have Edk: "map_of Ed k = Some xs" by (simp add: media_acc_ok_def)
  show ?thesis
  proof (cases "map_of S k")
    case None
    with media_acc_ok_at(1) [OF assms(1)] Edk show ?thesis by simp
  next
    case (Some s)
    with media_acc_ok_at(2) [OF assms(1) this] Edk obtain rows where "xs = map (Pair k) rows"
      "distinct (map er_medium rows)" "ms_release s = k" "ms_medium_ids s = map er_medium rows" by auto
    with that Some show ?thesis by blast
  qed
qed

lemma set_items_flat: "set (items_flat Ed) = {x. \<exists>k xs. (k, xs) \<in> set Ed \<and> x \<in> set xs}"
  by (auto simp: items_flat_def dvalues_def) blast

lemma items_flat_at:
  assumes ok: "media_acc_ok (S, Ed)" and Edk: "map_of Ed k = Some (map (Pair k) rows)"
  shows "(k, row) \<in> set (items_flat Ed) \<longleftrightarrow> row \<in> set rows"
proof
  assume "(k, row) \<in> set (items_flat Ed)"
  then obtain k' xs where k': "(k', xs) \<in> set Ed" "(k, row) \<in> set xs" by (auto simp: set_items_flat)
  from media_acc_edges [OF ok k'(1)] obtain rows' where "xs = map (Pair k') rows'" by metis
  with k'(2) have "k' = k" by auto
  moreover have "map_of Ed k' = Some xs" using ok k'(1) by (simp add: media_acc_ok_def)
  ultimately have "xs = map (Pair k) rows" using Edk by simp
  with k'(2) show "row \<in> set rows" by auto
next
  assume "row \<in> set rows"
  then have "(k, row) \<in> set (map (Pair k) rows)" by simp
  with map_of_SomeD [OF Edk] show "(k, row) \<in> set (items_flat Ed)" unfolding set_items_flat by blast
qed

lemma good_plan_collected:
  assumes ok: "media_acc_ok (S, Ed)"
  shows "good_plan (dvalues S) (items_flat Ed)"
proof -
  have Sk: "ms_release s = k \<and> (\<exists>rows. map_of Ed k = Some (map (Pair k) rows) \<and>
      ms_medium_ids s = map er_medium rows)" if "(k, s) \<in> set S" for k s
  proof -
    have "map_of S k = Some s" using ok that by (simp add: media_acc_ok_def)
    from media_acc_ok_at(2) [OF ok this] show ?thesis by blast
  qed
  have "map ms_release (dvalues S) = map fst S"
    unfolding dvalues_def map_map by (rule map_cong) (use Sk in fastforce)+
  then have rel: "distinct (map ms_release (dvalues S))" using ok by (simp add: media_acc_ok_def)
  have "distinct (map (\<lambda>(r, row). (r, er_medium row)) (concat (dvalues Ed)))"
    unfolding dvalues_def using ok by (intro distinct_flat_keys) (auto simp: media_acc_ok_def elim: media_acc_edges [OF ok])
  then have "distinct (map (\<lambda>(r, row). (r, er_medium row)) (items_flat Ed))"
    by (simp add: items_flat_def distinct_map)
  moreover have "map fst (item_qtys xs) = map (\<lambda>(r, row). (r, er_medium row)) xs" for xs
    by (simp add: item_qtys_def case_prod_unfold comp_def)
  ultimately have items: "distinct (map fst (item_qtys (items_flat Ed)))" by metis
  have sub: "fst ` set (items_flat Ed) \<subseteq> ms_release ` set (dvalues S)"
  proof
    fix r assume "r \<in> fst ` set (items_flat Ed)"
    then obtain k xs x where k: "(k, xs) \<in> set Ed" "x \<in> set xs" "r = fst x" by (auto simp: set_items_flat)
    from media_acc_edges [OF ok k(1)] obtain s rows where s: "map_of S k = Some s" "ms_release s = k"
      and "xs = map (Pair k) rows" by metis
    with k(2,3) have "r = ms_release s" by auto
    moreover have "s \<in> set (dvalues S)"
      using imageI [OF map_of_SomeD [OF s(1)], of snd] by (simp add: dvalues_def)
    ultimately show "r \<in> ms_release ` set (dvalues S)" by (rule image_eqI)
  qed
  have "m \<in> set (ms_medium_ids s) \<longleftrightarrow> (\<exists>row. (ms_release s, row) \<in> set (items_flat Ed) \<and> er_medium row = m)"
    if "s \<in> set (dvalues S)" for s m
  proof -
    from that obtain k where "(k, s) \<in> set S" by (auto simp: dvalues_def)
    with Sk obtain rows where s: "ms_release s = k" "map_of Ed k = Some (map (Pair k) rows)" "ms_medium_ids s = map er_medium rows"
      by blast
    from items_flat_at [OF ok s(2)] s show ?thesis by auto
  qed
  with rel items sub show ?thesis by (simp add: good_plan_def)
qed

lemma collected_media_ok:
  "rfold (collect_media E) xs acc = Inr acc' \<Longrightarrow> media_acc_ok acc \<Longrightarrow> media_acc_ok acc'"
  by (induction xs arbitrary: acc) (auto simp: res_simps intro: collect_media_ok)

lemma enrich_releases_batch_Inr:
  assumes "enrich_releases_batch E now records (st, g) = Inr (flags, st', g')"
  obtains outs g1 S Ed where
    "run_entity_batch E now Release RELEASE_FIELDS ''discogs_release_id'' release_row (media_digest E) False records (st, g)
       = Inr (outs, st', g1)"
    "rfold (collect_media E) (zip records outs) ([], []) = Inr (S, Ed)" "media_acc_ok (S, Ed)"
    "flags = map o_matched outs"
    "g' = (if S = [] then g1 else apply_media (dvalues S) (items_flat Ed) g1)"
proof -
  from assms obtain x where
    run: "run_entity_batch E now Release RELEASE_FIELDS ''discogs_release_id'' release_row (media_digest E) False records (st, g) = Inr x"
    unfolding enrich_releases_batch_def rbind_Inr_iff by blast
  obtain outs st1 g1 where [simp]: "x = (outs, st1, g1)" by (metis prod_cases3)
  from assms run obtain acc where
    col: "rfold (collect_media E) (zip records outs) ([], []) = Inr acc"
    by (auto simp: enrich_releases_batch_def res_simps)
  obtain S Ed where [simp]: "acc = (S, Ed)" by fastforce
  have "media_acc_ok ([], [])" by (simp add: media_acc_ok_def)
  with col have ok: "media_acc_ok (S, Ed)" using collected_media_ok by simp
  have "release_media_edges_batch [] h = h" for h by (simp add: release_media_edges_batch_def)
  with assms run col have "flags = map o_matched outs \<and> st' = st1 \<and>
      g' = (if S = [] then g1 else apply_media (dvalues S) (items_flat Ed) g1)"
    by (auto simp: enrich_releases_batch_def Let_def apply_media_def split: if_splits)
  with that [of outs g1 S Ed] run col ok show ?thesis by simp
qed

interpretation releases_batch: batch_enricher "enrich_releases_batch E now" for E now
proof
  fix records st g flags st' g'
  assume "enrich_releases_batch E now records (st, g) = Inr (flags, st', g')"
  then obtain outs g1 S Ed where
    ent: "run_entity_batch E now Release RELEASE_FIELDS ''discogs_release_id'' release_row (media_digest E) False records (st, g)
       = Inr (outs, st', g1)"
    and ok: "media_acc_ok (S, Ed)" and flags: "flags = map o_matched outs"
    and g': "g' = (if S = [] then g1 else apply_media (dvalues S) (items_flat Ed) g1)"
    by (elim enrich_releases_batch_Inr)
  note entity = run_entity_batch_contract [OF ent owned_fields(3)]
  show "length flags = length records" "handled st' = handled st + int (length records)"
    "entities_enriched st' = entities_enriched st + int (length (filter id flags))"
    using entity by (simp_all add: flags)
  show "graph_frame g g'"
    using entity(3) graph_frame_apply_media [OF good_plan_collected [OF ok]] graph_frame_trans
    by (cases "S = []") (auto simp: g')
qed

end
