(* ===== verification/ReleaseBatch.thy ===== *)
theory ReleaseBatch
  imports BatchContract
begin

text \<open>
  A batch of releases leaves every rewritten release with exactly the media edges of its last record,
  and every other release as it was.
\<close>

section \<open>Outcomes of an entity batch\<close>

lemma entity_row_Inr:
  "entity_row E k build extra records i = Inr r \<Longrightarrow>
     e_idx r = i \<and> e_id r = py_str (dget (records ! i) k) \<and> build (records ! i) = Inr (e_row r) \<and>
     (\<exists>y. extra (records ! i) = Inr y \<and> e_hash r = payload_hash E [JObj (e_row r), y])"
  by (auto simp: entity_row_def Let_def res_simps)

lemma entity_rows_props:
  assumes "entity_rows E k build extra records = Inr rows"
  shows "map e_idx rows = sort (dvalues (last_index k records))"
    and "\<And>r. r \<in> set rows \<Longrightarrow> entity_row E k build extra records (e_idx r) = Inr r"
    and "\<And>r. r \<in> set rows \<Longrightarrow> map_of (last_index k records) (e_id r) = Some (e_idx r)"
    and "distinct (map e_idx rows)" and "distinct (map e_id rows)"
proof -
  have all2: "list_all2 (\<lambda>i r. entity_row E k build extra records i = Inr r) (sort (dvalues (last_index k records))) rows"
    using assms unfolding entity_rows_def rmap_Inr_iff .
  have idx: "e_idx r = i" "e_id r = py_str (dget (records ! i) k)"
    if "entity_row E k build extra records i = Inr r" for i r
    using that by (auto simp: entity_row_def res_simps Let_def)
  have all2_idx: "map e_idx rows = is" if "list_all2 (\<lambda>i r. entity_row E k build extra records i = Inr r) is rows" for "is"
    using that by (induction rule: list_all2_induct) (simp_all add: idx)
  show map: "map e_idx rows = sort (dvalues (last_index k records))" by (rule all2_idx [OF all2])
  show row: "entity_row E k build extra records (e_idx r) = Inr r" if "r \<in> set rows" for r
  proof -
    from that obtain j where j: "j < length rows" "r = rows ! j" by (auto simp: in_set_conv_nth)
    have "entity_row E k build extra records (sort (dvalues (last_index k records)) ! j) = Inr r"
      using list_all2_nthD2 [OF all2 j(1)] j(2) by simp
    with idx(1) [OF this] show ?thesis by simp
  qed
  show last: "map_of (last_index k records) (e_id r) = Some (e_idx r)" if "r \<in> set rows" for r
  proof -
    have "e_idx r \<in> set (map e_idx rows)" using that by simp
    then have "e_idx r \<in> set (dvalues (last_index k records))" unfolding map by simp
    then show ?thesis using index_id(3) idx(2) [OF row [OF that]] by metis
  qed
  show dist: "distinct (map e_idx rows)" unfolding map by (simp add: last_index_values_distinct)
  have "inj_on e_id (set rows)"
  proof (rule inj_onI)
    fix r r' assume "r \<in> set rows" "r' \<in> set rows" "e_id r = e_id r'"
    then have "e_idx r = e_idx r'" using last by (metis option.inject)
    with dist \<open>r \<in> set rows\<close> \<open>r' \<in> set rows\<close> show "r = r'" by (simp add: distinct_map inj_on_def)
  qed
  with dist show "distinct (map e_id rows)" by (simp add: distinct_map)
qed

definition row_result :: "env \<Rightarrow> nlabel \<Rightarrow> fields \<Rightarrow> string \<Rightarrow> graph \<Rightarrow> entity_row \<Rightarrow> (nat \<times> gate_result) list" where
  "row_result E l fs now g r = (case fst (gated_write E l fs (e_id r) (e_row r) (e_hash r) now g) of
      None \<Rightarrow> [] | Some m \<Rightarrow> [(e_idx r, m)])"

lemma map_of_row_result:
  "map_of (row_result E l fs now g a @ ys) i = (if i = e_idx a \<and> fst (gated_write E l fs (e_id a) (e_row a) (e_hash a) now g) \<noteq> None
     then fst (gated_write E l fs (e_id a) (e_row a) (e_hash a) now g) else map_of ys i)"
  by (auto simp: row_result_def map_add_def split: option.split)

lemma row_result_cong: "nodes g (l, e_id r) = nodes g' (l, e_id r) \<Longrightarrow> row_result E l fs now g r = row_result E l fs now g' r"
  by (simp add: row_result_def gated_write_def split: option.split)

lemma gated_write_batch_written:
  assumes "distinct (map e_id rows)"
  shows "fst (fold (gated_write_row E l fs now) rows (w, g)) = w @ concat (map (row_result E l fs now g) rows)"
  using assms
proof (induction rows arbitrary: w g)
  case (Cons r rows)
  obtain w1 g1 where one: "gated_write_row E l fs now r (w, g) = (w1, g1)" by fastforce
  have w1: "w1 = w @ row_result E l fs now g r"
    using one by (auto simp: gated_write_row_def row_result_def split: prod.splits option.splits)
  have g1: "g1 = snd (gated_write E l fs (e_id r) (e_row r) (e_hash r) now g)"
    using one gated_write_row_snd by (metis snd_conv)
  have "row_result E l fs now g1 x = row_result E l fs now g x" if "x \<in> set rows" for x
  proof (rule row_result_cong)
    have "e_id x \<noteq> e_id r" using Cons.prems that by (auto simp: image_iff)
    then show "nodes g1 (l, e_id x) = nodes g (l, e_id x)" by (simp add: g1 nodes_gated_write)
  qed
  then have "map (row_result E l fs now g1) rows = map (row_result E l fs now g) rows" by simp
  with Cons.IH [of w1 g1] Cons.prems one w1 show ?case by simp
qed simp

text \<open>The result row of a record's representative.\<close>

lemma written_lookup:
  assumes rows: "entity_rows E k build extra records = Inr rows"
    and gb: "gated_write_batch E l fs now rows g = (written, g')" and r: "r \<in> set rows"
  shows "map_of written (e_idx r) = fst (gated_write E l fs (e_id r) (e_row r) (e_hash r) now g)"
proof -
  note props = entity_rows_props [OF rows]
  have written: "written = concat (map (row_result E l fs now g) rows)"
    using gated_write_batch_written [OF props(5), of E l fs now "[]" g] gb by (simp add: gated_write_batch_def)
  show ?thesis
    using r props(4) unfolding written
  proof (induction rows)
    case (Cons a rows)
    have none: "map_of (concat (map (row_result E l fs now g) rows)) (e_idx a) = None" if "e_idx a \<notin> e_idx ` set rows"
      using that by (auto simp: map_of_eq_None_iff row_result_def split: option.splits)
    show ?case
    proof (cases "r = a")
      case True
      with none Cons.prems show ?thesis by (simp add: map_of_row_result del: map_of_append)
    next
      case False
      with Cons.prems have "r \<in> set rows" by simp
      then have "e_idx r \<in> e_idx ` set rows" by simp
      with Cons.prems(2) have "e_idx r \<noteq> e_idx a" by auto
      with \<open>r \<in> set rows\<close> Cons show ?thesis by (simp add: map_of_row_result del: map_of_append)
    qed
  qed simp
qed

lemma changed_outcome:
  assumes rows: "entity_rows E k build extra records = Inr rows"
    and gb: "gated_write_batch E l fs now rows g = (written, g')" and i: "i < length records"
  shows "o_changed (record_outcome_of k rel (last_index k records) written (i, records ! i)) \<longleftrightarrow>
    (\<exists>r n. r \<in> set rows \<and> e_idx r = i \<and> nodes g (l, e_id r) = Some n \<and> gate_open E (e_hash r) n)"
proof -
  note props = entity_rows_props [OF rows]
  note look = written_lookup [OF rows gb]
  show ?thesis
  proof
    assume ch: "o_changed (record_outcome_of k rel (last_index k records) written (i, records ! i))"
    then obtain d where d: "map_of (last_index k records) d = Some i" and m: "\<exists>m. map_of written i = Some m \<and> changed m"
      by (auto simp: record_outcome_of_def Let_def split: if_splits option.splits)
    then have "i \<in> set (dvalues (last_index k records))" by (auto simp: last_index_values)
    then have "i \<in> set (map e_idx rows)" unfolding props(1) by simp
    then obtain r where r: "r \<in> set rows" "e_idx r = i" by auto
    with m look [OF r(1)] show "\<exists>r n. r \<in> set rows \<and> e_idx r = i \<and> nodes g (l, e_id r) = Some n \<and> gate_open E (e_hash r) n"
      by (auto simp: gated_write_def split: option.splits)
  next
    assume "\<exists>r n. r \<in> set rows \<and> e_idx r = i \<and> nodes g (l, e_id r) = Some n \<and> gate_open E (e_hash r) n"
    then obtain r n where r: "r \<in> set rows" "e_idx r = i" "nodes g (l, e_id r) = Some n" "gate_open E (e_hash r) n"
      by blast
    have last: "map_of (last_index k records) (e_id r) = Some i" using props(3) [OF r(1)] r(2) by simp
    then have "record_id k (records ! i) = Some (e_id r)" by (simp add: last_index_Some)
    then have "dget (records ! i) k \<noteq> JNull" "py_str (dget (records ! i) k) = e_id r"
      by (auto simp: record_id_def split: if_splits)
    moreover have "\<exists>m. map_of written i = Some m \<and> changed m"
      using look [OF r(1)] r by (auto simp: gated_write_def)
    ultimately show "o_changed (record_outcome_of k rel (last_index k records) written (i, records ! i))"
      using last by (auto simp: record_outcome_of_def Let_def)
  qed
qed

section \<open>The collected plan, record by record\<close>

lemma collected_entry:
  assumes "rfold (collect_media E) xs (S0, Ed0) = Inr (S, Ed)" and "map_of S d = Some s"
  shows "map_of S0 d = Some s \<and> map_of Ed d = map_of Ed0 d \<or>
    (\<exists>(r, out) \<in> set xs. o_changed out \<and> py_str (dget r ''discogs_release_id'') = d \<and>
      (\<exists>media rows items. release_media_block E r = Some media \<and> media_edge_rows E media = Inr rows \<and>
         media_items media = Inr items \<and> s = media_plan d (families_of E media) items rows \<and>
         map_of Ed d = Some (map (Pair d) rows)))"
  using assms(1)
proof (induction xs arbitrary: S0 Ed0)
  case Nil
  then show ?case using assms(2) by simp
next
  case (Cons x xs)
  obtain r out where x: "x = (r, out)" by fastforce
  from Cons.prems obtain S1 Ed1 where one: "collect_media E (r, out) (S0, Ed0) = Inr (S1, Ed1)"
    and rest: "rfold (collect_media E) xs (S1, Ed1) = Inr (S, Ed)"
    by (auto simp: res_simps x)
  from Cons.IH [OF rest] show ?case
  proof
    assume old: "map_of S1 d = Some s \<and> map_of Ed d = map_of Ed1 d"
    from one show ?thesis
    proof (cases rule: collect_media_Inr)
      case 1
      with old show ?thesis by simp
    next
      case (2 media rows items)
      show ?thesis
      proof (cases "py_str (dget r ''discogs_release_id'') = d")
        case True
        with old 2 have "s = media_plan d (families_of E media) items rows" "map_of Ed d = Some (map (Pair d) rows)"
          by (simp_all add: update_conv)
        with 2 True x show ?thesis by auto
      next
        case False
        with old 2 show ?thesis by (simp add: update_conv)
      qed
    qed
  next
    assume "\<exists>(r, out) \<in> set xs. o_changed out \<and> py_str (dget r ''discogs_release_id'') = d \<and>
      (\<exists>media rows items. release_media_block E r = Some media \<and> media_edge_rows E media = Inr rows \<and>
         media_items media = Inr items \<and> s = media_plan d (families_of E media) items rows \<and>
         map_of Ed d = Some (map (Pair d) rows))"
    then show ?thesis by (meson list.set_intros(2))
  qed
qed

lemma collected_present:
  assumes "rfold (collect_media E) xs (S0, Ed0) = Inr (S, Ed)"
  shows "map_of S0 d \<noteq> None \<or> (\<exists>(r, out) \<in> set xs. o_changed out \<and> release_media_block E r \<noteq> None \<and>
      py_str (dget r ''discogs_release_id'') = d) \<Longrightarrow> map_of S d \<noteq> None"
  using assms
proof (induction xs arbitrary: S0 Ed0)
  case (Cons x xs)
  obtain r out where x: "x = (r, out)" by fastforce
  from Cons.prems(2) obtain S1 Ed1 where one: "collect_media E (r, out) (S0, Ed0) = Inr (S1, Ed1)"
    and rest: "rfold (collect_media E) xs (S1, Ed1) = Inr (S, Ed)"
    by (auto simp: res_simps x)
  have "map_of S1 d \<noteq> None" if "map_of S0 d \<noteq> None \<or> (o_changed out \<and> release_media_block E r \<noteq> None \<and>
      py_str (dget r ''discogs_release_id'') = d)"
    using one that by (cases rule: collect_media_Inr) (auto simp: update_conv)
  then show ?case using Cons.IH [OF _ rest] Cons.prems(1) by (auto simp: x)
qed simp

section \<open>The media of a batch\<close>

text \<open>The last record of a release, when the statement writes its node; the rows of a media block.\<close>

definition rewritten :: "env \<Rightarrow> obj list \<Rightarrow> graph \<Rightarrow> string \<Rightarrow> obj option" where
  "rewritten E records g d = (case map_of (last_index ''discogs_release_id'' records) d of
      None \<Rightarrow> None
    | Some i \<Rightarrow> (case (nodes g (Release, d), release_row (records ! i), media_digest E (records ! i)) of
        (Some n, Inr row, Inr x) \<Rightarrow> if gate_open E (payload_hash E [JObj row, x]) n then Some (records ! i) else None
      | _ \<Rightarrow> None))"

definition block_rows :: "env \<Rightarrow> obj \<Rightarrow> edge_row list" where
  "block_rows E media = (case media_edge_rows E media of Inr rows \<Rightarrow> rows | Inl _ \<Rightarrow> [])"

lemma rewritten_outcome:
  assumes rows: "entity_rows E ''discogs_release_id'' release_row (media_digest E) records = Inr rows"
  shows "rewritten E records g d = Some r \<longleftrightarrow>
    (\<exists>i x n. i < length records \<and> r = records ! i \<and> x \<in> set rows \<and> e_idx x = i \<and> e_id x = d \<and>
       nodes g (Release, d) = Some n \<and> gate_open E (e_hash x) n)"
proof -
  note props = entity_rows_props [OF rows]
  have built: "release_row (records ! e_idx x) = Inr (e_row x) \<and>
      (\<exists>y. media_digest E (records ! e_idx x) = Inr y \<and> e_hash x = payload_hash E [JObj (e_row x), y])"
    if "x \<in> set rows" for x
    using entity_row_Inr [OF props(2) [OF that]] by blast
  show ?thesis
  proof
    assume rw: "rewritten E records g d = Some r"
    then obtain i where i: "map_of (last_index ''discogs_release_id'' records) d = Some i"
      by (auto simp: rewritten_def split: option.splits)
    then have "i \<in> set (dvalues (last_index ''discogs_release_id'' records))" by (auto simp: last_index_values)
    then have "i \<in> set (map e_idx rows)" unfolding props(1) by simp
    then obtain x where x: "x \<in> set rows" "e_idx x = i" by auto
    then have "e_id x = d" using props(3) [OF x(1)] i by (metis last_index_inj)
    moreover obtain n where "nodes g (Release, d) = Some n" "gate_open E (e_hash x) n" "r = records ! i"
      using rw i built [OF x(1)] x(2) by (auto simp: rewritten_def split: option.splits if_splits)
    moreover have "i < length records" using i by (simp add: last_index_Some)
    ultimately show "\<exists>i x n. i < length records \<and> r = records ! i \<and> x \<in> set rows \<and> e_idx x = i \<and> e_id x = d \<and>
       nodes g (Release, d) = Some n \<and> gate_open E (e_hash x) n"
      using x by blast
  next
    assume "\<exists>i x n. i < length records \<and> r = records ! i \<and> x \<in> set rows \<and> e_idx x = i \<and> e_id x = d \<and>
       nodes g (Release, d) = Some n \<and> gate_open E (e_hash x) n"
    then obtain x n where x: "r = records ! e_idx x" "x \<in> set rows" "e_id x = d"
       "nodes g (Release, d) = Some n" "gate_open E (e_hash x) n" by blast
    with props(3) [OF x(2)] built [OF x(2)] show "rewritten E records g d = Some r"
      by (auto simp: rewritten_def)
  qed
qed

lemma changed_record:
  assumes ent: "run_entity_batch E now Release RELEASE_FIELDS ''discogs_release_id'' release_row (media_digest E)
      False records (st, g) = Inr (outs, st', g1)"
  shows "(\<exists>out. (r, out) \<in> set (zip records outs) \<and> o_changed out \<and> py_str (dget r ''discogs_release_id'') = d)
     \<longleftrightarrow> rewritten E records g d = Some r"
proof -
  obtain rows written where rows: "entity_rows E ''discogs_release_id'' release_row (media_digest E) records = Inr rows"
    and gb: "gated_write_batch E Release RELEASE_FIELDS now rows g = (written, g1)"
    and outs: "outs = map (record_outcome_of ''discogs_release_id'' False (last_index ''discogs_release_id'' records) written)
      (enumerate 0 records)"
    using ent by (elim run_entity_batch_Inr)
  have id: "e_id x = py_str (dget (records ! e_idx x) ''discogs_release_id'')" if "x \<in> set rows" for x
    using entity_row_Inr [OF entity_rows_props(2) [OF rows that]] by blast
  have "(\<exists>out. (r, out) \<in> set (zip records outs) \<and> o_changed out \<and> py_str (dget r ''discogs_release_id'') = d)
     \<longleftrightarrow> (\<exists>i < length records. r = records ! i \<and> o_changed (outs ! i) \<and> py_str (dget r ''discogs_release_id'') = d)"
    by (auto simp: in_set_zip outs)
  also have "\<dots> \<longleftrightarrow> (\<exists>i x n. i < length records \<and> r = records ! i \<and> x \<in> set rows \<and> e_idx x = i \<and> e_id x = d \<and>
       nodes g (Release, d) = Some n \<and> gate_open E (e_hash x) n)"
  proof -
    have ch: "o_changed (outs ! i) \<longleftrightarrow> (\<exists>x n. x \<in> set rows \<and> e_idx x = i \<and> nodes g (Release, e_id x) = Some n \<and> gate_open E (e_hash x) n)"
      if "i < length records" for i
      using changed_outcome [OF rows gb that, of False] that by (simp add: outs nth_enumerate_eq)
    show ?thesis
    proof
      assume "\<exists>i < length records. r = records ! i \<and> o_changed (outs ! i) \<and> py_str (dget r ''discogs_release_id'') = d"
      then obtain i where i: "i < length records" "r = records ! i" "o_changed (outs ! i)" "py_str (dget r ''discogs_release_id'') = d"
        by blast
      with ch obtain x n where x: "x \<in> set rows" "e_idx x = i" "nodes g (Release, e_id x) = Some n" "gate_open E (e_hash x) n"
        by blast
      with i id [OF x(1)] have "e_id x = d" by simp
      with i x show "\<exists>i x n. i < length records \<and> r = records ! i \<and> x \<in> set rows \<and> e_idx x = i \<and> e_id x = d \<and>
         nodes g (Release, d) = Some n \<and> gate_open E (e_hash x) n" by auto
    next
      assume "\<exists>i x n. i < length records \<and> r = records ! i \<and> x \<in> set rows \<and> e_idx x = i \<and> e_id x = d \<and>
         nodes g (Release, d) = Some n \<and> gate_open E (e_hash x) n"
      then obtain x n where x: "e_idx x < length records" "r = records ! e_idx x" "x \<in> set rows" "e_id x = d"
        "nodes g (Release, d) = Some n" "gate_open E (e_hash x) n" by blast
      with ch [OF x(1)] id [OF x(3)]
      show "\<exists>i < length records. r = records ! i \<and> o_changed (outs ! i) \<and> py_str (dget r ''discogs_release_id'') = d"
        by auto
    qed
  qed
  also have "\<dots> \<longleftrightarrow> rewritten E records g d = Some r" by (rule rewritten_outcome [OF rows, symmetric])
  finally show ?thesis .
qed

lemma releases_batch_media:
  assumes run: "enrich_releases_batch E now records (st, g) = Inr (flags, st', g')"
  shows "issued_view g' (d, m, s) =
    (case rewritten E records g d of
       Some r \<Rightarrow> (case release_media_block E r of
           Some media \<Rightarrow> if s = Some MEDIA_SOURCE
             then {Some (er_qty row) | row. row \<in> set (block_rows E media) \<and> er_medium row = m}
             else issued_view g (d, m, s)
         | None \<Rightarrow> issued_view g (d, m, s))
     | None \<Rightarrow> issued_view g (d, m, s))"
proof -
  obtain outs g1 S Ed where
    ent: "run_entity_batch E now Release RELEASE_FIELDS ''discogs_release_id'' release_row (media_digest E) False records (st, g)
       = Inr (outs, st', g1)"
    and col: "rfold (collect_media E) (zip records outs) ([], []) = Inr (S, Ed)"
    and ok: "media_acc_ok (S, Ed)"
    and g': "g' = (if S = [] then g1 else apply_media (dvalues S) (items_flat Ed) g1)"
    using run by (elim enrich_releases_batch_Inr)
  from ent obtain rows written where "gated_write_batch E Release RELEASE_FIELDS now rows g = (written, g1)"
    by (elim run_entity_batch_Inr)
  note base = batch_nodes [OF this clean_entity_fields(3)]
  have view1: "issued_view g1 = issued_view g" by (rule issued_view_cong) (rule base(4))
  have dom: "d \<in> ms_release ` set (dvalues S) \<longleftrightarrow> map_of S d \<noteq> None"
  proof -
    have "ms_release s = k" if "(k, s) \<in> set S" for k s
    proof -
      have "map_of S k = Some s" using ok that by (simp add: media_acc_ok_def)
      with media_acc_ok_at(2) [OF ok this] show ?thesis by simp
    qed
    then have "ms_release ` set (dvalues S) = fst ` set S" by (force simp: dvalues_def)
    then show ?thesis by (simp add: map_of_eq_None_iff)
  qed
  have view: "issued_view g' (d, m, s) =
    (if s = Some MEDIA_SOURCE \<and> map_of S d \<noteq> None \<and> nodes g (Release, d) \<noteq> None
     then {Some (er_qty row) | row. (d, row) \<in> set (items_flat Ed) \<and> er_medium row = m}
     else issued_view g (d, m, s))"
    using dom by (cases "S = []") (auto simp: g' apply_media_view [OF good_plan_collected [OF ok]] view1 base(1))
  show ?thesis
  proof (cases "map_of S d")
    case None
    have "\<not> (\<exists>r out. (r, out) \<in> set (zip records outs) \<and> o_changed out \<and> release_media_block E r \<noteq> None \<and>
        py_str (dget r ''discogs_release_id'') = d)"
      using collected_present [OF col, of d] None by blast
    then have "release_media_block E r = None" if "rewritten E records g d = Some r" for r
      using that changed_record [OF ent] by blast
    then show ?thesis using None view by (auto split: option.split)
  next
    case (Some sm)
    with collected_entry [OF col Some] obtain r out media rows items where
      r: "(r, out) \<in> set (zip records outs)" "o_changed out" "py_str (dget r ''discogs_release_id'') = d"
        "release_media_block E r = Some media" "media_edge_rows E media = Inr rows"
        "map_of Ed d = Some (map (Pair d) rows)"
      by auto
    then have rw: "rewritten E records g d = Some r" using changed_record [OF ent] by blast
    then have "nodes g (Release, d) \<noteq> None" by (auto simp: rewritten_def split: option.splits sum.splits if_splits)
    with Some r rw items_flat_at [OF ok r(6)] show ?thesis
      by (simp add: view block_rows_def)
  qed
qed

end
