(* ===== verification/Catalog.thy ===== *)
theory Catalog
  imports Json
begin

text \<open>
  The wire contract: entity and consumer names (\<^verbatim>\<open>catalog_contract.py\<close>, \<^verbatim>\<open>queue_names.py\<close>), the
  AMQP topology a consumer declares for one source stream (\<^verbatim>\<open>_queue_lifecycle.py\<close>) with the broker's
  declare semantics, and the service configuration (\<^verbatim>\<open>config.py\<close>).
\<close>

section \<open>Names\<close>

definition SOURCE :: string where "SOURCE = ''musicbrainz''"

definition AMQP_EXCHANGE_TYPE :: string where "AMQP_EXCHANGE_TYPE = ''fanout''"

definition ENTITY_TYPES :: "string list" where
  "ENTITY_TYPES = [''artists'', ''labels'', ''release-groups'', ''releases'']"

definition CONSUMERS :: "string list" where
  "CONSUMERS = [''brainzgraphinator'', ''brainztableinator'']"

definition WIRE_CONSUMER_NAME :: string where "WIRE_CONSUMER_NAME = ''brainzgraphinator''"

text \<open>The exchange prefix comes from the environment (\<open>MUSICBRAINZ_EXCHANGE_PREFIX\<close>).\<close>

definition exchange_name :: "string \<Rightarrow> string \<Rightarrow> string res" where
  "exchange_name prefix entity =
     (if entity \<notin> set ENTITY_TYPES then Inl (ValueError (''Unknown MusicBrainz entity: '' @ entity))
      else Inr (prefix @ ''-'' @ entity))"

definition queue_name :: "string \<Rightarrow> string \<Rightarrow> string \<Rightarrow> string res" where
  "queue_name prefix consumer entity =
     (if consumer \<notin> set CONSUMERS then Inl (ValueError (''Unknown MusicBrainz consumer: '' @ consumer))
      else if entity \<notin> set ENTITY_TYPES then Inl (ValueError (''Unknown MusicBrainz entity: '' @ entity))
      else Inr (prefix @ ''-'' @ consumer @ ''-'' @ entity))"

definition dead_letter_exchange_name :: "string \<Rightarrow> string \<Rightarrow> string \<Rightarrow> string res" where
  "dead_letter_exchange_name prefix consumer entity =
     rbind (queue_name prefix consumer entity) (\<lambda>q. Inr (q @ ''.dlx''))"

definition dead_letter_queue_name :: "string \<Rightarrow> string \<Rightarrow> string \<Rightarrow> string res" where
  "dead_letter_queue_name prefix consumer entity =
     rbind (queue_name prefix consumer entity) (\<lambda>q. Inr (q @ ''.dlq''))"

lemma queue_name_Inr:
  "queue_name prefix c e = Inr q \<longleftrightarrow>
     c \<in> set CONSUMERS \<and> e \<in> set ENTITY_TYPES \<and> q = prefix @ ''-'' @ c @ ''-'' @ e"
  by (auto simp: queue_name_def)

lemma exchange_name_Inr:
  "exchange_name prefix e = Inr x \<longleftrightarrow> e \<in> set ENTITY_TYPES \<and> x = prefix @ ''-'' @ e"
  by (auto simp: exchange_name_def)

lemma dead_letter_Inr:
  "dead_letter_exchange_name prefix c e = Inr x \<longleftrightarrow>
     c \<in> set CONSUMERS \<and> e \<in> set ENTITY_TYPES \<and> x = prefix @ ''-'' @ c @ ''-'' @ e @ ''.dlx''"
  "dead_letter_queue_name prefix c e = Inr y \<longleftrightarrow>
     c \<in> set CONSUMERS \<and> e \<in> set ENTITY_TYPES \<and> y = prefix @ ''-'' @ c @ ''-'' @ e @ ''.dlq''"
  by (auto simp: dead_letter_exchange_name_def dead_letter_queue_name_def res_simps queue_name_Inr)

section \<open>The broker\<close>

text \<open>
  An exchange is known by its type, a queue by its \<open>x-queue-type\<close>, dead-letter exchange and delivery
  limit; all are durable and not auto-deleted. Declaring an existing name with other arguments is a
  channel error, with the same arguments it changes nothing.
\<close>

record queue_args =
  x_queue_type :: string
  x_dead_letter_exchange :: "string option"
  x_delivery_limit :: "int option"

record broker =
  b_exchanges :: "string \<rightharpoonup> string"
  b_queues :: "string \<rightharpoonup> queue_args"
  b_bindings :: "(string \<times> string) set"

definition PRECONDITION_FAILED :: pyerr where
  "PRECONDITION_FAILED = DriverError ''PRECONDITION_FAILED''"

definition declare_exchange :: "string \<Rightarrow> string \<Rightarrow> broker \<Rightarrow> broker res" where
  "declare_exchange name ty b = (case b_exchanges b name of
      None \<Rightarrow> Inr (b\<lparr>b_exchanges := (b_exchanges b)(name \<mapsto> ty)\<rparr>)
    | Some ty' \<Rightarrow> if ty' = ty then Inr b else Inl PRECONDITION_FAILED)"

definition declare_queue :: "string \<Rightarrow> queue_args \<Rightarrow> broker \<Rightarrow> broker res" where
  "declare_queue name args b = (case b_queues b name of
      None \<Rightarrow> Inr (b\<lparr>b_queues := (b_queues b)(name \<mapsto> args)\<rparr>)
    | Some args' \<Rightarrow> if args' = args then Inr b else Inl PRECONDITION_FAILED)"

definition bind_queue :: "string \<Rightarrow> string \<Rightarrow> broker \<Rightarrow> broker" where
  "bind_queue exchange queue b = b\<lparr>b_bindings := insert (exchange, queue) (b_bindings b)\<rparr>"

definition declare_stream_queue :: "string \<Rightarrow> string \<Rightarrow> string \<Rightarrow> broker \<Rightarrow> (string \<times> broker) res" where
  "declare_stream_queue prefix consumer data_type b =
     rbind (exchange_name prefix data_type) (\<lambda>exchange.
     rbind (declare_exchange exchange AMQP_EXCHANGE_TYPE b) (\<lambda>b1.
     rbind (dead_letter_exchange_name prefix consumer data_type) (\<lambda>dlx.
     rbind (declare_exchange dlx AMQP_EXCHANGE_TYPE b1) (\<lambda>b2.
     rbind (dead_letter_queue_name prefix consumer data_type) (\<lambda>dlq.
     rbind (declare_queue dlq \<lparr>x_queue_type = ''classic'', x_dead_letter_exchange = None, x_delivery_limit = None\<rparr> b2) (\<lambda>b3.
     let b4 = bind_queue dlx dlq b3 in
     rbind (queue_name prefix consumer data_type) (\<lambda>queue.
     rbind (declare_queue queue \<lparr>x_queue_type = ''quorum'', x_dead_letter_exchange = Some dlx, x_delivery_limit = Some 20\<rparr> b4) (\<lambda>b5.
     Inr (queue, bind_queue exchange queue b5)))))))))"

text \<open>What the topology of one stream is, once it is in place.\<close>

definition stream_declared :: "string \<Rightarrow> string \<Rightarrow> string \<Rightarrow> broker \<Rightarrow> bool" where
  "stream_declared prefix c e b \<longleftrightarrow>
     (let q = prefix @ ''-'' @ c @ ''-'' @ e; x = prefix @ ''-'' @ e in
      b_exchanges b x = Some AMQP_EXCHANGE_TYPE \<and> b_exchanges b (q @ ''.dlx'') = Some AMQP_EXCHANGE_TYPE \<and>
      b_queues b q = Some \<lparr>x_queue_type = ''quorum'', x_dead_letter_exchange = Some (q @ ''.dlx''), x_delivery_limit = Some 20\<rparr> \<and>
      b_queues b (q @ ''.dlq'') = Some \<lparr>x_queue_type = ''classic'', x_dead_letter_exchange = None, x_delivery_limit = None\<rparr> \<and>
      (x, q) \<in> b_bindings b \<and> (q @ ''.dlx'', q @ ''.dlq'') \<in> b_bindings b)"

lemma declare_exchange_Inr:
  "declare_exchange n t b = Inr b' \<Longrightarrow>
     b_exchanges b' = (b_exchanges b)(n \<mapsto> t) \<and> b_queues b' = b_queues b \<and> b_bindings b' = b_bindings b"
  by (auto simp: declare_exchange_def split: option.splits if_splits)

lemma declare_queue_Inr:
  "declare_queue n a b = Inr b' \<Longrightarrow>
     b_queues b' = (b_queues b)(n \<mapsto> a) \<and> b_exchanges b' = b_exchanges b \<and> b_bindings b' = b_bindings b"
  by (auto simp: declare_queue_def split: option.splits if_splits)

lemma declare_known:
  "b_exchanges b n = Some t \<Longrightarrow> declare_exchange n t b = Inr b"
  "b_queues b n = Some a \<Longrightarrow> declare_queue n a b = Inr b"
  by (simp_all add: declare_exchange_def declare_queue_def)

text \<open>Nothing that is declared is ever changed or removed.\<close>

definition broker_grows :: "broker \<Rightarrow> broker \<Rightarrow> bool" where
  "broker_grows b b' \<longleftrightarrow> b_exchanges b \<subseteq>\<^sub>m b_exchanges b' \<and> b_queues b \<subseteq>\<^sub>m b_queues b' \<and>
     b_bindings b \<subseteq> b_bindings b'"

lemma broker_grows_trans [trans]: "broker_grows b c \<Longrightarrow> broker_grows c d \<Longrightarrow> broker_grows b d"
  by (auto simp: broker_grows_def intro: map_le_trans)

lemma broker_grows_declare:
  "declare_exchange n t b = Inr b' \<Longrightarrow> broker_grows b b'"
  "declare_queue n a b = Inr b' \<Longrightarrow> broker_grows b b'"
  "broker_grows b (bind_queue x q b)"
  by (auto simp: broker_grows_def declare_exchange_def declare_queue_def bind_queue_def map_le_def
      split: option.splits if_splits)

lemma declare_stream_queue_Inr:
  assumes "declare_stream_queue prefix c e b = Inr (q, b')"
  shows "c \<in> set CONSUMERS" "e \<in> set ENTITY_TYPES" "q = prefix @ ''-'' @ c @ ''-'' @ e"
    and "stream_declared prefix c e b'"
    and "broker_grows b b'"
proof -
  let ?q = "prefix @ ''-'' @ c @ ''-'' @ e" and ?x = "prefix @ ''-'' @ e"
  from assms obtain b1 b2 b3 b5 where ce: "c \<in> set CONSUMERS" "e \<in> set ENTITY_TYPES" and q: "q = ?q"
    and s: "declare_exchange ?x AMQP_EXCHANGE_TYPE b = Inr b1" "declare_exchange (?q @ ''.dlx'') AMQP_EXCHANGE_TYPE b1 = Inr b2"
      "declare_queue (?q @ ''.dlq'') \<lparr>x_queue_type = ''classic'', x_dead_letter_exchange = None, x_delivery_limit = None\<rparr> b2 = Inr b3"
      "declare_queue ?q \<lparr>x_queue_type = ''quorum'', x_dead_letter_exchange = Some (?q @ ''.dlx''), x_delivery_limit = Some 20\<rparr>
         (bind_queue (?q @ ''.dlx'') (?q @ ''.dlq'') b3) = Inr b5"
    and b': "b' = bind_queue ?x ?q b5"
    by (auto simp: declare_stream_queue_def res_simps exchange_name_Inr queue_name_Inr dead_letter_Inr Let_def)
  show "c \<in> set CONSUMERS" "e \<in> set ENTITY_TYPES" "q = ?q" by fact+
  note ex = declare_exchange_Inr [OF s(1)] declare_exchange_Inr [OF s(2)]
    declare_queue_Inr [OF s(3)] declare_queue_Inr [OF s(4)]
  have "broker_grows b b1" by (rule broker_grows_declare(1) [OF s(1)])
  also have "broker_grows b1 b2" by (rule broker_grows_declare(1) [OF s(2)])
  also have "broker_grows b2 b3" by (rule broker_grows_declare(2) [OF s(3)])
  also have "broker_grows b3 (bind_queue (?q @ ''.dlx'') (?q @ ''.dlq'') b3)" by (rule broker_grows_declare(3))
  also have "broker_grows \<dots> b5" by (rule broker_grows_declare(2) [OF s(4)])
  also have "broker_grows b5 b'" unfolding b' by (rule broker_grows_declare(3))
  finally show "broker_grows b b'" .
  show "stream_declared prefix c e b'"
    using ex by (simp add: stream_declared_def b' bind_queue_def Let_def)
qed

lemma redeclare_stream:
  assumes "stream_declared prefix c e b" and "c \<in> set CONSUMERS" and "e \<in> set ENTITY_TYPES"
  shows "declare_stream_queue prefix c e b = Inr (prefix @ ''-'' @ c @ ''-'' @ e, b)"
proof -
  let ?q = "prefix @ ''-'' @ c @ ''-'' @ e" and ?x = "prefix @ ''-'' @ e"
  have names: "exchange_name prefix e = Inr ?x" "queue_name prefix c e = Inr ?q"
    "dead_letter_exchange_name prefix c e = Inr (?q @ ''.dlx'')" "dead_letter_queue_name prefix c e = Inr (?q @ ''.dlq'')"
    using assms(2,3) by (simp_all add: exchange_name_Inr queue_name_Inr dead_letter_Inr)
  have "bind_queue x q b = b" if "(x, q) \<in> b_bindings b" for x q
    using that by (simp add: bind_queue_def insert_absorb)
  then show ?thesis
    using assms(1) by (simp add: declare_stream_queue_def names stream_declared_def Let_def declare_known)
qed

section \<open>All streams of the service\<close>

text \<open>The declaration loop of \<open>main\<close> and \<open>_recover_consumers\<close>: the queue handles by data type.\<close>

definition declare_stream :: "string \<Rightarrow> string \<Rightarrow> (string \<times> string) list \<times> broker \<Rightarrow> ((string \<times> string) list \<times> broker) res" where
  "declare_stream prefix data_type s = (case s of (queues, b) \<Rightarrow>
     rbind (declare_stream_queue prefix WIRE_CONSUMER_NAME data_type b)
       (\<lambda>(q, b'). Inr (AList.update data_type q queues, b')))"

definition declare_streams :: "string \<Rightarrow> broker \<Rightarrow> ((string \<times> string) list \<times> broker) res" where
  "declare_streams prefix b = rfold (declare_stream prefix) ENTITY_TYPES ([], b)"

lemma stream_declared_grows: "stream_declared p c e b \<Longrightarrow> broker_grows b b' \<Longrightarrow> stream_declared p c e b'"
  by (auto simp: stream_declared_def broker_grows_def map_le_def Let_def dom_def)

definition stream_queue :: "string \<Rightarrow> string \<Rightarrow> string" where
  "stream_queue prefix e = prefix @ ''-'' @ WIRE_CONSUMER_NAME @ ''-'' @ e"

lemma consumer_known: "WIRE_CONSUMER_NAME \<in> set CONSUMERS"
  by (simp add: WIRE_CONSUMER_NAME_def CONSUMERS_def)

lemma declare_stream_Inr:
  assumes "declare_stream prefix e (qs, b) = Inr (qs', b')"
  shows "qs' = AList.update e (stream_queue prefix e) qs" "stream_declared prefix WIRE_CONSUMER_NAME e b'"
    "broker_grows b b'" "e \<in> set ENTITY_TYPES"
  using assms declare_stream_queue_Inr [of prefix WIRE_CONSUMER_NAME e b]
  by (auto simp: declare_stream_def res_simps stream_queue_def)

lemma declare_streams_fold:
  assumes "rfold (declare_stream prefix) es (qs, b) = Inr (qs', b')"
  shows "qs' = fold (\<lambda>e. AList.update e (stream_queue prefix e)) es qs \<and> broker_grows b b' \<and>
    (\<forall>e \<in> set es. stream_declared prefix WIRE_CONSUMER_NAME e b')"
  using assms
proof (induction es arbitrary: qs b)
  case Nil
  then show ?case by (simp add: broker_grows_def)
next
  case (Cons e es)
  from Cons.prems obtain qs1 b1 where one: "declare_stream prefix e (qs, b) = Inr (qs1, b1)"
    and rest: "rfold (declare_stream prefix) es (qs1, b1) = Inr (qs', b')"
    by (auto simp: res_simps)
  note step = declare_stream_Inr [OF one]
  from Cons.IH [OF rest] step show ?case
    by (auto intro: broker_grows_trans stream_declared_grows)
qed

lemma declare_streams_Inr:
  assumes "declare_streams prefix b = Inr (qs, b')"
  shows "qs = map (\<lambda>e. (e, stream_queue prefix e)) ENTITY_TYPES" and "broker_grows b b'"
    and "e \<in> set ENTITY_TYPES \<Longrightarrow> stream_declared prefix WIRE_CONSUMER_NAME e b'"
  using declare_streams_fold [OF assms [unfolded declare_streams_def]]
  by (auto simp: ENTITY_TYPES_def)

lemma redeclare_streams_fold:
  assumes "\<And>e. e \<in> set es \<Longrightarrow> stream_declared prefix WIRE_CONSUMER_NAME e b \<and> e \<in> set ENTITY_TYPES"
  shows "rfold (declare_stream prefix) es (qs, b) = Inr (fold (\<lambda>e. AList.update e (stream_queue prefix e)) es qs, b)"
  using assms
proof (induction es arbitrary: qs)
  case (Cons e es)
  have "declare_stream prefix e (qs, b) = Inr (AList.update e (stream_queue prefix e) qs, b)"
    using Cons.prems [of e] redeclare_stream [OF _ consumer_known] by (simp add: declare_stream_def stream_queue_def)
  with Cons show ?case by simp
qed simp

lemma redeclare_streams:
  assumes "declare_streams prefix b = Inr (qs, b')"
  shows "declare_streams prefix b' = Inr (qs, b')"
proof -
  have "rfold (declare_stream prefix) ENTITY_TYPES ([], b') =
      Inr (fold (\<lambda>e. AList.update e (stream_queue prefix e)) ENTITY_TYPES [], b')"
    using declare_streams_Inr(3) [OF assms] by (intro redeclare_streams_fold) simp
  then show ?thesis
    using declare_streams_fold [OF assms [unfolded declare_streams_def]] by (simp add: declare_streams_def)
qed

definition routed :: "broker \<Rightarrow> string \<Rightarrow> string set" where
  "routed b exchange = {q. (exchange, q) \<in> b_bindings b}"

definition empty_broker :: broker where
  "empty_broker = \<lparr>b_exchanges = Map.empty, b_queues = Map.empty, b_bindings = {}\<rparr>"

lemma declare_streams_bindings:
  assumes "declare_streams prefix b = Inr (qs, b')"
  shows "b_bindings b' = b_bindings b \<union>
    (\<Union>e \<in> set ENTITY_TYPES. {(prefix @ ''-'' @ e, stream_queue prefix e),
       (stream_queue prefix e @ ''.dlx'', stream_queue prefix e @ ''.dlq'')})"
proof -
  have one: "b_bindings b' = b_bindings b \<union> {(prefix @ ''-'' @ e, stream_queue prefix e),
       (stream_queue prefix e @ ''.dlx'', stream_queue prefix e @ ''.dlq'')}"
    if "declare_stream prefix e (qs, b) = Inr (qs', b')" for e qs b qs' b'
    using that
    by (auto simp: declare_stream_def declare_stream_queue_def res_simps exchange_name_Inr queue_name_Inr
        dead_letter_Inr Let_def bind_queue_def stream_queue_def
        dest!: declare_exchange_Inr declare_queue_Inr)
  have "b_bindings b' = b_bindings b \<union>
    (\<Union>e \<in> set es. {(prefix @ ''-'' @ e, stream_queue prefix e),
       (stream_queue prefix e @ ''.dlx'', stream_queue prefix e @ ''.dlq'')})"
    if "rfold (declare_stream prefix) es (qs, b) = Inr (qs', b')" for es qs b qs' b'
    using that
  proof (induction es arbitrary: qs b)
    case (Cons e es)
    from Cons.prems obtain qs1 b1 where step: "declare_stream prefix e (qs, b) = Inr (qs1, b1)"
      and rest: "rfold (declare_stream prefix) es (qs1, b1) = Inr (qs', b')"
      by (auto simp: res_simps)
    from Cons.IH [OF rest] one [OF step] show ?case by auto
  qed simp
  from this [OF assms [unfolded declare_streams_def]] show ?thesis .
qed

end
