(* ===== verification/Dispatch.thy ===== *)
theory Dispatch
  imports ReleaseBatch Catalog
begin

text \<open>
  The lookup tables that select a projection by data type: \<open>PROCESSORS\<close> for single records
  (\<^verbatim>\<open>brainzgraphinator.py\<close>) and \<open>BATCH_PROJECTIONS\<close> for batches (\<^verbatim>\<open>_projections.py\<close>), with the
  contracts of the projections restated for whatever the tables hold. \<open>sample_graph\<close> and
  \<open>sample_env\<close> are a small concrete catalog and runtime for evaluations.
\<close>

type_synonym projection = "obj \<Rightarrow> tx_state \<Rightarrow> tx_state res"
type_synonym batch_projection = "obj list \<Rightarrow> tx_state \<Rightarrow> (bool list \<times> tx_state) res"

definition PROCESSORS :: "env \<Rightarrow> string \<Rightarrow> (string \<times> projection) list" where
  "PROCESSORS E now =
     [(''artists'', enrich_artist E now), (''labels'', enrich_label E now),
      (''release-groups'', enrich_release_group E now), (''releases'', enrich_release E now)]"

definition BATCH_PROJECTIONS :: "env \<Rightarrow> string \<Rightarrow> (string \<times> batch_projection) list" where
  "BATCH_PROJECTIONS E now =
     [(''artists'', enrich_artists_batch E now), (''labels'', enrich_labels_batch E now),
      (''release-groups'', enrich_release_groups_batch E now), (''releases'', enrich_releases_batch E now)]"

lemma processor_cases:
  assumes "map_of (PROCESSORS E now) data_type = Some f"
  obtains "data_type = ''artists''" "f = enrich_artist E now" | "data_type = ''labels''" "f = enrich_label E now"
  | "data_type = ''release-groups''" "f = enrich_release_group E now" | "data_type = ''releases''" "f = enrich_release E now"
  using assms unfolding PROCESSORS_def by (auto split: if_splits)

lemma batch_projection_cases:
  assumes "map_of (BATCH_PROJECTIONS E now) data_type = Some f"
  obtains "data_type = ''artists''" "f = enrich_artists_batch E now" | "data_type = ''labels''" "f = enrich_labels_batch E now"
  | "data_type = ''release-groups''" "f = enrich_release_groups_batch E now" | "data_type = ''releases''" "f = enrich_releases_batch E now"
  using assms unfolding BATCH_PROJECTIONS_def by (auto split: if_splits)

lemma processor_enricher: "map_of (PROCESSORS E now) data_type = Some f \<Longrightarrow> enricher f"
  by (erule processor_cases)
    (simp_all add: artists.enricher_axioms labels.enricher_axioms release_groups.enricher_axioms releases.enricher_axioms)

lemma batch_projection_enricher: "map_of (BATCH_PROJECTIONS E now) data_type = Some f \<Longrightarrow> batch_enricher f"
  by (erule batch_projection_cases)
    (simp_all add: artists_batch.batch_enricher_axioms labels_batch.batch_enricher_axioms
      release_groups_batch.batch_enricher_axioms releases_batch.batch_enricher_axioms)

lemma dispatch_known:
  "data_type \<in> set ENTITY_TYPES \<longleftrightarrow> map_of (PROCESSORS E now) data_type \<noteq> None"
  "data_type \<in> set ENTITY_TYPES \<longleftrightarrow> map_of (BATCH_PROJECTIONS E now) data_type \<noteq> None"
  by (auto simp: ENTITY_TYPES_def PROCESSORS_def BATCH_PROJECTIONS_def)

lemma processor_replay:
  assumes "map_of (PROCESSORS (gated E) now) data_type = Some f" and "map_of (PROCESSORS (gated E) now') data_type = Some f'"
    and "f ev (st, g) = Inr (st1, g1)"
  shows "\<exists>st'. f' ev (st2, g1) = Inr (st', g1) \<and> replay_counts st2 st'"
  using assms(1)
proof (cases rule: processor_cases)
  case 1
  with assms(2,3) show ?thesis by (auto simp: PROCESSORS_def intro: artists_replay.replay)
next
  case 2
  with assms(2,3) show ?thesis by (auto simp: PROCESSORS_def intro: labels_replay.replay)
next
  case 3
  with assms(2,3) show ?thesis by (auto simp: PROCESSORS_def intro: release_groups_replay.replay)
next
  case 4
  with assms(2,3) show ?thesis by (auto simp: PROCESSORS_def intro: releases_replay.replay)
qed

section \<open>A small catalog\<close>

definition sample_env :: env where
  "sample_env = \<lparr>digest = (\<lambda>ps. int_str (int (length ps))), map_musicbrainz_release = (\<lambda>r. []),
     families_of = (\<lambda>m. JArr []), medium_label = (\<lambda>m. None), replay_gate = True\<rparr>"

definition sample_graph :: graph where
  "sample_graph = \<lparr>nodes = (\<lambda>k. if k = (Artist, ''1'') \<or> k = (Artist, ''2'') \<or> k = (Label, ''1'') \<or>
       k = (Master, ''1'') \<or> k = (Release, ''1'') then Some Map.empty else None),
     arels = [], mediums = [''cd'' \<mapsto> Map.empty], families = {''optical''},
     in_family = [(''cd'', ''optical'')],
     issued = [\<lparr>i_rel = ''1'', i_med = ''cd'', i_source = Some ''musicbrainz'', i_qty = Some 1\<rparr>], other_rels = {}\<rparr>"

definition sample_label :: obj where
  "sample_label = [(''id'', JStr ''a''), (''discogs_label_id'', JInt 1), (''type'', JStr ''Imprint'')]"

definition sample_media :: obj where
  "sample_media = [(''items'', JArr [JObj [(''medium'', JStr ''lp''), (''family'', JStr ''vinyl''), (''qty'', JInt 2)],
     JObj [(''medium'', JStr ''lp''), (''family'', JStr ''vinyl'')]])]"

definition sample_release :: obj where
  "sample_release = [(''id'', JStr ''r''), (''discogs_release_id'', JInt 1), (''media'', JObj sample_media)]"

definition sample_artist :: obj where
  "sample_artist = [(''id'', JStr ''a''), (''discogs_artist_id'', JInt 1), (''relations'', JArr
     [JObj [(''type'', JStr ''founder''), (''target_discogs_artist_id'', JInt 2), (''direction'', JStr ''backward'')]])]"

lemma not_isl_Inr: "\<not> isl x \<Longrightarrow> \<exists>a b. x = Inr (a, b)"
  by (cases x) auto

lemma sample_graph_wf: "wf_graph sample_graph"
  by (simp add: wf_graph_def sample_graph_def artist_exists_def)

lemma sample_label_runs: "\<not> isl (enrich_label E now sample_label s)"
  by (cases s) (simp add: enrich_label_def label_row_def life_span_def sample_label_def py_or_def Let_def split: prod.split)

lemma sample_relation_ok: "\<forall>r \<in> set (record_relations sample_artist). relation_ok r"
  by (simp add: record_relations_def sample_artist_def py_or_def relation_ok_def)

lemma sample_artist_runs: "\<not> isl (enrich_artist E now sample_artist s)"
proof -
  have rels: "py_iter (py_or (dget sample_artist ''relations'') (JArr [])) = Inr (record_relations sample_artist)"
    by (simp add: sample_artist_def record_relations_def py_or_def)
  have "create_relationship_edges d (record_relations sample_artist) s =
      Inr (fold (relation_step d) (record_relations sample_artist) s)" for d s
    using sample_relation_ok by (simp add: create_relationship_edges_Inr)
  moreover obtain row where "artist_row sample_artist = Inr row"
    by (simp add: artist_row_def life_span_def sample_artist_def py_or_def)
  ultimately show ?thesis
    by (cases s) (simp add: enrich_artist_eq rels Let_def split: prod.split option.split)
qed

lemma sample_release_runs: "\<not> isl (enrich_release E now sample_release s)"
proof -
  have block: "release_media_block E sample_release = Some sample_media" for E
    by (simp add: release_media_block_def sample_release_def sample_media_def)
  have items: "\<not> isl (block_items sample_media)"
    by (simp add: block_items_def sample_media_def py_or_def)
  then obtain js where js: "block_items sample_media = Inr js" by (cases "block_items sample_media") auto
  have rows: "media_edge_rows E sample_media = Inr (dvalues (fold (add_item E) js []))"
    "media_items sample_media = Inr (filter is_dict js)"
    by (simp_all add: media_edge_rows_def media_items_def js)
  have digest: "\<exists>x. media_digest E sample_release = Inr x"
    by (simp add: media_digest_def block rows)
  have row: "\<exists>row. release_row sample_release = Inr row"
    by (simp add: release_row_def release_event_rows_def sample_release_def py_or_def)
  have run: "enrich_release E now sample_release (st, g) \<noteq> Inl e" for st g e
    using digest row reconcile_as_plan [OF block rows]
    by (auto simp: enrich_release_def Let_def split: prod.splits if_splits)
  show ?thesis
    using run by (cases s; cases "enrich_release E now sample_release s") auto
qed

end
