(* ===== verification/Consumers.thy ===== *)
theory Consumers
  imports Catalog
begin

text \<open>
  Consumer lifecycle (\<^verbatim>\<open>brainzgraphinator.py\<close>): registration, the starvation alarm and the health
  report, delayed and immediate cancellation, closing the transport, and recovery. The module
  globals are the record \<open>svc\<close>; what the broker answers is an argument of each operation. An
  operation is the code between two suspension points, except that closing the transport and a
  recovery run are one operation each.
\<close>

section \<open>State\<close>

text \<open>The environment settings the lifecycle depends on; times are clock ticks.\<close>

record settings =
  CONSUMER_CANCEL_DELAY :: int
  STARTUP_IDLE_TIMEOUT :: int
  QUEUE_CHECK_INTERVAL :: int
  RECENT :: int

text \<open>
  A \<open>cancel_after_delay\<close> task sleeps, then waits for the broker to confirm the cancellation of the
  tag it read. \<open>t_cancelled\<close>: \<open>task.cancel()\<close> was called; the exception reaches it at its next step.
\<close>

datatype phase = Sleeping | Cancelling string

record timer_task =
  t_id :: nat
  t_type :: string
  t_phase :: phase
  t_cancelled :: bool

record svc =
  message_counts :: "string \<Rightarrow> int"
  last_message_time :: "string \<Rightarrow> int"
  completed_files :: "string set"
  consumer_tags :: "(string \<times> string) list"
  connection_consumer_tags :: "(string \<times> string) list"
  consumer_watch_started_at :: int
  consumer_cancel_tasks :: "(string \<times> nat) list"
  tasks :: "timer_task list"
  next_task :: nat
  queues :: "(string \<times> string) list"
  consumer_recovery_requested :: bool
  idle_mode :: bool
  active_connection :: bool
  active_channel :: bool
  shutdown_requested :: bool
  graph_driver :: bool
  consumer_gauge :: int

definition initial_svc :: svc where
  "initial_svc = \<lparr>message_counts = (\<lambda>_. 0), last_message_time = (\<lambda>_. 0), completed_files = {},
     consumer_tags = [], connection_consumer_tags = [], consumer_watch_started_at = 0,
     consumer_cancel_tasks = [], tasks = [], next_task = 0, queues = [],
     consumer_recovery_requested = False, idle_mode = False, active_connection = False,
     active_channel = False, shutdown_requested = False, graph_driver = False, consumer_gauge = 0\<rparr>"

section \<open>Registration, alarm, health\<close>

definition register_consumer :: "string \<Rightarrow> string \<Rightarrow> svc \<Rightarrow> svc" where
  "register_consumer data_type tag s =
     s\<lparr>consumer_tags := AList.update data_type tag (consumer_tags s),
       connection_consumer_tags := AList.update data_type tag (connection_consumer_tags s),
       consumer_gauge := consumer_gauge s + 1\<rparr>"

definition has_key :: "string \<Rightarrow> (string \<times> 'v) list \<Rightarrow> bool" where
  "has_key k d \<longleftrightarrow> map_of d k \<noteq> None"

definition traffic_seen :: "svc \<Rightarrow> bool" where
  "traffic_seen s \<longleftrightarrow> (\<exists>e \<in> set ENTITY_TYPES. message_counts s e > 0)"

definition grace_expired :: "settings \<Rightarrow> int \<Rightarrow> svc \<Rightarrow> bool" where
  "grace_expired S now s \<longleftrightarrow>
     consumer_watch_started_at s > 0 \<and> now - consumer_watch_started_at s \<ge> STARTUP_IDLE_TIMEOUT S"

definition consumer_alarm_types :: "settings \<Rightarrow> int \<Rightarrow> svc \<Rightarrow> string list" where
  "consumer_alarm_types S now s =
     (if \<not> traffic_seen s \<and> \<not> grace_expired S now s then []
      else let all_but_one_complete = (card (completed_files s) \<ge> length ENTITY_TYPES - 1) in
        filter (\<lambda>e. e \<notin> completed_files s \<and>
            (\<not> has_key e (consumer_tags s) \<or>
             grace_expired S now s \<and> all_but_one_complete \<and> last_message_time s e \<le> 0))
          ENTITY_TYPES)"

record health =
  h_status :: string
  h_task :: "string option"
  h_consumers :: "string list"
  h_alarms :: "string list"

definition recent_type :: "settings \<Rightarrow> int \<Rightarrow> svc \<Rightarrow> string option" where
  "recent_type S now s =
     find (\<lambda>e. last_message_time s e > 0 \<and> now - last_message_time s e < RECENT S) ENTITY_TYPES"

definition get_health_data :: "settings \<Rightarrow> int \<Rightarrow> svc \<Rightarrow> health" where
  "get_health_data S now s =
     (let active = (case recent_type S now s of
            Some e \<Rightarrow> Some (''Enriching '' @ e)
          | None \<Rightarrow> if consumer_tags s \<noteq> [] then Some ''Idle - waiting for messages'' else None);
          alarms = consumer_alarm_types S now s;
          stuck = (alarms \<noteq> []);
          active1 = (if stuck then Some ''STUCK - consumers died, awaiting recovery'' else active);
          (status, active2) =
            (if \<not> graph_driver s
             then (if consumer_tags s = [] \<and> (\<forall>e \<in> set ENTITY_TYPES. message_counts s e = 0)
                   then (''starting'', Some ''Initializing Neo4j connection'') else (''unhealthy'', active1))
             else if stuck \<or> consumer_recovery_requested s then (''unhealthy'', active1)
             else (''healthy'', active1))
      in \<lparr>h_status = status, h_task = active2, h_consumers = map fst (consumer_tags s), h_alarms = alarms\<rparr>)"

section \<open>Cancellation\<close>

text \<open>What the broker RPC of \<open>_cancel_consumer\<close> ends with.\<close>

datatype cancel_result = CancelOk | CancelFailed | CancelInterrupted

text \<open>
  \<open>_cancel_consumer\<close> from the answer on: the tag is dropped only when it is still the registered one;
  any failure, a missing queue handle included, keeps it and requests recovery.
\<close>

definition cancel_consumer :: "string \<Rightarrow> string \<Rightarrow> bool \<Rightarrow> cancel_result \<Rightarrow> svc \<Rightarrow> bool \<times> svc" where
  "cancel_consumer data_type tag has_queue answer s =
     (if \<not> has_queue \<or> answer \<noteq> CancelOk then (False, s\<lparr>consumer_recovery_requested := True\<rparr>)
      else (True, if map_of (consumer_tags s) data_type = Some tag
                  then s\<lparr>consumer_tags := AList.delete data_type (consumer_tags s),
                         consumer_gauge := consumer_gauge s - 1\<rparr>
                  else s))"

definition cancel_task :: "nat \<Rightarrow> svc \<Rightarrow> svc" where
  "cancel_task i s = s\<lparr>tasks := map (\<lambda>t. if t_id t = i then t\<lparr>t_cancelled := True\<rparr> else t) (tasks s)\<rparr>"

definition schedule_consumer_cancellation :: "string \<Rightarrow> svc \<Rightarrow> svc" where
  "schedule_consumer_cancellation data_type s =
     (let s1 = (case map_of (consumer_cancel_tasks s) data_type of None \<Rightarrow> s | Some i \<Rightarrow> cancel_task i s);
          i = next_task s1
      in s1\<lparr>tasks := tasks s1 @ [\<lparr>t_id = i, t_type = data_type, t_phase = Sleeping, t_cancelled = False\<rparr>],
            next_task := i + 1,
            consumer_cancel_tasks := AList.update data_type i (consumer_cancel_tasks s1)\<rparr>)"

text \<open>The \<open>finally\<close> block of a task, which then ends.\<close>

definition end_task :: "timer_task \<Rightarrow> svc \<Rightarrow> svc" where
  "end_task t s =
     (let s1 = (if map_of (consumer_cancel_tasks s) (t_type t) = Some (t_id t)
                then s\<lparr>consumer_cancel_tasks := AList.delete (t_type t) (consumer_cancel_tasks s)\<rparr> else s)
      in s1\<lparr>tasks := filter (\<lambda>u. t_id u \<noteq> t_id t) (tasks s1)\<rparr>)"

section \<open>Closing the transport\<close>

text \<open>
  \<open>close_rabbitmq_connection\<close>; the arguments say whether closing the channel and the connection
  succeed (an exception or the timeout being a failure). A channel that cannot be closed is only
  logged, a connection that cannot be closed ends the operation with the handles kept.
\<close>

definition close_rabbitmq_connection :: "bool \<Rightarrow> bool \<Rightarrow> svc \<Rightarrow> svc" where
  "close_rabbitmq_connection channel_ok connection_ok s =
     (let had_transport = (active_channel s \<or> active_connection s);
          s1 = (if active_channel s \<and> channel_ok then s\<lparr>active_channel := False\<rparr> else s)
      in if active_connection s1 \<and> \<not> connection_ok then s1\<lparr>consumer_recovery_requested := True\<rparr>
         else let s2 = (if active_connection s1 then s1\<lparr>active_connection := False, active_channel := False\<rparr> else s1)
         in if active_channel s2 then s2\<lparr>consumer_recovery_requested := True\<rparr>
            else if \<not> had_transport then s2
            else s2\<lparr>consumer_gauge := (if consumer_tags s2 \<noteq> [] then consumer_gauge s2 - int (length (consumer_tags s2))
                                       else consumer_gauge s2),
                    consumer_tags := [], connection_consumer_tags := [], consumer_watch_started_at := 0\<rparr>)"

definition check_all_consumers_idle :: "svc \<Rightarrow> bool" where
  "check_all_consumers_idle s \<longleftrightarrow> consumer_tags s = [] \<and> length ENTITY_TYPES = card (completed_files s)"

section \<open>The delayed cancellation task\<close>

text \<open>After the delay: read the registered tag, or end when there is none.\<close>

definition timer_fires :: "timer_task \<Rightarrow> svc \<Rightarrow> svc" where
  "timer_fires t s = (case map_of (consumer_tags s) (t_type t) of
      None \<Rightarrow> end_task t s
    | Some tag \<Rightarrow> s\<lparr>tasks := map (\<lambda>u. if t_id u = t_id t then u\<lparr>t_phase := Cancelling tag\<rparr> else u) (tasks s)\<rparr>)"

text \<open>The broker's answer; when the last consumer of a finished extraction goes, the transport is closed.\<close>

definition timer_answered :: "timer_task \<Rightarrow> string \<Rightarrow> cancel_result \<Rightarrow> bool \<Rightarrow> bool \<Rightarrow> svc \<Rightarrow> svc" where
  "timer_answered t tag answer channel_ok connection_ok s =
     (let (ok, s1) = cancel_consumer (t_type t) tag True answer s;
          s2 = (if ok \<and> check_all_consumers_idle s1
                then close_rabbitmq_connection channel_ok connection_ok s1 else s1)
      in end_task t s2)"

text \<open>The \<open>CancelledError\<close> of a cancelled task arrives: an RPC in flight leaves the subscription uncertain.\<close>

definition timer_cancelled :: "timer_task \<Rightarrow> svc \<Rightarrow> svc" where
  "timer_cancelled t s =
     (case t_phase t of
        Sleeping \<Rightarrow> end_task t s
      | Cancelling tag \<Rightarrow> end_task t (snd (cancel_consumer (t_type t) tag True CancelInterrupted s)))"

text \<open>\<open>cancel_all_consumers\<close>: timers first, then one immediate cancel per registered consumer.\<close>

definition interrupt_timers :: "svc \<Rightarrow> svc" where
  "interrupt_timers s =
     (let ids = map snd (consumer_cancel_tasks s);
          s1 = fold timer_cancelled (filter (\<lambda>t. t_id t \<in> set ids) (tasks s)) s
      in s1\<lparr>consumer_cancel_tasks := []\<rparr>)"

definition cancel_all_consumers :: "(string \<Rightarrow> cancel_result) \<Rightarrow> svc \<Rightarrow> svc" where
  "cancel_all_consumers answers s =
     (let s1 = interrupt_timers s
      in fold (\<lambda>(data_type, tag) u. snd (cancel_consumer data_type tag (has_key data_type (queues u)) (answers data_type) u))
           (consumer_tags s1) s1)"

section \<open>Control messages and data messages\<close>

text \<open>
  \<open>check_file_completion\<close> on the \<open>type\<close> of a message: whether it was a control message.
\<close>

definition check_file_completion :: "settings \<Rightarrow> json \<Rightarrow> string \<Rightarrow> svc \<Rightarrow> bool \<times> svc" where
  "check_file_completion S kind data_type s =
     (let schedule = (\<lambda>u. if CONSUMER_CANCEL_DELAY S > 0 \<and> has_key data_type (queues u)
                          then schedule_consumer_cancellation data_type u else u)
      in if kind = JStr ''file_complete''
         then (let s1 = schedule s in (True, s1\<lparr>completed_files := insert data_type (completed_files s1)\<rparr>))
         else if kind = JStr ''extraction_complete''
         then (True, schedule (s\<lparr>completed_files := insert data_type (completed_files s)\<rparr>))
         else (False, s))"

text \<open>The first effects of a data message: the alarm is re-armed and the grace timer dropped.\<close>

definition rearm :: "string \<Rightarrow> svc \<Rightarrow> svc" where
  "rearm data_type s =
     (let s1 = s\<lparr>completed_files := completed_files s - {data_type}\<rparr>
      in case map_of (consumer_cancel_tasks s1) data_type of
           None \<Rightarrow> s1
         | Some i \<Rightarrow> cancel_task i (s1\<lparr>consumer_cancel_tasks := AList.delete data_type (consumer_cancel_tasks s1)\<rparr>))"

section \<open>Recovery\<close>

text \<open>
  The broker during one recovery run: closing of the old transport, connecting, the backlog of each
  queue (\<open>None\<close>: the passive declare fails), QoS, the stream declarations, the consume calls
  (\<open>None\<close>: it fails), closing the temporary transport, and the teardown after a failure.
\<close>

record recover_env =
  re_close_channel :: bool
  re_close_connection :: bool
  re_connects :: bool
  re_backlog :: "string \<Rightarrow> int option"
  re_qos :: bool
  re_declare :: "string \<Rightarrow> string option"
  re_consume :: "string \<Rightarrow> string option"
  re_close_temp :: bool
  re_teardown_channel :: bool
  re_teardown_connection :: bool
  re_now :: "string \<Rightarrow> int"
  re_start :: int

text \<open>The passive declarations, in order; \<open>None\<close> when one of them fails.\<close>

fun probe_queues :: "(string \<Rightarrow> int option) \<Rightarrow> string list \<Rightarrow> (string \<times> int) list option" where
  "probe_queues backlog [] = Some []"
| "probe_queues backlog (e # es) = (case backlog e of
      None \<Rightarrow> None
    | Some n \<Rightarrow> map_option (\<lambda>rest. if n > 0 then (e, n) # rest else rest) (probe_queues backlog es))"

fun declare_queues :: "(string \<Rightarrow> string option) \<Rightarrow> string list \<Rightarrow> svc \<Rightarrow> bool \<times> svc" where
  "declare_queues decl [] s = (True, s)"
| "declare_queues decl (e # es) s = (case decl e of
      None \<Rightarrow> (False, s)
    | Some q \<Rightarrow> declare_queues decl es (s\<lparr>queues := AList.update e q (queues s)\<rparr>))"

fun start_consumers :: "recover_env \<Rightarrow> (string \<times> int) list \<Rightarrow> string list \<Rightarrow> svc \<Rightarrow> bool \<times> svc" where
  "start_consumers R pending [] s = (True, s)"
| "start_consumers R pending (e # es) s =
     (if has_key e (queues s) \<and> \<not> has_key e (consumer_tags s)
      then (case re_consume R e of
          None \<Rightarrow> (False, s)
        | Some tag \<Rightarrow>
            let s1 = register_consumer e tag s;
                s2 = (if has_key e pending then s1\<lparr>completed_files := completed_files s1 - {e}\<rparr> else s1);
                s3 = s2\<lparr>last_message_time := (last_message_time s2)(e := re_now R e)\<rparr>
            in start_consumers R pending es s3)
      else start_consumers R pending es s)"

definition drop_timers :: "svc \<Rightarrow> svc" where
  "drop_timers s = (fold (\<lambda>(e, i) u. cancel_task i u) (consumer_cancel_tasks s) s)\<lparr>consumer_cancel_tasks := []\<rparr>"

text \<open>The \<open>try\<close> block after a successful connect; the flag says whether it ended normally.\<close>

definition restart_consumers :: "recover_env \<Rightarrow> svc \<Rightarrow> bool \<times> svc" where
  "restart_consumers R s = (case probe_queues (re_backlog R) ENTITY_TYPES of
      None \<Rightarrow> (False, s)
    | Some [] \<Rightarrow> (re_close_temp R, s)
    | Some pending \<Rightarrow>
        let s1 = s\<lparr>active_connection := True, active_channel := True, connection_consumer_tags := [],
                   consumer_watch_started_at := re_start R\<rparr>
        in if \<not> re_qos R then (False, s1)
           else let (ok, s2) = declare_queues (re_declare R) ENTITY_TYPES (s1\<lparr>queues := []\<rparr>)
           in if \<not> ok then (False, s2)
              else let (ok', s3) = start_consumers R pending ENTITY_TYPES s2
              in if \<not> ok' then (False, s3) else (True, s3\<lparr>idle_mode := False\<rparr>))"

definition recover_consumers :: "recover_env \<Rightarrow> svc \<Rightarrow> svc" where
  "recover_consumers R s =
     (let s1 = (if active_connection s \<or> active_channel s
                then close_rabbitmq_connection (re_close_channel R) (re_close_connection R) s else s)
      in if (active_connection s \<or> active_channel s) \<and> (active_connection s1 \<or> active_channel s1) then s1
         else let s2 = (drop_timers s1)\<lparr>consumer_recovery_requested := False\<rparr>
         in if \<not> re_connects R then s2\<lparr>consumer_recovery_requested := True\<rparr>
            else let (ok, s3) = restart_consumers R s2
            in if ok then s3
               else close_rabbitmq_connection (re_teardown_channel R) (re_teardown_connection R)
                 (s3\<lparr>consumer_recovery_requested := True, active_connection := True,
                     active_channel := True, queues := []\<rparr>))"

text \<open>One round of \<open>periodic_queue_checker\<close>, with the time of the last full check.\<close>

definition check_queues :: "settings \<Rightarrow> recover_env \<Rightarrow> int \<Rightarrow> int \<times> svc \<Rightarrow> int \<times> svc" where
  "check_queues S R now x = (case x of (last_full, s) \<Rightarrow>
     (if consumer_recovery_requested s then (last_full, recover_consumers R s)
      else if consumer_alarm_types S now s \<noteq> [] then (last_full, recover_consumers R s)
      else if now - last_full < QUEUE_CHECK_INTERVAL S then (last_full, s)
      else if active_connection s \<or> consumer_tags s \<noteq> [] then (last_full, s)
      else (now, recover_consumers R s)))"

end
