(* ===== verification/Lifecycle.thy ===== *)
theory Lifecycle
  imports Consumers
begin

text \<open>
  The consumer lifecycle as a transition system: what the service does at startup, on messages, when
  timers fire, at queue checks and at shutdown, and the invariant of the module globals. The
  bookkeeping of subscriptions (\<open>tags_ok\<close>) and of cancellation timers (\<open>timers_ok\<close>) are separate.
\<close>

section \<open>Startup, settled deliveries, idle mode\<close>

text \<open>\<open>main\<close> from the opened connection to the last registration; the tag of each consume call is given.\<close>

definition start_service :: "(string \<Rightarrow> string) \<Rightarrow> (string \<Rightarrow> string) \<Rightarrow> int \<Rightarrow> svc \<Rightarrow> svc" where
  "start_service queue_of tag_of now s =
     fold (\<lambda>e. register_consumer e (tag_of e)) ENTITY_TYPES
       (s\<lparr>active_connection := True, active_channel := True, queues := map (\<lambda>e. (e, queue_of e)) ENTITY_TYPES,
          connection_consumer_tags := [], consumer_watch_started_at := now\<rparr>)"

text \<open>The counters a settled record moves.\<close>

definition record_delivery :: "string \<Rightarrow> int \<Rightarrow> svc \<Rightarrow> svc" where
  "record_delivery e now s = s\<lparr>message_counts := (message_counts s)(e := message_counts s e + 1),
     last_message_time := (last_message_time s)(e := now)\<rparr>"

text \<open>One round of \<open>progress_reporter\<close>: the idle flag.\<close>

definition report_progress :: "settings \<Rightarrow> int \<Rightarrow> int \<Rightarrow> svc \<Rightarrow> svc" where
  "report_progress S startup_time now s =
     (if card (completed_files s) = length ENTITY_TYPES then s
      else let total = sum_list (map (message_counts s) ENTITY_TYPES);
               s1 = (if \<not> idle_mode s \<and> total = 0 \<and> now - startup_time \<ge> STARTUP_IDLE_TIMEOUT S
                     then s\<lparr>idle_mode := True\<rparr> else s)
           in if idle_mode s1 \<and> total > 0 then s1\<lparr>idle_mode := False\<rparr> else s1)"

definition signal_handler :: "svc \<Rightarrow> svc" where
  "signal_handler s = s\<lparr>shutdown_requested := True\<rparr>"

section \<open>Steps\<close>

inductive svc_start :: "svc \<Rightarrow> bool" where
  "svc_start (start_service queue_of tag_of now (initial_svc\<lparr>graph_driver := True\<rparr>))"

inductive svc_step :: "settings \<Rightarrow> svc \<Rightarrow> svc \<Rightarrow> bool" for S where
  control: "e \<in> set ENTITY_TYPES \<Longrightarrow> check_file_completion S kind e s = (True, s') \<Longrightarrow> svc_step S s s'"
| data: "e \<in> set ENTITY_TYPES \<Longrightarrow> svc_step S s (rearm e s)"
| settled: "e \<in> set ENTITY_TYPES \<Longrightarrow> svc_step S s (record_delivery e now s)"
| fires: "t \<in> set (tasks s) \<Longrightarrow> \<not> t_cancelled t \<Longrightarrow> t_phase t = Sleeping \<Longrightarrow> svc_step S s (timer_fires t s)"
| answered: "t \<in> set (tasks s) \<Longrightarrow> \<not> t_cancelled t \<Longrightarrow> t_phase t = Cancelling tag \<Longrightarrow>
    svc_step S s (timer_answered t tag answer channel_ok connection_ok s)"
| cancelled: "t \<in> set (tasks s) \<Longrightarrow> t_cancelled t \<Longrightarrow> svc_step S s (timer_cancelled t s)"
| check: "check_queues S R now (t0, s) = (t1, s') \<Longrightarrow> svc_step S s s'"
| progress: "svc_step S s (report_progress S startup_time now s)"
| signal: "svc_step S s (signal_handler s)"
| shutdown: "shutdown_requested s \<Longrightarrow> svc_step S s (cancel_all_consumers answers s)"
| close: "shutdown_requested s \<Longrightarrow> svc_step S s (close_rabbitmq_connection channel_ok connection_ok s)"

section \<open>Subscriptions\<close>

text \<open>
  The gauge is the number of subscriptions, a subscription needs a transport, is one of the four
  entities, and was registered on the current connection.
\<close>

definition tags_ok :: "svc \<Rightarrow> bool" where
  "tags_ok s \<longleftrightarrow> distinct (map fst (consumer_tags s)) \<and> fst ` set (consumer_tags s) \<subseteq> set ENTITY_TYPES \<and>
     consumer_gauge s = int (length (consumer_tags s)) \<and>
     (consumer_tags s \<noteq> [] \<longrightarrow> active_connection s \<or> active_channel s) \<and>
     map_of (consumer_tags s) \<subseteq>\<^sub>m map_of (connection_consumer_tags s)"

lemma tags_ok_cong:
  assumes "tags_ok s" and "consumer_tags s' = consumer_tags s" "consumer_gauge s' = consumer_gauge s"
    "active_connection s' = active_connection s" "active_channel s' = active_channel s"
    "connection_consumer_tags s' = connection_consumer_tags s"
  shows "tags_ok s'"
  using assms by (simp add: tags_ok_def)

lemma map_le_upd_both: "m \<subseteq>\<^sub>m m' \<Longrightarrow> m(k \<mapsto> v) \<subseteq>\<^sub>m m'(k \<mapsto> v)"
  by (simp add: map_le_def)

lemma tags_ok_register:
  assumes "tags_ok s" and "e \<in> set ENTITY_TYPES" and "map_of (consumer_tags s) e = None"
    and "active_connection s \<or> active_channel s"
  shows "tags_ok (register_consumer e tag s)"
proof -
  have fresh: "e \<notin> fst ` set (consumer_tags s)" using assms(3) by (simp add: map_of_eq_None_iff)
  have le: "map_of (AList.update e tag (consumer_tags s)) \<subseteq>\<^sub>m map_of (AList.update e tag (connection_consumer_tags s))"
    using assms(1) unfolding update_conv' by (intro map_le_upd_both) (simp add: tags_ok_def)
  show ?thesis
    using assms(1,2,4) le fresh unfolding AList_update_new [OF fresh]
    by (simp add: tags_ok_def register_consumer_def AList_update_new [OF fresh])
qed

lemma delete_present_length:
  "distinct (map fst d) \<Longrightarrow> map_of d k = Some v \<Longrightarrow> length (AList.delete k d) + 1 = length d"
proof (induction d)
  case (Cons x d)
  then show ?case by (cases "fst x = k") (simp_all add: image_iff)
qed simp

lemma map_le_delete: "m \<subseteq>\<^sub>m m' \<Longrightarrow> m(k := None) \<subseteq>\<^sub>m m'"
  by (simp add: map_le_def)

lemma tags_ok_cancel:
  assumes "tags_ok s"
  shows "tags_ok (snd (cancel_consumer e tag has_queue answer s))"
proof (cases "has_queue \<and> answer = CancelOk \<and> map_of (consumer_tags s) e = Some tag")
  case True
  let ?s = "s\<lparr>consumer_tags := AList.delete e (consumer_tags s), consumer_gauge := consumer_gauge s - 1\<rparr>"
  have "snd (cancel_consumer e tag has_queue answer s) = ?s" using True by (simp add: cancel_consumer_def)
  moreover have "int (length (AList.delete e (consumer_tags s))) + 1 = int (length (consumer_tags s))"
    using delete_present_length [of "consumer_tags s" e tag] assms True by (simp add: tags_ok_def flip: of_nat_Suc)
  moreover have "fst ` set (AList.delete e (consumer_tags s)) \<subseteq> fst ` set (consumer_tags s)"
    by (rule dom_delete_subset)
  moreover have "map_of (AList.delete e (consumer_tags s)) \<subseteq>\<^sub>m map_of (connection_consumer_tags s)"
    using assms unfolding delete_conv' by (intro map_le_delete) (simp add: tags_ok_def)
  moreover have "consumer_tags s \<noteq> []" using True by auto
  ultimately show ?thesis using assms by (auto simp: tags_ok_def intro: distinct_delete)
next
  case False
  then show ?thesis by (auto simp: cancel_consumer_def intro: tags_ok_cong [OF assms])
qed

lemma tags_ok_close:
  assumes "tags_ok s" shows "tags_ok (close_rabbitmq_connection a b s)"
proof (cases "active_connection s \<and> \<not> b")
  case True
  then have "close_rabbitmq_connection a b s = (if active_channel s \<and> a then s\<lparr>active_channel := False\<rparr> else s)\<lparr>consumer_recovery_requested := True\<rparr>"
    by (simp add: close_rabbitmq_connection_def Let_def)
  then show ?thesis using assms True by (simp add: tags_ok_def)
next
  case False
  then show ?thesis using assms
    by (simp add: close_rabbitmq_connection_def Let_def tags_ok_def) blast
qed

text \<open>After closing, either the transport is gone with all its subscriptions, or recovery is requested.\<close>

lemma close_outcome:
  assumes "s' = close_rabbitmq_connection a b s" and "active_connection s \<or> active_channel s"
  shows "\<not> active_connection s' \<and> \<not> active_channel s' \<and> consumer_tags s' = [] \<and> connection_consumer_tags s' = [] \<or>
    consumer_recovery_requested s' \<and> consumer_tags s' = consumer_tags s"
  unfolding assms(1) using assms(2)
  by (cases "active_connection s"; cases "active_channel s"; cases a; cases b)
    (simp_all add: close_rabbitmq_connection_def Let_def)

section \<open>Recovery\<close>

lemma declare_queues_frame:
  assumes "declare_queues decl es s = (ok, s')"
  shows "\<exists>qs. s' = s\<lparr>queues := qs\<rparr> \<and> (ok \<longrightarrow> (\<forall>e \<in> set es. has_key e qs)) \<and> (\<forall>e. has_key e (queues s) \<longrightarrow> has_key e qs)"
  using assms
proof (induction es arbitrary: s)
  case Nil
  then show ?case by (intro exI [of _ "queues s"]) simp
next
  case (Cons e es)
  show ?case
  proof (cases "decl e")
    case None
    with Cons.prems show ?thesis by (intro exI [of _ "queues s"]) simp
  next
    case (Some q)
    let ?s = "s\<lparr>queues := AList.update e q (queues s)\<rparr>"
    from Cons.prems Some have "declare_queues decl es ?s = (ok, s')" by simp
    from Cons.IH [OF this] obtain qs where qs: "s' = ?s\<lparr>queues := qs\<rparr>" "ok \<longrightarrow> (\<forall>e \<in> set es. has_key e qs)"
      "\<forall>e'. has_key e' (AList.update e q (queues s)) \<longrightarrow> has_key e' qs" by auto
    then show ?thesis by (intro exI [of _ qs]) (auto simp: has_key_def update_conv')
  qed
qed

text \<open>What starting the consumers leaves unchanged.\<close>

definition transport :: "svc \<Rightarrow> bool \<times> bool \<times> bool \<times> (string \<times> nat) list \<times> timer_task list \<times> nat \<times> (string \<times> string) list \<times> bool" where
  "transport s = (active_connection s, active_channel s, consumer_recovery_requested s, consumer_cancel_tasks s, tasks s,
     next_task s, queues s, shutdown_requested s)"

lemma has_key_update: "has_key e (AList.update k v d) \<longleftrightarrow> e = k \<or> has_key e d"
  by (simp add: has_key_def update_conv')

lemma start_consumers_run:
  assumes "start_consumers R pending es s = (ok, s')" and "tags_ok s" and "active_connection s" and "set es \<subseteq> set ENTITY_TYPES"
  shows "tags_ok s' \<and> transport s' = transport s \<and> (\<forall>e. has_key e (consumer_tags s) \<longrightarrow> has_key e (consumer_tags s')) \<and>
    completed_files s' \<subseteq> completed_files s \<and>
    (ok \<longrightarrow> (\<forall>e \<in> set es. has_key e (queues s) \<longrightarrow> has_key e (consumer_tags s') \<and>
       (has_key e pending \<longrightarrow> has_key e (consumer_tags s) \<or> e \<notin> completed_files s')))"
  using assms
proof (induction es arbitrary: s)
  case Nil
  then show ?case by simp
next
  case (Cons e es)
  show ?case
  proof (cases "has_key e (queues s) \<and> \<not> has_key e (consumer_tags s)")
    case False
    with Cons show ?thesis by auto
  next
    case True
    show ?thesis
    proof (cases "re_consume R e")
      case None
      with Cons.prems True show ?thesis by simp
    next
      case (Some tag)
      let ?s1 = "register_consumer e tag s"
      let ?s2 = "if has_key e pending then ?s1\<lparr>completed_files := completed_files ?s1 - {e}\<rparr> else ?s1"
      define s3 where "s3 = ?s2\<lparr>last_message_time := (last_message_time ?s2)(e := re_now R e)\<rparr>"
      have "tags_ok ?s1"
        using Cons.prems True by (intro tags_ok_register) (auto simp: has_key_def)
      then have ok3: "tags_ok s3" unfolding s3_def by (rule tags_ok_cong) simp_all
      have rest: "start_consumers R pending es s3 = (ok, s')" using Cons.prems(1) True Some by (simp add: Let_def s3_def)
      have frame: "transport s3 = transport s" "completed_files s3 \<subseteq> completed_files s" "queues s3 = queues s"
        "active_connection s3" "\<And>x. has_key x (consumer_tags s3) \<longleftrightarrow> x = e \<or> has_key x (consumer_tags s)"
        "has_key e pending \<longrightarrow> e \<notin> completed_files s3"
        using Cons.prems(3) by (auto simp: transport_def register_consumer_def has_key_update s3_def)
      have sub: "set es \<subseteq> set ENTITY_TYPES" using Cons.prems(4) by simp
      note IH = Cons.IH [OF rest ok3 frame(4) sub]
      have "has_key e (consumer_tags s')" and "has_key e pending \<longrightarrow> e \<notin> completed_files s'"
        using IH frame(5,6) by blast+
      with IH frame show ?thesis unfolding list.set by (metis insert_iff subset_trans)
    qed
  qed
qed

lemma fold_cancel_task:
  "tasks (fold (\<lambda>(e, i) u. cancel_task i u) d s) =
     map (\<lambda>t. if t_id t \<in> snd ` set d then t\<lparr>t_cancelled := True\<rparr> else t) (tasks s)"
proof (induction d arbitrary: s)
  case (Cons x d)
  obtain e i where x: "x = (e, i)" by fastforce
  have "tasks (fold (\<lambda>(e, i) u. cancel_task i u) (x # d) s) =
      map (\<lambda>t. if t_id t \<in> snd ` set d then t\<lparr>t_cancelled := True\<rparr> else t)
        (map (\<lambda>t. if t_id t = i then t\<lparr>t_cancelled := True\<rparr> else t) (tasks s))"
    by (simp only: fold_simps comp_def x prod.case Cons.IH) (simp add: cancel_task_def)
  also have "\<dots> = map (\<lambda>t. if t_id t \<in> snd ` set (x # d) then t\<lparr>t_cancelled := True\<rparr> else t) (tasks s)"
    by (simp add: x)
  finally show ?case .
qed simp

lemma drop_timers_frame: "\<exists>ts. drop_timers s = s\<lparr>tasks := ts, consumer_cancel_tasks := []\<rparr>"
proof -
  have "\<exists>ts. fold (\<lambda>(e, i) u. cancel_task i u) d s = s\<lparr>tasks := ts\<rparr>" for d :: "(string \<times> nat) list"
  proof (induction d arbitrary: s)
    case Nil
    show ?case by (intro exI [of _ "tasks s"]) simp
  next
    case (Cons x d)
    obtain e i where x: "x = (e, i)" by fastforce
    from Cons.IH [of "cancel_task i s"] show ?case by (auto simp: x cancel_task_def)
  qed
  then obtain ts where "fold (\<lambda>(e, i) u. cancel_task i u) (consumer_cancel_tasks s) s = s\<lparr>tasks := ts\<rparr>" by blast
  then show ?thesis unfolding drop_timers_def by (intro exI [of _ ts]) simp
qed

lemma restart_run:
  assumes "restart_consumers R s = (ok, s')" and ok: "tags_ok s" and empty: "consumer_tags s = []"
  shows "tags_ok s'" and "consumer_cancel_tasks s' = consumer_cancel_tasks s" and "tasks s' = tasks s"
    and "next_task s' = next_task s" and "consumer_recovery_requested s' = consumer_recovery_requested s"
    and "shutdown_requested s' = shutdown_requested s"
    and "ok \<Longrightarrow> probe_queues (re_backlog R) ENTITY_TYPES = Some [] \<and> s' = s \<or>
      (\<exists>pending. probe_queues (re_backlog R) ENTITY_TYPES = Some pending \<and> pending \<noteq> [] \<and>
         active_connection s' \<and> active_channel s' \<and>
         (\<forall>e \<in> set ENTITY_TYPES. has_key e (consumer_tags s') \<and> (has_key e pending \<longrightarrow> e \<notin> completed_files s')))"
proof -
  define r where "r = (\<lambda>u :: svc. (consumer_cancel_tasks u, tasks u, next_task u, consumer_recovery_requested u, shutdown_requested u))"
  have "tags_ok s' \<and> r s' = r s \<and> (ok \<longrightarrow> probe_queues (re_backlog R) ENTITY_TYPES = Some [] \<and> s' = s \<or>
      (\<exists>pending. probe_queues (re_backlog R) ENTITY_TYPES = Some pending \<and> pending \<noteq> [] \<and>
         active_connection s' \<and> active_channel s' \<and>
         (\<forall>e \<in> set ENTITY_TYPES. has_key e (consumer_tags s') \<and> (has_key e pending \<longrightarrow> e \<notin> completed_files s'))))"
  proof (cases "probe_queues (re_backlog R) ENTITY_TYPES")
    case None
    with assms show ?thesis by (simp add: restart_consumers_def)
  next
    case (Some pending)
    show ?thesis
    proof (cases "pending = []")
      case True
      with Some assms show ?thesis by (simp add: restart_consumers_def)
    next
      case False
      define s1 where "s1 = s\<lparr>active_connection := True, active_channel := True, connection_consumer_tags := [],
                   consumer_watch_started_at := re_start R\<rparr>"
      have ok1: "tags_ok s1" using ok empty by (simp add: tags_ok_def s1_def map_le_def)
      obtain d s2 where dq: "declare_queues (re_declare R) ENTITY_TYPES (s1\<lparr>queues := []\<rparr>) = (d, s2)" by fastforce
      obtain k s3 where sc: "start_consumers R pending ENTITY_TYPES s2 = (k, s3)" by fastforce
      have run: "restart_consumers R s = (if \<not> re_qos R then (False, s1) else if \<not> d then (False, s2)
          else if \<not> k then (False, s3) else (True, s3\<lparr>idle_mode := False\<rparr>))"
        using Some False dq sc by (cases pending) (simp_all add: restart_consumers_def Let_def s1_def)
      obtain qs where qs: "s2 = s1\<lparr>queues := qs\<rparr>" "d \<longrightarrow> (\<forall>e \<in> set ENTITY_TYPES. has_key e qs)"
        using declare_queues_frame [OF dq] by auto
      have ok2: "tags_ok s2" and con: "active_connection s2" and "consumer_tags s2 = []"
        using tags_ok_cong [OF ok1, of s2] empty by (simp_all add: qs(1) s1_def)
      note started = start_consumers_run [OF sc ok2 con subset_refl]
      have trans: "transport s3 = (True, True, consumer_recovery_requested s, consumer_cancel_tasks s, tasks s,
          next_task s, qs, shutdown_requested s)"
        using started by (simp add: transport_def qs(1) s1_def)
      have flags: "r s3 = r s" "active_connection s3" "active_channel s3"
        using trans unfolding transport_def r_def prod.inject by blast+
      have early: "r s1 = r s" "r s2 = r s" unfolding qs(1) by (simp_all add: r_def s1_def)
      have ok4: "tags_ok (s3\<lparr>idle_mode := False\<rparr>)" by (rule tags_ok_cong [of s3]) (use started in blast, simp_all)
      have ok3: "tags_ok s3" using started by blast
      have all: "has_key e (consumer_tags s3) \<and> (has_key e pending \<longrightarrow> e \<notin> completed_files s3)"
        if "d" "k" "e \<in> set ENTITY_TYPES" for e
      proof -
        have "has_key e (queues s2)" using qs that by simp
        moreover have "\<not> has_key e (consumer_tags s2)" by (simp add: has_key_def \<open>consumer_tags s2 = []\<close>)
        ultimately show ?thesis using started that(2,3) by blast
      qed
      show ?thesis
      proof (cases "re_qos R \<and> d \<and> k")
        case True
        then have "ok" "s' = s3\<lparr>idle_mode := False\<rparr>" using assms(1) unfolding run by simp_all
        moreover have "r (s3\<lparr>idle_mode := False\<rparr>) = r s" using flags(1) by (simp add: r_def)
        moreover have "\<forall>e \<in> set ENTITY_TYPES. has_key e (consumer_tags s3) \<and> (has_key e pending \<longrightarrow> e \<notin> completed_files s3)"
          using all True by blast
        moreover note ok4 flags(2,3) Some \<open>pending \<noteq> []\<close>
        ultimately show ?thesis by simp
      next
        case False
        then have "\<not> ok" "s' \<in> {s1, s2, s3}" using assms(1) unfolding run by (auto split: if_splits)
        with ok1 ok2 ok3 flags(1) early show ?thesis by auto
      qed
    qed
  qed
  then show "tags_ok s'" and "consumer_cancel_tasks s' = consumer_cancel_tasks s" and "tasks s' = tasks s"
    and "next_task s' = next_task s" and "consumer_recovery_requested s' = consumer_recovery_requested s"
    and "shutdown_requested s' = shutdown_requested s"
    and "ok \<Longrightarrow> probe_queues (re_backlog R) ENTITY_TYPES = Some [] \<and> s' = s \<or>
      (\<exists>pending. probe_queues (re_backlog R) ENTITY_TYPES = Some pending \<and> pending \<noteq> [] \<and>
         active_connection s' \<and> active_channel s' \<and>
         (\<forall>e \<in> set ENTITY_TYPES. has_key e (consumer_tags s') \<and> (has_key e pending \<longrightarrow> e \<notin> completed_files s')))"
    by (simp_all add: r_def)
qed

lemma close_frame:
  "consumer_cancel_tasks (close_rabbitmq_connection a b s) = consumer_cancel_tasks s"
  "tasks (close_rabbitmq_connection a b s) = tasks s" "next_task (close_rabbitmq_connection a b s) = next_task s"
  "shutdown_requested (close_rabbitmq_connection a b s) = shutdown_requested s"
  "completed_files (close_rabbitmq_connection a b s) = completed_files s"
  "consumer_recovery_requested s \<Longrightarrow> consumer_recovery_requested (close_rabbitmq_connection a b s)"
  by (simp_all add: close_rabbitmq_connection_def Let_def)

text \<open>A recovery run: the old transport could not be dropped, or the run goes on from a state without transport.\<close>

lemma recover_cases:
  assumes ok: "tags_ok s"
  obtains (stuck) "consumer_recovery_requested (recover_consumers R s)" "tags_ok (recover_consumers R s)"
      "\<exists>a b. recover_consumers R s = close_rabbitmq_connection a b s"
  | (offline) u where "tags_ok u" "consumer_tags u = []" "\<not> active_connection u" "\<not> active_channel u"
      "consumer_cancel_tasks u = []" "tasks u = tasks (drop_timers s)" "next_task u = next_task s"
      "shutdown_requested u = shutdown_requested s" "completed_files u = completed_files s"
      "\<not> re_connects R" "recover_consumers R s = u\<lparr>consumer_recovery_requested := True\<rparr>"
  | (recovered) u s3 where "tags_ok u" "consumer_tags u = []" "\<not> active_connection u" "\<not> active_channel u"
      "\<not> consumer_recovery_requested u" "consumer_cancel_tasks u = []" "tasks u = tasks (drop_timers s)" "next_task u = next_task s"
      "shutdown_requested u = shutdown_requested s" "completed_files u = completed_files s"
      "restart_consumers R u = (True, s3)" "recover_consumers R s = s3"
  | (failed) u s3 where "tags_ok u" "consumer_tags u = []" "\<not> active_connection u" "\<not> active_channel u"
      "consumer_cancel_tasks u = []" "tasks u = tasks (drop_timers s)" "next_task u = next_task s"
      "shutdown_requested u = shutdown_requested s"
      "restart_consumers R u = (False, s3)" "recover_consumers R s =
         close_rabbitmq_connection (re_teardown_channel R) (re_teardown_connection R)
           (s3\<lparr>consumer_recovery_requested := True, active_connection := True, active_channel := True, queues := []\<rparr>)"
proof -
  define s1 where "s1 = (if active_connection s \<or> active_channel s
      then close_rabbitmq_connection (re_close_channel R) (re_close_connection R) s else s)"
  have ok1: "tags_ok s1" using ok tags_ok_close by (simp add: s1_def)
  show thesis
  proof (cases "active_connection s1 \<or> active_channel s1")
    case True
    then have had: "active_connection s \<or> active_channel s" by (auto simp: s1_def split: if_splits)
    then have run: "recover_consumers R s = s1" using True by (simp add: recover_consumers_def Let_def s1_def)
    moreover have "consumer_recovery_requested s1"
      using close_outcome [of s1 "re_close_channel R" "re_close_connection R" s] had True by (auto simp: s1_def)
    ultimately show ?thesis using ok1 had by (intro stuck) (auto simp: s1_def)
  next
    case False
    obtain ts where ts: "drop_timers s1 = s1\<lparr>tasks := ts, consumer_cancel_tasks := []\<rparr>" using drop_timers_frame by blast
    define u where "u = (drop_timers s1)\<lparr>consumer_recovery_requested := False\<rparr>"
    have same: "tasks (drop_timers s1) = tasks (drop_timers s)"
      by (simp add: drop_timers_def fold_cancel_task) (simp add: s1_def close_frame)
    have s1: "consumer_tags s1 = []" "next_task s1 = next_task s" "shutdown_requested s1 = shutdown_requested s"
      "completed_files s1 = completed_files s"
      using ok1 False unfolding tags_ok_def by (blast, simp_all add: s1_def close_frame)
    have "tags_ok u" unfolding u_def ts by (rule tags_ok_cong [OF ok1]) simp_all
    then have u: "tags_ok u" "consumer_tags u = []" "\<not> active_connection u" "\<not> active_channel u" "\<not> consumer_recovery_requested u"
      "consumer_cancel_tasks u = []" "tasks u = tasks (drop_timers s)" "next_task u = next_task s"
      "shutdown_requested u = shutdown_requested s" "completed_files u = completed_files s"
      using False s1 same by (simp_all add: u_def ts)
    have run: "recover_consumers R s = (if \<not> re_connects R then u\<lparr>consumer_recovery_requested := True\<rparr>
        else let (k, s3) = restart_consumers R u in if k then s3
          else close_rabbitmq_connection (re_teardown_channel R) (re_teardown_connection R)
            (s3\<lparr>consumer_recovery_requested := True, active_connection := True, active_channel := True, queues := []\<rparr>))"
      using False by (simp add: recover_consumers_def Let_def s1_def [symmetric] u_def)
    obtain k s3 where k: "restart_consumers R u = (k, s3)" by fastforce
    show ?thesis
    proof (cases "re_connects R")
      case False
      with run u show ?thesis by (intro offline) auto
    next
      case True
      show ?thesis
      proof (cases k)
        case True
        with \<open>re_connects R\<close> run u k show ?thesis by (intro recovered) auto
      next
        case False
        with \<open>re_connects R\<close> run u k show ?thesis by (intro failed) auto
      qed
    qed
  qed
qed

section \<open>Cancellation timers\<close>

text \<open>
  At most one live timer per data type: a task that was not cancelled is the one registered for its
  data type, and a registered timer is a live task.
\<close>

definition timers_ok :: "svc \<Rightarrow> bool" where
  "timers_ok s \<longleftrightarrow> distinct (map t_id (tasks s)) \<and> (\<forall>t \<in> set (tasks s). t_id t < next_task s) \<and>
     (\<forall>t \<in> set (tasks s). \<not> t_cancelled t \<longrightarrow> map_of (consumer_cancel_tasks s) (t_type t) = Some (t_id t)) \<and>
     (\<forall>e i. map_of (consumer_cancel_tasks s) e = Some i \<longrightarrow>
        (\<exists>t \<in> set (tasks s). t_id t = i \<and> t_type t = e \<and> \<not> t_cancelled t))"

lemma timers_ok_cong:
  assumes "timers_ok s" and "consumer_cancel_tasks s' = consumer_cancel_tasks s" "tasks s' = tasks s" "next_task s' = next_task s"
  shows "timers_ok s'"
  using assms by (simp add: timers_ok_def)

lemma timers_okD:
  assumes "timers_ok s"
  shows registered_live: "map_of (consumer_cancel_tasks s) e = Some i \<Longrightarrow>
      \<exists>t \<in> set (tasks s). t_id t = i \<and> t_type t = e \<and> \<not> t_cancelled t"
    and live_registered: "t \<in> set (tasks s) \<Longrightarrow> \<not> t_cancelled t \<Longrightarrow>
      map_of (consumer_cancel_tasks s) (t_type t) = Some (t_id t)"
    and task_unique: "t \<in> set (tasks s) \<Longrightarrow> u \<in> set (tasks s) \<Longrightarrow> t_id t = t_id u \<Longrightarrow> t = u"
    and task_id: "t \<in> set (tasks s) \<Longrightarrow> t_id t < next_task s"
    and task_ids: "distinct (map t_id (tasks s))"
  using assms unfolding timers_ok_def by (blast, blast, metis distinct_map inj_onD, blast, blast)

text \<open>Cancelling the registered timer of a data type and dropping the registration.\<close>

lemma timers_ok_drop:
  assumes ok: "timers_ok s" and reg: "map_of (consumer_cancel_tasks s) e = Some i"
    and s': "consumer_cancel_tasks s' = AList.delete e (consumer_cancel_tasks s)" "next_task s' = next_task s"
      "tasks s' = map (\<lambda>t. if t_id t = i then t\<lparr>t_cancelled := True\<rparr> else t) (tasks s)"
  shows "timers_ok s'"
proof -
  obtain t0 where t0: "t0 \<in> set (tasks s)" "t_id t0 = i" "t_type t0 = e" "\<not> t_cancelled t0"
    using registered_live [OF ok reg] by blast
  have unique: "t = t0" if "t \<in> set (tasks s)" "t_id t = i" for t
    using task_unique [OF ok] that t0 by blast
  have ids: "map t_id (tasks s') = map t_id (tasks s)" by (simp add: s')
  have live: "map_of (consumer_cancel_tasks s') (t_type t) = Some (t_id t)"
    if "t \<in> set (tasks s')" "\<not> t_cancelled t" for t
  proof -
    from that obtain u where u: "u \<in> set (tasks s)" "t = u" "t_id u \<noteq> i" by (auto simp: s' split: if_splits)
    then have "map_of (consumer_cancel_tasks s) (t_type u) = Some (t_id u)" using live_registered [OF ok] that by simp
    with reg u(3) have "t_type u \<noteq> e" by auto
    with \<open>map_of (consumer_cancel_tasks s) (t_type u) = Some (t_id u)\<close> show ?thesis by (simp add: u(2) s')
  qed
  have registered: "\<exists>t \<in> set (tasks s'). t_id t = j \<and> t_type t = e' \<and> \<not> t_cancelled t"
    if "map_of (consumer_cancel_tasks s') e' = Some j" for e' j
  proof -
    from that have ne: "e' \<noteq> e" and "map_of (consumer_cancel_tasks s) e' = Some j"
      by (auto simp: s' delete_conv' split: if_splits)
    then obtain t where t: "t \<in> set (tasks s)" "t_id t = j" "t_type t = e'" "\<not> t_cancelled t"
      using registered_live [OF ok] by blast
    with unique t0 ne have "j \<noteq> i" by blast
    with t show ?thesis by (auto simp: s' intro!: bexI [of _ t] image_eqI [of _ _ t])
  qed
  show ?thesis
  proof -
    have "\<forall>t \<in> set (tasks s'). t_id t < next_task s'" using task_id [OF ok] by (auto simp: s')
    then show ?thesis using task_ids [OF ok] live registered unfolding timers_ok_def ids by blast
  qed
qed

lemma timers_ok_add:
  assumes ok: "timers_ok s" and free: "map_of (consumer_cancel_tasks s) e = None"
    and s': "tasks s' = tasks s @ [\<lparr>t_id = next_task s, t_type = e, t_phase = Sleeping, t_cancelled = False\<rparr>]"
      "next_task s' = next_task s + 1" "\<And>x. map_of (consumer_cancel_tasks s') x = ((map_of (consumer_cancel_tasks s))(e \<mapsto> next_task s)) x"
  shows "timers_ok s'"
proof -
  have "t_id t \<noteq> next_task s" if "t \<in> set (tasks s)" for t using ok that by (auto simp: timers_ok_def)
  then have "distinct (map t_id (tasks s'))" using ok by (auto simp: timers_ok_def s')
  moreover have "\<forall>t \<in> set (tasks s'). t_id t < next_task s'" using ok by (auto simp: timers_ok_def s')
  moreover have "map_of (consumer_cancel_tasks s') (t_type t) = Some (t_id t)" if "t \<in> set (tasks s')" "\<not> t_cancelled t" for t
    using ok free that by (auto simp: timers_ok_def s')
  moreover have "\<exists>t \<in> set (tasks s'). t_id t = j \<and> t_type t = e' \<and> \<not> t_cancelled t"
    if "map_of (consumer_cancel_tasks s') e' = Some j" for e' j
    using ok that by (cases "e' = e") (auto simp: timers_ok_def s')
  ultimately show ?thesis unfolding timers_ok_def by blast
qed

lemma timers_ok_schedule:
  assumes "timers_ok s" shows "timers_ok (schedule_consumer_cancellation e s)"
proof (cases "map_of (consumer_cancel_tasks s) e")
  case None
  show ?thesis
    by (rule timers_ok_add [OF assms None]) (simp_all add: schedule_consumer_cancellation_def None Let_def update_conv')
next
  case (Some i)
  let ?s = "(cancel_task i s)\<lparr>consumer_cancel_tasks := AList.delete e (consumer_cancel_tasks s)\<rparr>"
  have "timers_ok ?s" by (rule timers_ok_drop [OF assms Some]) (simp_all add: cancel_task_def)
  then show ?thesis
    by (rule timers_ok_add)
      (auto simp: schedule_consumer_cancellation_def Some Let_def update_conv' delete_conv' cancel_task_def)
qed

lemma timers_ok_rearm:
  assumes "timers_ok s" shows "timers_ok (rearm e s)"
proof (cases "map_of (consumer_cancel_tasks s) e")
  case None
  then show ?thesis by (simp add: rearm_def) (rule timers_ok_cong [OF assms], simp_all)
next
  case (Some i)
  show ?thesis by (rule timers_ok_drop [OF assms Some]) (simp_all add: rearm_def Some cancel_task_def)
qed

text \<open>A task ends: it leaves the tasks, and its registration when it is the registered one.\<close>

lemma timers_ok_end:
  assumes ok: "timers_ok s" and t: "t \<in> set (tasks s)" shows "timers_ok (end_task t s)"
proof -
  let ?s = "end_task t s"
  have tasks: "tasks ?s = filter (\<lambda>u. t_id u \<noteq> t_id t) (tasks s)" "next_task ?s = next_task s"
    by (simp_all add: end_task_def Let_def)
  have cct: "map_of (consumer_cancel_tasks ?s) = (if map_of (consumer_cancel_tasks s) (t_type t) = Some (t_id t)
      then (map_of (consumer_cancel_tasks s))(t_type t := None) else map_of (consumer_cancel_tasks s))"
    by (simp add: end_task_def Let_def delete_conv')
  have unique: "u = t" if "u \<in> set (tasks s)" "t_id u = t_id t" for u
    using task_unique [OF ok] that t by blast
  have live: "map_of (consumer_cancel_tasks ?s) (t_type u) = Some (t_id u)" if "u \<in> set (tasks ?s)" "\<not> t_cancelled u" for u
    using ok that by (auto simp: timers_ok_def tasks cct)
  have reg: "\<exists>u \<in> set (tasks ?s). t_id u = j \<and> t_type u = e \<and> \<not> t_cancelled u"
    if m: "map_of (consumer_cancel_tasks ?s) e = Some j" for e j
  proof -
    from m have m1: "map_of (consumer_cancel_tasks s) e = Some j" by (auto simp: cct split: if_splits)
    then obtain u where u: "u \<in> set (tasks s)" "t_id u = j" "t_type u = e" "\<not> t_cancelled u"
      using registered_live [OF ok] by blast
    have "j \<noteq> t_id t"
    proof
      assume "j = t_id t"
      with u unique have "u = t" by simp
      with m m1 u show False by (simp add: cct split: if_splits)
    qed
    with u show ?thesis by (auto simp: tasks)
  qed
  have "distinct (map t_id (tasks ?s))" using ok by (simp add: timers_ok_def tasks distinct_map_filter)
  moreover have "\<forall>u \<in> set (tasks ?s). t_id u < next_task ?s" using ok by (simp add: timers_ok_def tasks)
  ultimately show ?thesis using live reg unfolding timers_ok_def by blast
qed

section \<open>The invariant\<close>

definition svc_ok :: "svc \<Rightarrow> bool" where
  "svc_ok s \<longleftrightarrow> tags_ok s \<and> timers_ok s"

text \<open>What leaves both parts alone.\<close>

definition same_books :: "svc \<Rightarrow> svc \<Rightarrow> bool" where
  "same_books s s' \<longleftrightarrow> consumer_tags s' = consumer_tags s \<and> consumer_gauge s' = consumer_gauge s \<and>
     active_connection s' = active_connection s \<and> active_channel s' = active_channel s \<and>
     connection_consumer_tags s' = connection_consumer_tags s \<and> consumer_cancel_tasks s' = consumer_cancel_tasks s \<and>
     tasks s' = tasks s \<and> next_task s' = next_task s"

lemma svc_ok_same: "svc_ok s \<Longrightarrow> same_books s s' \<Longrightarrow> svc_ok s'"
  unfolding svc_ok_def same_books_def by (blast intro: tags_ok_cong timers_ok_cong)

lemma tags_frames:
  "tags_ok s \<Longrightarrow> tags_ok (schedule_consumer_cancellation e s)"
  "tags_ok s \<Longrightarrow> tags_ok (rearm e s)"
  "tags_ok s \<Longrightarrow> tags_ok (end_task t s)"
proof -
  assume ok: "tags_ok s"
  show "tags_ok (schedule_consumer_cancellation e s)"
    by (rule tags_ok_cong [OF ok]) (simp_all add: schedule_consumer_cancellation_def Let_def cancel_task_def split: option.split)
  show "tags_ok (rearm e s)"
    by (rule tags_ok_cong [OF ok]) (simp_all add: rearm_def Let_def cancel_task_def split: option.split)
  show "tags_ok (end_task t s)"
    by (rule tags_ok_cong [OF ok]) (simp_all add: end_task_def Let_def)
qed

lemma cancel_consumer_frame:
  "consumer_cancel_tasks (snd (cancel_consumer e tag q answer s)) = consumer_cancel_tasks s"
  "tasks (snd (cancel_consumer e tag q answer s)) = tasks s" "next_task (snd (cancel_consumer e tag q answer s)) = next_task s"
  "shutdown_requested (snd (cancel_consumer e tag q answer s)) = shutdown_requested s"
  "completed_files (snd (cancel_consumer e tag q answer s)) = completed_files s"
  by (simp_all add: cancel_consumer_def)

lemma timers_frames:
  "timers_ok s \<Longrightarrow> timers_ok (snd (cancel_consumer e tag q answer s))"
  "timers_ok s \<Longrightarrow> timers_ok (close_rabbitmq_connection a b s)"
proof -
  assume ok: "timers_ok s"
  show "timers_ok (snd (cancel_consumer e tag q answer s))"
    by (rule timers_ok_cong [OF ok]) (rule cancel_consumer_frame)+
  show "timers_ok (close_rabbitmq_connection a b s)"
    by (rule timers_ok_cong [OF ok]) (rule close_frame)+
qed

lemma svc_ok_building:
  "svc_ok s \<Longrightarrow> svc_ok (schedule_consumer_cancellation e s)" "svc_ok s \<Longrightarrow> svc_ok (rearm e s)"
  "svc_ok s \<Longrightarrow> svc_ok (snd (cancel_consumer e tag q answer s))"
  "svc_ok s \<Longrightarrow> svc_ok (close_rabbitmq_connection a b s)"
  "svc_ok s \<Longrightarrow> t \<in> set (tasks s) \<Longrightarrow> svc_ok (end_task t s)"
  by (simp_all add: svc_ok_def tags_frames timers_frames timers_ok_schedule timers_ok_rearm timers_ok_end
    tags_ok_cancel tags_ok_close)

lemma svc_ok_check_file_completion:
  assumes "check_file_completion S kind e s = (b, s')" and ok: "svc_ok s" shows "svc_ok s'"
proof -
  have mark: "svc_ok (u\<lparr>completed_files := f\<rparr>)" if "svc_ok u" for u f
    by (rule svc_ok_same [OF that]) (simp add: same_books_def)
  have sched: "svc_ok (if c then schedule_consumer_cancellation e u else u)" if "svc_ok u" for u c
    using svc_ok_building(1) [OF that] that by simp
  show ?thesis
    using assms(1) ok by (auto simp: check_file_completion_def Let_def split: if_splits intro: mark sched svc_ok_building(1))
qed

lemma svc_ok_timer_fires:
  assumes ok: "svc_ok s" and t: "t \<in> set (tasks s)" shows "svc_ok (timer_fires t s)"
proof (cases "map_of (consumer_tags s) (t_type t)")
  case None
  then show ?thesis using svc_ok_building(5) [OF ok t] by (simp add: timer_fires_def)
next
  case (Some tag)
  let ?f = "\<lambda>u. if t_id u = t_id t then u\<lparr>t_phase := Cancelling tag\<rparr> else u"
  let ?s = "s\<lparr>tasks := map ?f (tasks s)\<rparr>"
  have f: "t_id (?f u) = t_id u" "t_type (?f u) = t_type u" "t_cancelled (?f u) = t_cancelled u" for u by simp_all
  have ids: "map t_id (map ?f (tasks s)) = map t_id (tasks s)" by simp
  have ok': "timers_ok s" using ok by (simp add: svc_ok_def)
  have "timers_ok ?s"
    unfolding timers_ok_def
  proof (intro conjI allI impI)
    have "tasks ?s = map ?f (tasks s)" by simp
    then show "distinct (map t_id (tasks ?s))" using task_ids [OF ok'] ids by (simp only:)
    show "\<forall>u \<in> set (tasks ?s). t_id u < next_task ?s" using task_id [OF ok'] t by auto
    show "\<forall>u \<in> set (tasks ?s). \<not> t_cancelled u \<longrightarrow> map_of (consumer_cancel_tasks ?s) (t_type u) = Some (t_id u)"
    proof (intro ballI impI)
      fix v assume "v \<in> set (tasks ?s)" "\<not> t_cancelled v"
      then obtain u where "u \<in> set (tasks s)" "v = ?f u" "\<not> t_cancelled u" using f(3) by auto
      then show "map_of (consumer_cancel_tasks ?s) (t_type v) = Some (t_id v)"
        using live_registered [OF ok', of u] f by simp
    qed
    fix e i assume "map_of (consumer_cancel_tasks ?s) e = Some i"
    then obtain u where "u \<in> set (tasks s)" "t_id u = i" "t_type u = e" "\<not> t_cancelled u"
      using registered_live [OF ok', of e i] by auto
    then show "\<exists>u \<in> set (tasks ?s). t_id u = i \<and> t_type u = e \<and> \<not> t_cancelled u"
      using f [of u] by (intro bexI [of _ "?f u"]) auto
  qed
  moreover have "tags_ok ?s" using ok by - (rule tags_ok_cong [of s], simp_all add: svc_ok_def)
  ultimately show ?thesis using Some by (simp add: timer_fires_def svc_ok_def)
qed

lemma svc_ok_timer_answered:
  assumes ok: "svc_ok s" and t: "t \<in> set (tasks s)" shows "svc_ok (timer_answered t tag answer a b s)"
proof -
  let ?s1 = "snd (cancel_consumer (t_type t) tag True answer s)"
  have "svc_ok ?s1" "t \<in> set (tasks ?s1)" "svc_ok (close_rabbitmq_connection a b ?s1)"
    "t \<in> set (tasks (close_rabbitmq_connection a b ?s1))"
    using svc_ok_building(3,4) ok t by (simp_all add: cancel_consumer_frame close_frame)
  then show ?thesis
    by (auto simp: timer_answered_def Let_def split: prod.split intro: svc_ok_building(5))
qed

lemma svc_ok_timer_cancelled:
  assumes ok: "svc_ok s" and t: "t \<in> set (tasks s)" shows "svc_ok (timer_cancelled t s)"
  using svc_ok_building(3) [OF ok, of "t_type t" _ True CancelInterrupted] t
  by (auto simp: timer_cancelled_def cancel_consumer_frame split: phase.split intro!: svc_ok_building(5) ok)

lemma timer_cancelled_tasks:
  "tasks (timer_cancelled t s) = filter (\<lambda>u. t_id u \<noteq> t_id t) (tasks s)"
  "shutdown_requested (timer_cancelled t s) = shutdown_requested s"
  "completed_files (timer_cancelled t s) = completed_files s"
  by (simp_all add: timer_cancelled_def end_task_def Let_def cancel_consumer_frame split: phase.split)

text \<open>Interrupting a list of tasks ends each of them.\<close>

lemma interrupt_tasks:
  assumes "svc_ok s" and "set ts \<subseteq> set (tasks s)" and "distinct (map t_id ts)"
  shows "svc_ok (fold timer_cancelled ts s) \<and>
    tasks (fold timer_cancelled ts s) = filter (\<lambda>u. t_id u \<notin> t_id ` set ts) (tasks s)"
  using assms
proof (induction ts arbitrary: s)
  case Nil
  then show ?case by simp
next
  case (Cons t ts)
  have "svc_ok (timer_cancelled t s)" using Cons.prems by (intro svc_ok_timer_cancelled) auto
  moreover have "set ts \<subseteq> set (tasks (timer_cancelled t s))"
    using Cons.prems by (auto simp: timer_cancelled_tasks image_iff)
  ultimately show ?case using Cons.IH Cons.prems(3) by (simp add: timer_cancelled_tasks conj_commute)
qed

lemma svc_ok_interrupt_timers:
  assumes ok: "svc_ok s"
  shows "svc_ok (interrupt_timers s)" and "consumer_cancel_tasks (interrupt_timers s) = []"
    and "t \<in> set (tasks (interrupt_timers s)) \<Longrightarrow> t_cancelled t"
proof -
  let ?ids = "snd ` set (consumer_cancel_tasks s)"
  let ?ts = "filter (\<lambda>t. t_id t \<in> ?ids) (tasks s)"
  have tok: "timers_ok s" using ok by (simp add: svc_ok_def)
  have ids: "distinct (map t_id ?ts)" using task_ids [OF tok] by (rule distinct_map_filter)
  have run: "svc_ok (fold timer_cancelled ?ts s)"
    and rest: "tasks (fold timer_cancelled ?ts s) = filter (\<lambda>u. t_id u \<notin> t_id ` set ?ts) (tasks s)"
    using interrupt_tasks [OF ok _ ids] by auto
  have int: "interrupt_timers s = (fold timer_cancelled ?ts s)\<lparr>consumer_cancel_tasks := []\<rparr>"
    by (simp add: interrupt_timers_def Let_def)
  have cancelled: "t_cancelled t" if "t \<in> set (tasks (fold timer_cancelled ?ts s))" for t
  proof (rule ccontr)
    assume "\<not> t_cancelled t"
    moreover have t: "t \<in> set (tasks s)" "t_id t \<notin> t_id ` set ?ts" using that unfolding rest by auto
    ultimately have "map_of (consumer_cancel_tasks s) (t_type t) = Some (t_id t)" using live_registered [OF tok] by blast
    then have "t_id t \<in> ?ids" by (force dest: map_of_SomeD)
    with t show False by auto
  qed
  show "consumer_cancel_tasks (interrupt_timers s) = []" by (simp add: int)
  show "t_cancelled t" if "t \<in> set (tasks (interrupt_timers s))" using that cancelled by (simp add: int)
  have "timers_ok (interrupt_timers s)"
    using run cancelled unfolding int svc_ok_def timers_ok_def by simp
  moreover have "tags_ok (interrupt_timers s)"
    unfolding int by (rule tags_ok_cong [of "fold timer_cancelled ?ts s"]) (use run in \<open>simp_all add: svc_ok_def\<close>)
  ultimately show "svc_ok (interrupt_timers s)" by (simp add: svc_ok_def)
qed

lemma svc_ok_cancel_all:
  assumes ok: "svc_ok s" shows "svc_ok (cancel_all_consumers answers s)"
proof -
  let ?f = "\<lambda>(e, tag) u. snd (cancel_consumer e tag (has_key e (queues u)) (answers e) u)"
  have "svc_ok (fold ?f d u)" if "svc_ok u" for d u
    using that by (induction d arbitrary: u) (auto intro: svc_ok_building(3))
  then show ?thesis using svc_ok_interrupt_timers(1) [OF ok] by (simp add: cancel_all_consumers_def Let_def)
qed

lemma svc_ok_recover:
  assumes ok: "svc_ok s" shows "svc_ok (recover_consumers R s)"
proof -
  have tags: "tags_ok s" and timers: "timers_ok s" using ok by (simp_all add: svc_ok_def)
  have dropped: "timers_ok u" if "consumer_cancel_tasks u = []" "tasks u = tasks (drop_timers s)" "next_task u = next_task s" for u
  proof -
    have ts: "tasks (drop_timers s) =
        map (\<lambda>t. if t_id t \<in> snd ` set (consumer_cancel_tasks s) then t\<lparr>t_cancelled := True\<rparr> else t) (tasks s)"
      by (simp add: drop_timers_def fold_cancel_task)
    have "t_cancelled t" if "t \<in> set (tasks (drop_timers s))" for t
    proof (rule ccontr)
      assume live: "\<not> t_cancelled t"
      with that have t: "t \<in> set (tasks s)" "t_id t \<notin> snd ` set (consumer_cancel_tasks s)"
        unfolding ts by (auto split: if_splits)
      then have "map_of (consumer_cancel_tasks s) (t_type t) = Some (t_id t)" using live_registered [OF timers] live by blast
      with t(2) show False by (force dest: map_of_SomeD)
    qed
    moreover have "map t_id (tasks (drop_timers s)) = map t_id (tasks s)" by (simp add: ts)
    then have "distinct (map t_id (tasks (drop_timers s)))" using task_ids [OF timers] by (simp only:)
    moreover have "t_id t < next_task s" if "t \<in> set (tasks (drop_timers s))" for t
      using that task_id [OF timers] by (auto simp: ts)
    ultimately show ?thesis using that unfolding timers_ok_def by simp
  qed
  from tags show ?thesis
  proof (cases rule: recover_cases [where R = R])
    case stuck
    then obtain a b where "recover_consumers R s = close_rabbitmq_connection a b s" by blast
    then show ?thesis using svc_ok_building(4) [OF ok] by simp
  next
    case (offline u)
    then show ?thesis
      using dropped [OF offline(5-7)] by - (rule svc_ok_same [of u], simp_all add: svc_ok_def same_books_def)
  next
    case (recovered u s3)
    note run = restart_run [OF recovered(11) recovered(1,2)]
    have "timers_ok s3" by (rule timers_ok_cong [OF dropped [OF recovered(6-8)]]) (simp_all add: run)
    then show ?thesis using run(1) by (simp add: recovered(12) svc_ok_def)
  next
    case (failed u s3)
    note run = restart_run [OF failed(9) failed(1,2)]
    let ?s4 = "s3\<lparr>consumer_recovery_requested := True, active_connection := True, active_channel := True, queues := []\<rparr>"
    have "timers_ok ?s4" by (rule timers_ok_cong [OF dropped [OF failed(5-7)]]) (simp_all add: run)
    moreover have "tags_ok ?s4" using run(1) by (simp add: tags_ok_def)
    ultimately show ?thesis unfolding failed(10) by (intro svc_ok_building(4)) (simp add: svc_ok_def)
  qed
qed

lemma svc_ok_check_queues:
  assumes "check_queues S R now (t0, s) = (t1, s')" and "svc_ok s" shows "svc_ok s'"
  using assms svc_ok_recover [OF assms(2), of R] by (auto simp: check_queues_def split: if_splits)

lemma svc_ok_start: "svc_start s \<Longrightarrow> svc_ok s"
proof (induction rule: svc_start.induct)
  case (1 queue_of tag_of now)
  have reg: "svc_ok (fold (\<lambda>e. register_consumer e (tag_of e)) es u)"
    if "svc_ok u" "active_connection u" "distinct es" "set es \<subseteq> set ENTITY_TYPES"
      "\<forall>e \<in> set es. map_of (consumer_tags u) e = None" for es u
    using that
  proof (induction es arbitrary: u)
    case (Cons e es)
    let ?u = "register_consumer e (tag_of e) u"
    have "tags_ok ?u" using Cons.prems by (intro tags_ok_register) (auto simp: svc_ok_def)
    moreover have "timers_ok ?u"
      using Cons.prems(1) by - (rule timers_ok_cong [of u], simp_all add: svc_ok_def register_consumer_def)
    moreover have "active_connection ?u" "\<forall>e' \<in> set es. map_of (consumer_tags ?u) e' = None"
      using Cons.prems by (auto simp: register_consumer_def update_conv')
    ultimately show ?case using Cons.IH [of ?u] Cons.prems by (simp add: svc_ok_def)
  qed simp
  show ?case
    unfolding start_service_def
    by (rule reg) (simp_all add: svc_ok_def tags_ok_def timers_ok_def initial_svc_def ENTITY_TYPES_def)
qed

lemma svc_ok_step: "svc_step S s s' \<Longrightarrow> svc_ok s \<Longrightarrow> svc_ok s'"
proof (induction rule: svc_step.induct)
  case (control e kind s s')
  then show ?case by (blast intro: svc_ok_check_file_completion)
next
  case (data e s)
  show ?case by (rule svc_ok_building(2) [OF data(2)])
next
  case (settled e s now)
  then show ?case by - (rule svc_ok_same [of s], simp_all add: same_books_def record_delivery_def)
next
  case (fires t s)
  then show ?case by (intro svc_ok_timer_fires)
next
  case (answered t s tag answer a b)
  then show ?case by (intro svc_ok_timer_answered)
next
  case (cancelled t s)
  then show ?case by (intro svc_ok_timer_cancelled)
next
  case (check R now t0 s t1 s')
  then show ?case by (blast intro: svc_ok_check_queues)
next
  case (progress s t0 now)
  then show ?case by - (rule svc_ok_same [of s], simp_all add: same_books_def report_progress_def Let_def)
next
  case (signal s)
  then show ?case by - (rule svc_ok_same [of s], simp_all add: same_books_def signal_handler_def)
next
  case (shutdown s answers)
  then show ?case by (intro svc_ok_cancel_all)
next
  case (close s a b)
  then show ?case by (intro svc_ok_building(4))
qed

interpretation service: inductive_invariant svc_start "svc_step S" svc_ok for S
  by unfold_locales (auto intro: svc_ok_start svc_ok_step)

end
