(* ===== verification/Delivery.thy ===== *)
theory Delivery
  imports Dispatch Lifecycle
begin

text \<open>
  Delivery handling (\<^verbatim>\<open>make_message_handler\<close> in \<^verbatim>\<open>brainzgraphinator.py\<close>): what one delivery does between
  its arrival and the settlement it hands to the shared runner, on the single-record write path
  (\<^verbatim>\<open>NEO4J_BATCH_MODE=false\<close>). The parts around the write, \<open>receive\<close> and \<open>finish\<close>, are common to both
  paths. The parsed body and what the driver does with the transaction are arguments.
\<close>

section \<open>Results and failures\<close>

datatype settlement = ACK | REJECT | REQUEUE | DEFER

record delivery_result =
  dr_settlement :: settlement
  dr_outcome :: string
  dr_error_type :: "string option"

text \<open>How an awaited operation ends: with its value, with an exception, or cancelled.\<close>

datatype 'a ending = Returned 'a | Raised pyerr | Interrupted

fun ending_of :: "'a res \<Rightarrow> 'a ending" where
  "ending_of (Inl e) = Raised e"
| "ending_of (Inr x) = Returned x"

fun transient :: "pyerr \<Rightarrow> bool" where
  "transient ServiceUnavailable = True"
| "transient SessionExpired = True"
| "transient DatabaseUnavailableError = True"
| "transient _ = False"

datatype failure_kind = TRANSIENT | DETERMINISTIC

definition classify_delivery_failure :: "pyerr \<Rightarrow> failure_kind" where
  "classify_delivery_failure e = (if transient e then TRANSIENT else DETERMINISTIC)"

text \<open>\<open>type(e).__name__\<close>.\<close>

fun error_name :: "pyerr \<Rightarrow> string" where
  "error_name TypeError = ''TypeError''"
| "error_name AttributeError = ''AttributeError''"
| "error_name KeyError = ''KeyError''"
| "error_name (ValueError _) = ''ValueError''"
| "error_name (RuntimeError _) = ''RuntimeError''"
| "error_name JSONDecodeError = ''JSONDecodeError''"
| "error_name ServiceUnavailable = ''ServiceUnavailable''"
| "error_name SessionExpired = ''SessionExpired''"
| "error_name DatabaseUnavailableError = ''DatabaseUnavailableError''"
| "error_name (DriverError name) = name"

text \<open>The \<open>except\<close> clauses of \<open>operation\<close>: a known outage escapes, anything else is requeued at once.\<close>

definition fail_with :: "pyerr \<Rightarrow> delivery_result ending" where
  "fail_with e = (if transient e then Raised e
     else Returned \<lparr>dr_settlement = REQUEUE, dr_outcome = ''failed'', dr_error_type = Some (error_name e)\<rparr>)"

section \<open>Transactions\<close>

text \<open>
  \<open>session.execute_write(tx_fn)\<close>: the driver may roll an attempt back and run the function again, which
  leaves the counters of that attempt behind; or give up with an exception; or be cancelled. When
  nothing of the kind happens the attempt commits what the function did, unless it raises.
\<close>

datatype driver_event = Retried stats | GaveUp pyerr | Cancelled

fun execute_write ::
    "(stats \<Rightarrow> graph \<Rightarrow> ('r \<times> stats \<times> graph) res) \<Rightarrow> driver_event list \<Rightarrow> stats \<Rightarrow> graph
      \<Rightarrow> ('r \<times> stats \<times> graph) ending" where
  "execute_write tx_fn [] local g = ending_of (tx_fn local g)"
| "execute_write tx_fn (Retried dirty # ds) local g = execute_write tx_fn ds dirty g"
| "execute_write tx_fn (GaveUp e # ds) local g = Raised e"
| "execute_write tx_fn (Cancelled # ds) local g = Interrupted"

text \<open>\<open>for key in local_stats: local_stats[key] = 0\<close>.\<close>

definition reset_stats :: "stats \<Rightarrow> stats" where
  "reset_stats st = st\<lparr>entities_enriched := 0, entities_skipped_no_discogs_match := 0, relationships_created := 0,
     relationships_updated := 0, relationships_skipped_missing_side := 0, replays_skipped_unchanged := 0\<rparr>"

text \<open>The transaction function of one record, shared by \<open>_write_single\<close> and the replay of the batcher.\<close>

definition single_tx :: "projection \<Rightarrow> obj \<Rightarrow> stats \<Rightarrow> graph \<Rightarrow> (unit \<times> stats \<times> graph) res" where
  "single_tx f body local g =
     rbind (f body (reset_stats local, g)) (\<lambda>(st, g'). Inr ((), st, g'))"

definition DRIVER_MISSING :: pyerr where
  "DRIVER_MISSING = RuntimeError ''Neo4j driver not initialized''"

definition write_single ::
    "bool \<Rightarrow> projection \<Rightarrow> obj \<Rightarrow> driver_event list \<Rightarrow> stats \<Rightarrow> graph \<Rightarrow> (unit \<times> stats \<times> graph) ending" where
  "write_single driver f body ds local g =
     (if \<not> driver then Raised DRIVER_MISSING else execute_write (single_tx f body) ds local g)"

text \<open>\<open>_merge_global_stats\<close>; without \<open>entity_keys\<close> the two \<open>entities_\<close> counters are left alone.\<close>

definition merge_global_stats :: "bool \<Rightarrow> stats \<Rightarrow> stats \<Rightarrow> stats" where
  "merge_global_stats entity_keys local_stats st =
     (let st1 = (if entity_keys
          then st\<lparr>entities_enriched := entities_enriched st + entities_enriched local_stats,
                  entities_skipped_no_discogs_match :=
                    entities_skipped_no_discogs_match st + entities_skipped_no_discogs_match local_stats\<rparr>
          else st)
      in st1\<lparr>relationships_created := relationships_created st1 + relationships_created local_stats,
             relationships_updated := relationships_updated st1 + relationships_updated local_stats,
             relationships_skipped_missing_side :=
               relationships_skipped_missing_side st1 + relationships_skipped_missing_side local_stats,
             replays_skipped_unchanged := replays_skipped_unchanged st1 + replays_skipped_unchanged local_stats\<rparr>)"

section \<open>The handler\<close>

text \<open>
  \<open>operation\<close> up to the write: parse, control messages, re-arming, validation. It ends with a result
  or with the record to write.
\<close>

definition receive ::
    "settings \<Rightarrow> string \<Rightarrow> json res \<Rightarrow> svc \<Rightarrow> (delivery_result ending + obj) \<times> svc" where
  "receive S data_type parsed s = (case parsed of
      Inl e \<Rightarrow> (Inl (fail_with e), s)
    | Inr (JObj body) \<Rightarrow>
        (case check_file_completion S (dget body ''type'') data_type s of
           (True, s1) \<Rightarrow> (Inl (Returned \<lparr>dr_settlement = ACK, dr_outcome = ''control'', dr_error_type = None\<rparr>), s1)
         | (False, s1) \<Rightarrow>
             let s2 = rearm data_type s1 in
             if map_of body ''id'' = None \<or> \<not> truthy (dget body ''id'')
             then (Inl (Returned \<lparr>dr_settlement = REJECT, dr_outcome = ''failed'', dr_error_type = Some ''ValidationError''\<rparr>), s2)
             else if \<not> graph_driver s2 then (Inl (fail_with DRIVER_MISSING), s2)
             else (Inr body, s2))
    | Inr _ \<Rightarrow> (Inl (fail_with AttributeError), s))"

text \<open>\<open>operation\<close> after the write: the counters are merged and the outcome is read off them.\<close>

definition finish :: "stats ending \<Rightarrow> stats \<Rightarrow> delivery_result ending \<times> stats" where
  "finish written st = (case written of
      Raised e \<Rightarrow> (fail_with e, st)
    | Interrupted \<Rightarrow> (Interrupted, st)
    | Returned local_stats \<Rightarrow>
        (Returned \<lparr>dr_settlement = ACK,
                   dr_outcome = (if entities_enriched local_stats > 0 then ''processed'' else ''skipped''),
                   dr_error_type = None\<rparr>,
         merge_global_stats True local_stats st))"

text \<open>The write and what follows it, on the single-record path.\<close>

definition write_and_finish ::
    "bool \<Rightarrow> projection \<Rightarrow> obj \<Rightarrow> driver_event list \<Rightarrow> stats \<Rightarrow> graph \<Rightarrow> delivery_result ending \<times> stats \<times> graph" where
  "write_and_finish driver f body ds st g = (case write_single driver f body ds zero_stats g of
      Returned (_, local_stats, g') \<Rightarrow> (let (result, st') = finish (Returned local_stats) st in (result, st', g'))
    | Raised e \<Rightarrow> (let (result, st') = finish (Raised e) st in (result, st', g))
    | Interrupted \<Rightarrow> (let (result, st') = finish Interrupted st in (result, st', g)))"

record world =
  w_svc :: svc
  w_stats :: stats
  w_graph :: graph

text \<open>The handler on the single-record path, up to what it hands to the shared runner.\<close>

definition operation ::
    "settings \<Rightarrow> projection \<Rightarrow> string \<Rightarrow> json res \<Rightarrow> driver_event list \<Rightarrow> world \<Rightarrow> delivery_result ending \<times> world" where
  "operation S f data_type parsed ds w = (case receive S data_type parsed (w_svc w) of
      (Inl result, s) \<Rightarrow> (result, w\<lparr>w_svc := s\<rparr>)
    | (Inr body, s) \<Rightarrow>
        (let (result, st, g) = write_and_finish (graph_driver s) f body ds (w_stats w) (w_graph w)
         in (result, \<lparr>w_svc = s, w_stats = st, w_graph = g\<rparr>)))"

definition handler ::
    "settings \<Rightarrow> projection \<Rightarrow> string \<Rightarrow> json res \<Rightarrow> driver_event list \<Rightarrow> world \<Rightarrow> delivery_result ending \<times> world" where
  "handler S f data_type parsed ds w =
     (if shutdown_requested (w_svc w)
      then (Returned \<lparr>dr_settlement = DEFER, dr_outcome = ''shutdown'', dr_error_type = None\<rparr>, w)
      else operation S f data_type parsed ds w)"

text \<open>What the observer keeps of a settled delivery; its telemetry has a theory of its own, the outage backoff is not modelled.\<close>

definition settled_delivery :: "delivery_result \<Rightarrow> string \<Rightarrow> int \<Rightarrow> svc \<Rightarrow> svc" where
  "settled_delivery r entity now s =
     (if dr_settlement r = ACK \<and> dr_outcome r \<in> {''processed'', ''skipped''} then record_delivery entity now s else s)"

section \<open>Facts\<close>

lemma reset_stats_zero [simp]: "reset_stats st = zero_stats"
  by (simp add: reset_stats_def zero_stats_def)

lemma merge_global_stats_simps [simp]:
  "entities_enriched (merge_global_stats k l st) = entities_enriched st + (if k then entities_enriched l else 0)"
  "entities_skipped_no_discogs_match (merge_global_stats k l st) =
     entities_skipped_no_discogs_match st + (if k then entities_skipped_no_discogs_match l else 0)"
  "relationships_created (merge_global_stats k l st) = relationships_created st + relationships_created l"
  "relationships_updated (merge_global_stats k l st) = relationships_updated st + relationships_updated l"
  "relationships_skipped_missing_side (merge_global_stats k l st) =
     relationships_skipped_missing_side st + relationships_skipped_missing_side l"
  "replays_skipped_unchanged (merge_global_stats k l st) = replays_skipped_unchanged st + replays_skipped_unchanged l"
  by (simp_all add: merge_global_stats_def Let_def)

text \<open>Whatever attempts the driver made, a committed write is one run of the function on the graph.\<close>

lemma execute_write_Returned:
  "execute_write tx_fn ds local g = Returned (r, st, g') \<Longrightarrow> \<exists>local'. tx_fn local' g = Inr (r, st, g')"
proof (induction ds arbitrary: local)
  case Nil
  then show ?case by (cases "tx_fn local g") auto
next
  case (Cons d ds)
  then show ?case by (cases d) auto
qed

lemma execute_write_Interrupted: "execute_write tx_fn ds local g = Interrupted \<Longrightarrow> Cancelled \<in> set ds"
proof (induction ds arbitrary: local)
  case Nil
  then show ?case by (cases "tx_fn local g") auto
next
  case (Cons d ds)
  then show ?case by (cases d) auto
qed

lemma write_single_Returned:
  assumes "write_single driver f body ds local g = Returned (u, st, g')"
  shows "driver \<and> f body (zero_stats, g) = Inr (st, g')"
proof -
  from assms have "driver" and "execute_write (single_tx f body) ds local g = Returned (u, st, g')"
    by (auto simp: write_single_def split: if_splits)
  with execute_write_Returned show ?thesis by (fastforce simp: single_tx_def res_simps)
qed

text \<open>The ways \<open>receive\<close> can end.\<close>

definition control_message :: "json res \<Rightarrow> bool" where
  "control_message parsed \<longleftrightarrow> (\<exists>body. parsed = Inr (JObj body) \<and>
     dget body ''type'' \<in> {JStr ''file_complete'', JStr ''extraction_complete''})"

definition data_message :: "json res \<Rightarrow> obj \<Rightarrow> bool" where
  "data_message parsed body \<longleftrightarrow> parsed = Inr (JObj body) \<and> \<not> control_message parsed"

definition usable_id :: "obj \<Rightarrow> bool" where
  "usable_id body \<longleftrightarrow> map_of body ''id'' \<noteq> None \<and> truthy (dget body ''id'')"

lemma check_file_completion_kind:
  "fst (check_file_completion S kind e s) \<longleftrightarrow> kind \<in> {JStr ''file_complete'', JStr ''extraction_complete''}"
  by (auto simp: check_file_completion_def Let_def)

lemma check_file_completion_data:
  "kind \<notin> {JStr ''file_complete'', JStr ''extraction_complete''} \<Longrightarrow> check_file_completion S kind e s = (False, s)"
  by (simp add: check_file_completion_def Let_def)

lemma receive_control:
  assumes "control_message parsed"
  shows "\<exists>s1 body. parsed = Inr (JObj body) \<and> check_file_completion S (dget body ''type'') e s = (True, s1) \<and>
    receive S e parsed s = (Inl (Returned \<lparr>dr_settlement = ACK, dr_outcome = ''control'', dr_error_type = None\<rparr>), s1)"
proof -
  from assms obtain body where body: "parsed = Inr (JObj body)"
    "dget body ''type'' \<in> {JStr ''file_complete'', JStr ''extraction_complete''}"
    unfolding control_message_def by blast
  obtain c s1 where run: "check_file_completion S (dget body ''type'') e s = (c, s1)" by fastforce
  with body(2) check_file_completion_kind [of S "dget body ''type''" e s] have "c" by simp
  with run body(1) show ?thesis by (simp add: receive_def)
qed

lemma receive_data:
  assumes "data_message parsed body"
  shows "receive S e parsed s =
    (if \<not> usable_id body
     then Inl (Returned \<lparr>dr_settlement = REJECT, dr_outcome = ''failed'', dr_error_type = Some ''ValidationError''\<rparr>)
     else if \<not> graph_driver s then Inl (fail_with DRIVER_MISSING) else Inr body, rearm e s)"
proof -
  have parsed: "parsed = Inr (JObj body)" and
    "dget body ''type'' \<notin> {JStr ''file_complete'', JStr ''extraction_complete''}"
    using assms by (auto simp: data_message_def control_message_def)
  then have "check_file_completion S (dget body ''type'') e s = (False, s)" by (intro check_file_completion_data)
  moreover have "graph_driver (rearm e s) = graph_driver s"
    by (simp add: rearm_def cancel_task_def Let_def split: option.split)
  ultimately show ?thesis by (simp add: receive_def parsed usable_id_def Let_def)
qed

lemma receive_junk:
  assumes "\<not> control_message parsed" and "\<And>body. \<not> data_message parsed body"
  shows "receive S e parsed s = (Inl (fail_with (case parsed of Inl err \<Rightarrow> err | Inr _ \<Rightarrow> AttributeError)), s)"
proof (cases parsed)
  case (Inr j)
  with assms show ?thesis by (cases j) (auto simp: receive_def data_message_def)
qed (simp add: receive_def)

lemma message_cases:
  obtains "control_message parsed" | body where "data_message parsed body"
  | "\<not> control_message parsed" "\<And>body. \<not> data_message parsed body"
  by blast

lemma fail_with_not_ack: "fail_with e \<noteq> Returned \<lparr>dr_settlement = ACK, dr_outcome = x, dr_error_type = y\<rparr>"
  "fail_with e \<noteq> Returned \<lparr>dr_settlement = REJECT, dr_outcome = x, dr_error_type = y\<rparr>" "fail_with e \<noteq> Interrupted"
  by (simp_all add: fail_with_def)

end
