(* ===== verification/Batcher.thy ===== *)
theory Batcher
  imports Delivery
begin

text \<open>
  The write batcher (\<^verbatim>\<open>WriteBatcher\<close> in \<^verbatim>\<open>brainzgraphinator.py\<close>): deliveries of one data type wait in
  \<open>pending\<close>, a full batch or the linger timer hands them to a flush task, and the flush commits them in
  one transaction or replays them one by one. Futures, timer handles and flush tasks are named by
  numbers; a task runs from one suspension point to the next. The commit lock is held only while a
  flush is \<open>Committing\<close>. What the driver does is an argument of each step.
\<close>

section \<open>State\<close>

datatype future = Waiting | Done "bool ending"

type_synonym batch = "(nat \<times> obj) list"

datatype flush_phase = Queued | Committing | Replaying batch

record flush =
  fl_id :: nat
  fl_batch :: batch
  fl_phase :: flush_phase

record batcher =
  b_loop :: "nat option"
  b_pending :: batch
  b_timer :: "nat option"
  b_handles :: "nat list"
  b_futures :: "nat \<rightharpoonup> future"
  b_flushes :: "flush list"
  b_locked :: bool
  b_next :: nat
  b_stats :: stats
  b_graph :: graph

text \<open>The settings and the collaborators of one batcher.\<close>

record batch_env =
  BATCH_SIZE :: nat
  SERIALIZE_FLUSHES :: bool
  be_driver :: bool
  be_single :: projection
  be_batch :: batch_projection

definition initial_batcher :: "stats \<Rightarrow> graph \<Rightarrow> batcher" where
  "initial_batcher st g = \<lparr>b_loop = None, b_pending = [], b_timer = None, b_handles = [], b_futures = Map.empty,
     b_flushes = [], b_locked = False, b_next = 0, b_stats = st, b_graph = g\<rparr>"

section \<open>Filling a batch\<close>

definition arm_timer :: "batcher \<Rightarrow> batcher" where
  "arm_timer b = b\<lparr>b_timer := Some (b_next b), b_handles := b_next b # b_handles b, b_next := b_next b + 1\<rparr>"

definition stop_timer :: "batcher \<Rightarrow> batcher" where
  "stop_timer b = (case b_timer b of None \<Rightarrow> b
     | Some h \<Rightarrow> b\<lparr>b_timer := None, b_handles := removeAll h (b_handles b)\<rparr>)"

definition waiting :: "batcher \<Rightarrow> nat \<Rightarrow> bool" where
  "waiting b i \<longleftrightarrow> b_futures b i = Some Waiting"

definition flush_now :: "batch_env \<Rightarrow> batcher \<Rightarrow> batcher" where
  "flush_now B b =
     (let b1 = stop_timer b;
          members = filter (\<lambda>x. waiting b1 (fst x)) (take (BATCH_SIZE B) (b_pending b1));
          b2 = b1\<lparr>b_pending := drop (BATCH_SIZE B) (b_pending b1)\<rparr>;
          b3 = (if b_pending b2 \<noteq> [] then arm_timer b2 else b2)
      in if members = [] then b3
         else b3\<lparr>b_flushes := b_flushes b3 @ [\<lparr>fl_id = b_next b3, fl_batch = members, fl_phase = Queued\<rparr>],
                 b_next := b_next b3 + 1\<rparr>)"

text \<open>A batcher used from another event loop forgets the tasks and the timer of the old one.\<close>

definition adopt_loop :: "nat \<Rightarrow> batcher \<Rightarrow> batcher" where
  "adopt_loop loop b = (if b_loop b = Some loop then b
     else b\<lparr>b_loop := Some loop, b_pending := [], b_timer := None, b_flushes := [], b_locked := False\<rparr>)"

definition submit :: "batch_env \<Rightarrow> nat \<Rightarrow> obj \<Rightarrow> batcher \<Rightarrow> batcher" where
  "submit B loop record b =
     (let b1 = adopt_loop loop b;
          b2 = b1\<lparr>b_futures := (b_futures b1)(b_next b1 \<mapsto> Waiting),
                  b_pending := b_pending b1 @ [(b_next b1, record)], b_next := b_next b1 + 1\<rparr>
      in if length (b_pending b2) \<ge> BATCH_SIZE B then flush_now B b2
         else if b_timer b2 = None then arm_timer b2
         else arm_timer (stop_timer b2))"

text \<open>The linger timer calls \<open>_flush_now\<close>.\<close>

definition linger_expires :: "batch_env \<Rightarrow> nat \<Rightarrow> batcher \<Rightarrow> batcher" where
  "linger_expires B h b = flush_now B (b\<lparr>b_handles := removeAll h (b_handles b)\<rparr>)"

text \<open>What \<open>submit\<close> adds to the counters of its own delivery once its future is resolved.\<close>

definition submit_stats :: "bool \<Rightarrow> stats \<Rightarrow> stats" where
  "submit_stats matched st =
     (if matched then st\<lparr>entities_enriched := entities_enriched st + 1\<rparr>
      else st\<lparr>entities_skipped_no_discogs_match := entities_skipped_no_discogs_match st + 1\<rparr>)"

text \<open>The handler after an awaited \<open>submit\<close>.\<close>

definition finish_submitted :: "bool ending \<Rightarrow> stats \<Rightarrow> delivery_result ending \<times> stats" where
  "finish_submitted r st = (case r of
      Returned matched \<Rightarrow> finish (Returned (submit_stats matched zero_stats)) st
    | Raised e \<Rightarrow> finish (Raised e) st
    | Interrupted \<Rightarrow> finish Interrupted st)"

text \<open>
  The handler with batching: the delivery is either settled at once or waits for the future that the
  given number names; \<open>finish_submitted\<close> is the rest.
\<close>

definition operation_batched ::
    "settings \<Rightarrow> batch_env \<Rightarrow> nat \<Rightarrow> string \<Rightarrow> json res \<Rightarrow> svc \<times> batcher \<Rightarrow> (delivery_result ending + nat) \<times> svc \<times> batcher" where
  "operation_batched S B loop data_type parsed x = (case x of (s, b) \<Rightarrow>
     (case receive S data_type parsed s of
        (Inl result, s1) \<Rightarrow> (Inl result, s1, b)
      | (Inr body, s1) \<Rightarrow> (Inr (b_next b), s1, submit B loop body b)))"

section \<open>Flushing a batch\<close>

definition settle :: "nat \<Rightarrow> bool ending \<Rightarrow> batcher \<Rightarrow> batcher" where
  "settle i r b = (if waiting b i then b\<lparr>b_futures := (b_futures b)(i \<mapsto> Done r)\<rparr> else b)"

definition fail_batch :: "batch \<Rightarrow> bool ending \<Rightarrow> batcher \<Rightarrow> batcher" where
  "fail_batch members r = fold (\<lambda>x. settle (fst x) r) members"

definition resolve_batch :: "batch \<Rightarrow> bool list \<Rightarrow> batcher \<Rightarrow> batcher" where
  "resolve_batch members flags = fold (\<lambda>(x, matched). settle (fst x) (Returned matched)) (zip members flags)"

definition end_flush :: "flush \<Rightarrow> batcher \<Rightarrow> batcher" where
  "end_flush fl b = b\<lparr>b_flushes := filter (\<lambda>x. fl_id x \<noteq> fl_id fl) (b_flushes b)\<rparr>"

definition set_phase :: "flush \<Rightarrow> flush_phase \<Rightarrow> batcher \<Rightarrow> batcher" where
  "set_phase fl p b =
     b\<lparr>b_flushes := map (\<lambda>x. if fl_id x = fl_id fl then x\<lparr>fl_phase := p\<rparr> else x) (b_flushes b)\<rparr>"

definition begin_commit :: "batch_env \<Rightarrow> flush \<Rightarrow> batcher \<Rightarrow> batcher" where
  "begin_commit B fl b = (set_phase fl Committing b)\<lparr>b_locked := SERIALIZE_FLUSHES B\<rparr>"

text \<open>\<open>_commit\<close>: every attempt of the transaction starts from fresh counters.\<close>

definition batch_tx :: "batch_projection \<Rightarrow> obj list \<Rightarrow> stats \<Rightarrow> graph \<Rightarrow> (bool list \<times> stats \<times> graph) res" where
  "batch_tx f records local g = f records (zero_stats, g)"

definition commit :: "batch_env \<Rightarrow> batch \<Rightarrow> driver_event list \<Rightarrow> graph \<Rightarrow> (bool list \<times> stats \<times> graph) ending" where
  "commit B members ds g =
     (if \<not> be_driver B then Raised DRIVER_MISSING
      else execute_write (batch_tx (be_batch B) (map snd members)) ds zero_stats g)"

text \<open>\<open>_write\<close> once the commit has ended: settle the members, or go on to the replay.\<close>

definition end_commit :: "batch_env \<Rightarrow> flush \<Rightarrow> driver_event list \<Rightarrow> batcher \<Rightarrow> batcher" where
  "end_commit B fl ds b =
     (let b1 = b\<lparr>b_locked := False\<rparr> in
      case commit B (fl_batch fl) ds (b_graph b1) of
        Returned (flags, st, g) \<Rightarrow>
          end_flush fl (resolve_batch (fl_batch fl) flags
            (b1\<lparr>b_stats := merge_global_stats False st (b_stats b1), b_graph := g\<rparr>))
      | Interrupted \<Rightarrow> end_flush fl (fail_batch (fl_batch fl) Interrupted b1)
      | Raised e \<Rightarrow>
          if transient e \<or> length (fl_batch fl) = 1 then end_flush fl (fail_batch (fl_batch fl) (Raised e) b1)
          else set_phase fl (Replaying (fl_batch fl)) b1)"

text \<open>Cancelled while waiting for the commit lock.\<close>

definition cancel_queued :: "flush \<Rightarrow> batcher \<Rightarrow> batcher" where
  "cancel_queued fl b = end_flush fl (fail_batch (fl_batch fl) Interrupted b)"

text \<open>\<open>_replay\<close> of one record: what its future gets, and the counters and the graph after it.\<close>

definition replay_write ::
    "batch_env \<Rightarrow> obj \<Rightarrow> driver_event list \<Rightarrow> stats \<Rightarrow> graph \<Rightarrow> bool ending \<times> stats \<times> graph" where
  "replay_write B record ds st g =
     (case write_single (be_driver B) (be_single B) record ds zero_stats g of
        Returned (_, local_stats, g') \<Rightarrow>
          (Returned (entities_enriched local_stats > 0), merge_global_stats False local_stats st, g')
      | Raised e \<Rightarrow> (Raised e, st, g)
      | Interrupted \<Rightarrow> (Interrupted, st, g))"

text \<open>The loop over the members: a cancellation escapes from it, so nothing settles that member and the rest.\<close>

definition replay_next :: "batch_env \<Rightarrow> flush \<Rightarrow> driver_event list \<Rightarrow> batcher \<Rightarrow> batcher" where
  "replay_next B fl ds b = (case fl_phase fl of
      Replaying ((i, record) # rest) \<Rightarrow>
        (case replay_write B record ds (b_stats b) (b_graph b) of
           (Interrupted, _, _) \<Rightarrow> end_flush fl b
         | (r, st, g) \<Rightarrow>
             (let b1 = settle i r (b\<lparr>b_stats := st, b_graph := g\<rparr>)
              in if rest = [] then end_flush fl b1 else set_phase fl (Replaying rest) b1))
    | _ \<Rightarrow> b)"

section \<open>Steps\<close>

text \<open>
  \<open>cancels\<close>: a flush may be cancelled while it replays (the event loop does that to tasks that are still
  running when the process ends). Other batchers and handlers change the shared counters and the graph
  at any time.
\<close>

inductive batch_step :: "batch_env \<Rightarrow> nat \<Rightarrow> bool \<Rightarrow> batcher \<Rightarrow> batcher \<Rightarrow> bool" for B loop cancels where
  arrives: "batch_step B loop cancels b (submit B loop record b)"
| lingered: "h \<in> set (b_handles b) \<Longrightarrow> batch_step B loop cancels b (linger_expires B h b)"
| caller_gone: "waiting b i \<Longrightarrow> batch_step B loop cancels b (settle i Interrupted b)"
| begins: "fl \<in> set (b_flushes b) \<Longrightarrow> fl_phase fl = Queued \<Longrightarrow> \<not> b_locked b \<Longrightarrow>
    batch_step B loop cancels b (begin_commit B fl b)"
| commits: "fl \<in> set (b_flushes b) \<Longrightarrow> fl_phase fl = Committing \<Longrightarrow> batch_step B loop cancels b (end_commit B fl ds b)"
| unqueued: "fl \<in> set (b_flushes b) \<Longrightarrow> fl_phase fl = Queued \<Longrightarrow> batch_step B loop cancels b (cancel_queued fl b)"
| replays: "fl \<in> set (b_flushes b) \<Longrightarrow> fl_phase fl = Replaying ((i, record) # rest) \<Longrightarrow>
    cancels \<or> fst (replay_write B record ds (b_stats b) (b_graph b)) \<noteq> Interrupted \<Longrightarrow>
    batch_step B loop cancels b (replay_next B fl ds b)"
| elsewhere: "batch_step B loop cancels b (b\<lparr>b_stats := st, b_graph := g\<rparr>)"

inductive batcher_start :: "batcher \<Rightarrow> bool" where
  "batcher_start (initial_batcher st g)"

end
