(* ===== verification/BatcherInvariant.thy ===== *)
theory BatcherInvariant
  imports Batcher
begin

text \<open>
  The invariant of the write batcher: where every delivery is held, the linger timer, the size of a
  batch and the commit lock; and the measure by which the batcher drains.
\<close>

section \<open>The invariant\<close>

definition remaining :: "flush \<Rightarrow> batch" where
  "remaining fl = (case fl_phase fl of Replaying rest \<Rightarrow> rest | _ \<Rightarrow> fl_batch fl)"

definition held_in :: "flush list \<Rightarrow> nat list" where
  "held_in fls = concat (map (\<lambda>fl. map fst (remaining fl)) fls)"

definition held :: "batcher \<Rightarrow> nat list" where
  "held b = map fst (b_pending b) @ held_in (b_flushes b)"

definition committing :: "flush \<Rightarrow> bool" where
  "committing fl \<longleftrightarrow> fl_phase fl = Committing"

text \<open>The batch projection gives a flag for every record (proved of every entry of the table).\<close>

definition env_ok :: "batch_env \<Rightarrow> bool" where
  "env_ok B \<longleftrightarrow> 0 < BATCH_SIZE B \<and>
     (\<forall>records s flags s'. be_batch B records s = Inr (flags, s') \<longrightarrow> length flags = length records)"

definition queue_ok :: "batch_env \<Rightarrow> batcher \<Rightarrow> bool" where
  "queue_ok B b \<longleftrightarrow> length (b_pending b) < BATCH_SIZE B \<and>
     (b_timer b = None \<longleftrightarrow> b_pending b = []) \<and> b_handles b = (case b_timer b of None \<Rightarrow> [] | Some h \<Rightarrow> [h])"

definition names_ok :: "batcher \<Rightarrow> bool" where
  "names_ok b \<longleftrightarrow> distinct (held b) \<and> (\<forall>i \<in> set (held b). i < b_next b) \<and> (\<forall>i. waiting b i \<longrightarrow> i < b_next b) \<and>
     distinct (map fl_id (b_flushes b)) \<and> (\<forall>fl \<in> set (b_flushes b). fl_id fl < b_next b)"

definition flush_ok :: "batch_env \<Rightarrow> flush \<Rightarrow> bool" where
  "flush_ok B fl \<longleftrightarrow> remaining fl \<noteq> [] \<and> length (fl_batch fl) \<le> BATCH_SIZE B \<and> length (remaining fl) \<le> length (fl_batch fl)"

definition lock_ok :: "batch_env \<Rightarrow> batcher \<Rightarrow> bool" where
  "lock_ok B b \<longleftrightarrow> (b_locked b \<longleftrightarrow> SERIALIZE_FLUSHES B \<and> (\<exists>fl \<in> set (b_flushes b). committing fl)) \<and>
     (SERIALIZE_FLUSHES B \<longrightarrow> length (filter committing (b_flushes b)) \<le> 1)"

definition loop_ok :: "nat \<Rightarrow> batcher \<Rightarrow> bool" where
  "loop_ok loop b \<longleftrightarrow>
     b_loop b = Some loop \<or> b_pending b = [] \<and> b_timer b = None \<and> b_flushes b = [] \<and> \<not> b_locked b"

definition batcher_ok :: "batch_env \<Rightarrow> nat \<Rightarrow> batcher \<Rightarrow> bool" where
  "batcher_ok B loop b \<longleftrightarrow> queue_ok B b \<and> names_ok b \<and> (\<forall>fl \<in> set (b_flushes b). flush_ok B fl) \<and> lock_ok B b \<and> loop_ok loop b"

definition none_stranded :: "batcher \<Rightarrow> bool" where
  "none_stranded b \<longleftrightarrow> (\<forall>i. waiting b i \<longrightarrow> i \<in> set (held b))"

lemmas batcher_ok_defs = batcher_ok_def queue_ok_def names_ok_def lock_ok_def loop_ok_def

lemma batcher_ok_initial: "env_ok B \<Longrightarrow> batcher_ok B loop (initial_batcher st g)"
  by (simp add: batcher_ok_defs initial_batcher_def held_def held_in_def env_ok_def waiting_def)

lemma none_stranded_initial: "none_stranded (initial_batcher st g)"
  by (simp add: none_stranded_def waiting_def initial_batcher_def)

lemma held_in_simps [simp]:
  "held_in [] = []" "held_in (fl # fls) = map fst (remaining fl) @ held_in fls" "held_in (xs @ ys) = held_in xs @ held_in ys"
  by (simp_all add: held_in_def)

section \<open>Settling\<close>

text \<open>Settling a list of futures: the first entry of a waiting one decides.\<close>

definition settle_all :: "(nat \<times> bool ending) list \<Rightarrow> batcher \<Rightarrow> batcher" where
  "settle_all rs = fold (\<lambda>(i, r). settle i r) rs"

lemma fail_batch_settle_all: "fail_batch members r = settle_all (map (\<lambda>x. (fst x, r)) members)"
  by (simp add: fail_batch_def settle_all_def fold_map comp_def)

lemma resolve_batch_settle_all:
  "resolve_batch members flags = settle_all (zip (map fst members) (map Returned flags))"
proof -
  have "fold (\<lambda>(x, matched). settle (fst x) (Returned matched)) (zip members flags) b =
      fold (\<lambda>(i, r). settle i r) (zip (map fst members) (map Returned flags)) b" for b
    by (induction members flags arbitrary: b rule: list_induct2') simp_all
  then show ?thesis by (simp add: resolve_batch_def settle_all_def fun_eq_iff)
qed

definition settled_futures :: "(nat \<times> bool ending) list \<Rightarrow> batcher \<Rightarrow> nat \<Rightarrow> future option" where
  "settled_futures rs b i =
     (if waiting b i then (case map_of rs i of None \<Rightarrow> Some Waiting | Some r \<Rightarrow> Some (Done r)) else b_futures b i)"

lemma settle_all_eq: "settle_all rs b = b\<lparr>b_futures := settled_futures rs b\<rparr>"
proof (induction rs arbitrary: b)
  case Nil
  have "settled_futures [] b = b_futures b" by (auto simp: settled_futures_def waiting_def)
  then show ?case by (simp add: settle_all_def)
next
  case (Cons x rs)
  have "settled_futures rs (settle (fst x) (snd x) b) = settled_futures (x # rs) b"
    by (auto simp: settled_futures_def settle_def waiting_def fun_eq_iff split: option.split)
  moreover have "settle_all (x # rs) b = settle_all rs (settle (fst x) (snd x) b)"
    by (simp add: settle_all_def case_prod_unfold)
  moreover have "(settle (fst x) (snd x) b)\<lparr>b_futures := F\<rparr> = b\<lparr>b_futures := F\<rparr>" for F
    by (simp add: settle_def)
  ultimately show ?case by (simp add: Cons.IH)
qed

lemma settle_settle_all: "settle i r = settle_all [(i, r)]"
  by (simp add: settle_all_def fun_eq_iff)

lemma waiting_settled:
  "waiting (b\<lparr>b_futures := settled_futures rs b\<rparr>) i \<longleftrightarrow> waiting b i \<and> i \<notin> fst ` set rs"
  by (auto simp: waiting_def settled_futures_def map_of_eq_None_iff [symmetric] split: option.split)

lemma waiting_other [simp]:
  "waiting (b\<lparr>b_pending := p\<rparr>) = waiting b" "waiting (b\<lparr>b_flushes := f\<rparr>) = waiting b" "waiting (b\<lparr>b_locked := l\<rparr>) = waiting b"
  "waiting (b\<lparr>b_next := n\<rparr>) = waiting b" "waiting (b\<lparr>b_timer := t\<rparr>) = waiting b" "waiting (b\<lparr>b_handles := h\<rparr>) = waiting b"
  "waiting (b\<lparr>b_stats := st\<rparr>) = waiting b" "waiting (b\<lparr>b_graph := g\<rparr>) = waiting b" "waiting (b\<lparr>b_loop := o'\<rparr>) = waiting b"
  by (simp_all add: waiting_def fun_eq_iff)

lemma held_other [simp]:
  "held (b\<lparr>b_futures := F\<rparr>) = held b" "held (b\<lparr>b_locked := l\<rparr>) = held b" "held (b\<lparr>b_next := n\<rparr>) = held b"
  "held (b\<lparr>b_timer := t\<rparr>) = held b" "held (b\<lparr>b_handles := h\<rparr>) = held b" "held (b\<lparr>b_stats := st\<rparr>) = held b"
  "held (b\<lparr>b_graph := g\<rparr>) = held b" "held (b\<lparr>b_loop := o'\<rparr>) = held b"
  by (simp_all add: held_def)

lemma batcher_ok_frame:
  "batcher_ok B loop b \<Longrightarrow> batcher_ok B loop (b\<lparr>b_futures := settled_futures rs b\<rparr>)"
  "batcher_ok B loop b \<Longrightarrow> batcher_ok B loop (b\<lparr>b_stats := st\<rparr>)"
  "batcher_ok B loop b \<Longrightarrow> batcher_ok B loop (b\<lparr>b_graph := g\<rparr>)"
  by (auto simp: batcher_ok_defs waiting_settled)

section \<open>The list of flushes\<close>

lemma flush_split:
  assumes "fl \<in> set fls" and "distinct (map fl_id fls)"
  obtains xs ys where "fls = xs @ fl # ys" "filter (\<lambda>x. fl_id x \<noteq> fl_id fl) fls = xs @ ys"
    "\<forall>p. map (\<lambda>x. if fl_id x = fl_id fl then x\<lparr>fl_phase := p\<rparr> else x) fls = xs @ fl\<lparr>fl_phase := p\<rparr> # ys"
proof -
  obtain xs ys where fls: "fls = xs @ fl # ys" using assms(1) by (metis split_list)
  have "fl_id fl \<notin> fl_id ` set (xs @ ys)" using assms(2) by (auto simp: fls)
  then have other: "fl_id x \<noteq> fl_id fl" if "x \<in> set (xs @ ys)" for x using that by (metis imageI)
  then have "filter (\<lambda>x. fl_id x \<noteq> fl_id fl) xs = xs" "filter (\<lambda>x. fl_id x \<noteq> fl_id fl) ys = ys"
    by (simp_all add: filter_id_conv)
  moreover have "map (\<lambda>x. if fl_id x = fl_id fl then x\<lparr>fl_phase := p\<rparr> else x) xs = xs"
    "map (\<lambda>x. if fl_id x = fl_id fl then x\<lparr>fl_phase := p\<rparr> else x) ys = ys" for p
    using other by (auto intro!: map_idI)
  ultimately show ?thesis using that [of xs ys] by (simp add: fls)
qed

lemma distinct_replace:
  "distinct (xs @ m @ ys) \<Longrightarrow> distinct m' \<Longrightarrow> set m' \<subseteq> set m \<Longrightarrow> distinct (xs @ m' @ ys)"
  by auto

lemma names_ok_less:
  assumes "names_ok b" and "distinct (held b) \<Longrightarrow> distinct (held c)" and "set (held c) \<subseteq> set (held b)"
    and "b_next c = b_next b" "waiting c = waiting b"
    and "distinct (map fl_id (b_flushes b)) \<Longrightarrow> distinct (map fl_id (b_flushes c))"
    and "fl_id ` set (b_flushes c) \<subseteq> fl_id ` set (b_flushes b)"
  shows "names_ok c"
proof -
  have "\<forall>fl \<in> set (b_flushes c). fl_id fl < b_next c"
  proof
    fix fl assume "fl \<in> set (b_flushes c)"
    then have "fl_id fl \<in> fl_id ` set (b_flushes b)" using assms(7) by blast
    then show "fl_id fl < b_next c" using assms(1,4) by (auto simp: names_ok_def)
  qed
  then show ?thesis using assms(1-6) by (auto simp: names_ok_def)
qed

text \<open>A flush that leaves, and a flush that moves on, under the invariant.\<close>

lemma ok_flush_gone:
  assumes ok: "batcher_ok B loop b" and fl: "fl \<in> set (b_flushes b)" and locked: "l = (b_locked b \<and> \<not> committing fl)"
  shows "batcher_ok B loop (end_flush fl (b\<lparr>b_locked := l\<rparr>)) \<and>
    set (held b) = set (held (end_flush fl b)) \<union> fst ` set (remaining fl)"
proof -
  have ids: "distinct (map fl_id (b_flushes b))" using ok by (simp add: batcher_ok_def names_ok_def)
  obtain xs ys where fls: "b_flushes b = xs @ fl # ys" "filter (\<lambda>x. fl_id x \<noteq> fl_id fl) (b_flushes b) = xs @ ys"
    by (rule flush_split [OF fl ids])
  have end': "end_flush fl c = c\<lparr>b_flushes := xs @ ys\<rparr>" if "b_flushes c = b_flushes b" for c
    using that fls(2) by (simp add: end_flush_def)
  have parts: "queue_ok B b" "names_ok b" using ok by (simp_all add: batcher_ok_def)
  have "queue_ok B (end_flush fl (b\<lparr>b_locked := l\<rparr>))" using parts(1) by (simp add: queue_ok_def end')
  moreover have "names_ok (end_flush fl (b\<lparr>b_locked := l\<rparr>))"
    by (rule names_ok_less [OF parts(2)]) (auto simp: end' held_def fls(1))
  moreover have "\<forall>x \<in> set (b_flushes (end_flush fl (b\<lparr>b_locked := l\<rparr>))). flush_ok B x"
    using ok by (auto simp: batcher_ok_def end' fls(1))
  moreover have "lock_ok B (end_flush fl (b\<lparr>b_locked := l\<rparr>))"
    using ok unfolding lock_ok_def batcher_ok_def locked
    by (cases "committing fl") (auto simp: end' fls(1) filter_empty_conv)
  moreover have "loop_ok loop (end_flush fl (b\<lparr>b_locked := l\<rparr>))"
    using ok by (auto simp: batcher_ok_def loop_ok_def end' fls(1))
  ultimately show ?thesis by (auto simp: batcher_ok_def held_def end' fls(1))
qed

lemma ok_flush_moves:
  assumes ok: "batcher_ok B loop b" and fl: "fl \<in> set (b_flushes b)"
    and rest: "set (map fst (remaining (fl\<lparr>fl_phase := p\<rparr>))) \<subseteq> set (map fst (remaining fl))"
      "distinct (map fst (remaining fl)) \<Longrightarrow> distinct (map fst (remaining (fl\<lparr>fl_phase := p\<rparr>)))"
    and fine: "flush_ok B (fl\<lparr>fl_phase := p\<rparr>)"
    and locked: "p \<noteq> Committing \<Longrightarrow> l = (b_locked b \<and> \<not> committing fl)"
      "p = Committing \<Longrightarrow> \<not> b_locked b \<and> l = SERIALIZE_FLUSHES B"
  shows "batcher_ok B loop ((set_phase fl p b)\<lparr>b_locked := l\<rparr>) \<and>
    set (held b) \<subseteq> set (held (set_phase fl p b)) \<union> (fst ` set (remaining fl) - fst ` set (remaining (fl\<lparr>fl_phase := p\<rparr>)))"
proof -
  let ?fl = "fl\<lparr>fl_phase := p\<rparr>"
  have ids: "distinct (map fl_id (b_flushes b))" using ok by (simp add: batcher_ok_def names_ok_def)
  obtain xs ys where fls: "b_flushes b = xs @ fl # ys" and "filter (\<lambda>x. fl_id x \<noteq> fl_id fl) (b_flushes b) = xs @ ys"
    and moved_list: "\<forall>p. map (\<lambda>x. if fl_id x = fl_id fl then x\<lparr>fl_phase := p\<rparr> else x) (b_flushes b) = xs @ fl\<lparr>fl_phase := p\<rparr> # ys"
    by (rule flush_split [OF fl ids])
  let ?b = "(set_phase fl p b)\<lparr>b_locked := l\<rparr>"
  have moved: "set_phase fl p b = b\<lparr>b_flushes := xs @ ?fl # ys\<rparr>" by (simp add: set_phase_def moved_list)
  have parts: "queue_ok B b" "names_ok b" using ok by (simp_all add: batcher_ok_def)
  let ?A = "map fst (b_pending b) @ held_in xs" and ?m = "map fst (remaining fl)" and ?m' = "map fst (remaining ?fl)"
  have "held b = ?A @ ?m @ held_in ys" and new: "held (set_phase fl p b) = ?A @ ?m' @ held_in ys"
    by (simp_all add: held_def fls moved)
  then have all: "distinct (?A @ ?m @ held_in ys)" using parts(2) by (simp add: names_ok_def)
  then have "distinct ?m" by (metis distinct_append)
  then have dist: "distinct (held (set_phase fl p b))"
    unfolding new by (intro distinct_replace [OF all] rest)
  have "queue_ok B ?b" using parts(1) by (simp add: queue_ok_def moved)
  moreover have "names_ok ?b"
  proof (rule names_ok_less [OF parts(2)])
    show "set (held ?b) \<subseteq> set (held b)" using rest(1) by (simp add: held_def fls moved) blast
  qed (use dist in \<open>simp_all add: moved fls\<close>)
  moreover have "\<forall>x \<in> set (b_flushes ?b). flush_ok B x"
    using ok fine by (auto simp: batcher_ok_def moved fls)
  moreover have "lock_ok B ?b"
    using ok locked unfolding lock_ok_def batcher_ok_def moved
    by (cases "p = Committing"; cases "committing fl") (auto simp: fls filter_empty_conv committing_def)
  moreover have "loop_ok loop ?b"
    using ok by (auto simp: batcher_ok_def loop_ok_def moved fls)
  ultimately show ?thesis by (auto simp: batcher_ok_def held_def moved fls)
qed

section \<open>Filling and handing over\<close>

lemma flush_now_eq:
  assumes "length (b_pending b) \<le> BATCH_SIZE B" and "set (b_handles b) \<subseteq> set_option (b_timer b)"
  shows "flush_now B b = (let members = filter (\<lambda>x. waiting b (fst x)) (b_pending b);
      b1 = b\<lparr>b_timer := None, b_handles := [], b_pending := []\<rparr>
    in if members = [] then b1
       else b1\<lparr>b_flushes := b_flushes b @ [\<lparr>fl_id = b_next b, fl_batch = members, fl_phase = Queued\<rparr>], b_next := b_next b + 1\<rparr>)"
proof -
  have "removeAll h (b_handles b) = []" if "b_timer b = Some h" for h
    using assms(2) that by (auto simp: removeAll_filter_not_eq filter_empty_conv)
  then have "stop_timer b = b\<lparr>b_timer := None, b_handles := []\<rparr>"
    using assms(2) by (cases "b_timer b") (simp_all add: stop_timer_def)
  with assms(1) show ?thesis by (simp add: flush_now_def Let_def)
qed

lemma flush_now_ok:
  assumes small: "length (b_pending b) \<le> BATCH_SIZE B" "0 < BATCH_SIZE B" and "set (b_handles b) \<subseteq> set_option (b_timer b)"
    and names: "names_ok b" and fls: "\<forall>fl \<in> set (b_flushes b). flush_ok B fl" and lock: "lock_ok B b" and loop: "b_loop b = Some loop"
  shows "batcher_ok B loop (flush_now B b) \<and> waiting (flush_now B b) = waiting b \<and>
    (\<forall>i. waiting b i \<longrightarrow> i \<in> set (held b) \<longrightarrow> i \<in> set (held (flush_now B b)))"
proof -
  define members where "members = filter (\<lambda>x. waiting b (fst x)) (b_pending b)"
  define b1 where "b1 = b\<lparr>b_timer := None, b_handles := [], b_pending := []\<rparr>"
  define fl where "fl = \<lparr>fl_id = b_next b, fl_batch = members, fl_phase = Queued\<rparr>"
  define b2 where "b2 = b1\<lparr>b_flushes := b_flushes b @ [fl], b_next := b_next b + 1\<rparr>"
  have run: "flush_now B b = (if members = [] then b1 else b2)"
    using flush_now_eq [OF assms(1,3)] by (simp add: members_def b1_def b2_def fl_def Let_def)
  have sub: "set (map fst members) \<subseteq> set (map fst (b_pending b))" by (auto simp: members_def)
  have names1: "names_ok b1" by (rule names_ok_less [OF names]) (auto simp: b1_def held_def)
  have ok1: "batcher_ok B loop b1"
    using names1 small fls lock loop by (simp add: batcher_ok_def b1_def queue_ok_def lock_ok_def loop_ok_def)
  have held1: "set (held b) \<subseteq> set (held b1) \<union> fst ` set (b_pending b)" by (auto simp: b1_def held_def)
  have held2: "held b2 = held_in (b_flushes b) @ map fst members" by (simp add: b2_def b1_def held_def fl_def remaining_def)
  show ?thesis
  proof (cases "members = []")
    case True
    then have "\<not> waiting b i" if "i \<in> fst ` set (b_pending b)" for i
      using that by (auto simp: members_def filter_empty_conv)
    with held1 have "\<forall>i. waiting b i \<longrightarrow> i \<in> set (held b) \<longrightarrow> i \<in> set (held b1)" by blast
    with ok1 True run show ?thesis by (simp add: b1_def)
  next
    case False
    have dist: "distinct (held b)" "\<forall>i \<in> set (held b). i < b_next b" using names by (simp_all add: names_ok_def)
    have "distinct (map fst members)" using dist(1) by (simp add: held_def members_def distinct_map_filter)
    then have "distinct (held b2)" using dist(1) [unfolded held_def] sub unfolding held2 by auto
    moreover have "set (held b2) \<subseteq> set (held b)" using sub unfolding held2 by (auto simp: held_def)
    then have "\<forall>i \<in> set (held b2). i < b_next b2" using dist(2) by (auto simp: b2_def less_Suc_eq)
    ultimately have "names_ok b2" using names by (auto simp: names_ok_def b2_def b1_def fl_def)
    moreover have "length members \<le> BATCH_SIZE B" using small(1) by (metis members_def length_filter_le le_trans)
    ultimately have "batcher_ok B loop b2"
      using False small(2) fls lock loop
      by (auto simp: batcher_ok_def b2_def b1_def queue_ok_def lock_ok_def loop_ok_def flush_ok_def remaining_def fl_def committing_def)
    moreover have "\<forall>i. waiting b i \<longrightarrow> i \<in> set (held b) \<longrightarrow> i \<in> set (held b2)"
      unfolding held2 by (auto simp: held_def [of b] members_def)
    ultimately show ?thesis using False run by (simp add: b2_def b1_def)
  qed
qed

lemma submit_ok:
  assumes ok: "batcher_ok B loop b" and env: "env_ok B"
  shows "batcher_ok B loop (submit B loop record b) \<and> (none_stranded b \<longrightarrow> none_stranded (submit B loop record b))"
proof -
  define c where "c = b\<lparr>b_loop := Some loop, b_futures := (b_futures b)(b_next b \<mapsto> Waiting),
      b_pending := b_pending b @ [(b_next b, record)], b_next := b_next b + 1\<rparr>"
  have adopt: "adopt_loop loop b = b\<lparr>b_loop := Some loop\<rparr>"
    using ok by (auto simp: adopt_loop_def batcher_ok_def loop_ok_def)
  have submit: "submit B loop record b = (if length (b_pending c) \<ge> BATCH_SIZE B then flush_now B c
      else if b_timer c = None then arm_timer c else arm_timer (stop_timer c))"
    by (simp add: submit_def adopt Let_def c_def)
  have wait: "waiting c i \<longleftrightarrow> waiting b i \<or> i = b_next b" for i by (auto simp: waiting_def c_def)
  have names: "names_ok b" "queue_ok B b" "lock_ok B b" "\<forall>fl \<in> set (b_flushes b). flush_ok B fl"
    using ok by (simp_all add: batcher_ok_def)
  have held: "set (held c) = insert (b_next b) (set (held b))" by (auto simp: held_def c_def)
  have "b_next b \<notin> set (held b)" "distinct (held b)" using names(1) by (auto simp: names_ok_def)
  then have "distinct (held c)" by (simp add: held_def c_def)
  then have names': "names_ok c"
    using names(1) held wait by (auto simp: names_ok_def c_def less_Suc_eq)
  have c: "\<forall>fl \<in> set (b_flushes c). flush_ok B fl" "lock_ok B c" "b_loop c = Some loop" "b_handles c = b_handles b"
    "b_timer c = b_timer b" "b_pending c \<noteq> []" "length (b_pending c) \<le> BATCH_SIZE B"
    using names by (simp_all add: c_def lock_ok_def queue_ok_def)
  have handles: "b_handles c = (case b_timer c of None \<Rightarrow> [] | Some h \<Rightarrow> [h])" using names(2) by (simp add: c_def queue_ok_def)
  have strand: "none_stranded b \<Longrightarrow> none_stranded c" using held wait by (auto simp: none_stranded_def)
  show ?thesis
  proof (cases "length (b_pending c) \<ge> BATCH_SIZE B")
    case True
    have "set (b_handles c) \<subseteq> set_option (b_timer c)" by (cases "b_timer c") (simp_all add: handles)
    with flush_now_ok [OF c(7) _ _ names' c(1-3)] env True strand show ?thesis
      by (simp add: submit env_ok_def none_stranded_def)
  next
    case False
    have armed: "batcher_ok B loop (arm_timer d) \<and> held (arm_timer d) = held c \<and> waiting (arm_timer d) = waiting c"
      if d: "d = c\<lparr>b_timer := None, b_handles := []\<rparr>" for d
    proof -
      have "names_ok (arm_timer d)" using names' by (auto simp: names_ok_def d arm_timer_def less_Suc_eq)
      with False c show ?thesis
        by (simp add: batcher_ok_def d arm_timer_def queue_ok_def lock_ok_def loop_ok_def held_def)
    qed
    have "submit B loop record b = arm_timer (c\<lparr>b_timer := None, b_handles := []\<rparr>)"
      using False handles by (cases "b_timer c") (simp_all add: submit stop_timer_def arm_timer_def)
    with armed [OF refl] strand show ?thesis by (simp add: none_stranded_def)
  qed
qed

lemma linger_ok:
  assumes ok: "batcher_ok B loop b" and env: "env_ok B" and h: "h \<in> set (b_handles b)"
  shows "batcher_ok B loop (linger_expires B h b) \<and> (none_stranded b \<longrightarrow> none_stranded (linger_expires B h b))"
proof -
  define c where "c = b\<lparr>b_handles := removeAll h (b_handles b)\<rparr>"
  have parts: "names_ok b" "queue_ok B b" "lock_ok B b" "\<forall>fl \<in> set (b_flushes b). flush_ok B fl" "loop_ok loop b"
    using ok by (simp_all add: batcher_ok_def)
  have timer: "b_timer b = Some h" using parts(2) h by (auto simp: queue_ok_def split: option.splits)
  have "names_ok c" by (rule names_ok_less [OF parts(1)]) (simp_all add: c_def)
  moreover have "length (b_pending c) \<le> BATCH_SIZE B" "set (b_handles c) \<subseteq> set_option (b_timer c)"
    using parts(2) timer by (auto simp: queue_ok_def c_def)
  moreover have "\<forall>fl \<in> set (b_flushes c). flush_ok B fl" "lock_ok B c" "b_loop c = Some loop"
    using parts timer by (auto simp: c_def lock_ok_def loop_ok_def)
  moreover have "held c = held b" "waiting c = waiting b" by (simp_all add: c_def)
  ultimately show ?thesis using flush_now_ok [of c B loop] env
    by (simp add: linger_expires_def env_ok_def none_stranded_def flip: c_def)
qed

section \<open>Flushing\<close>

text \<open>A flush that settles its members and ends.\<close>

lemma end_settled_ok:
  assumes ok: "batcher_ok B loop b" and fl: "fl \<in> set (b_flushes b)"
  shows "batcher_ok B loop (end_flush fl (settle_all rs (b\<lparr>b_locked := b_locked b \<and> \<not> committing fl, b_stats := st, b_graph := g\<rparr>))) \<and>
    (none_stranded b \<longrightarrow> fst ` set (remaining fl) \<subseteq> fst ` set rs \<longrightarrow>
     none_stranded (end_flush fl (settle_all rs (b\<lparr>b_locked := b_locked b \<and> \<not> committing fl, b_stats := st, b_graph := g\<rparr>))))"
proof -
  let ?c = "end_flush fl (b\<lparr>b_locked := b_locked b \<and> \<not> committing fl\<rparr>)"
  have gone: "batcher_ok B loop ?c" "set (held b) = set (held (end_flush fl b)) \<union> fst ` set (remaining fl)"
    using ok_flush_gone [OF ok fl refl] by simp_all
  define d where "d = ?c\<lparr>b_stats := st, b_graph := g\<rparr>"
  have shape: "end_flush fl (settle_all rs (b\<lparr>b_locked := b_locked b \<and> \<not> committing fl, b_stats := st, b_graph := g\<rparr>)) =
      d\<lparr>b_futures := settled_futures rs d\<rparr>"
    by (simp add: settle_all_eq end_flush_def d_def settled_futures_def waiting_def fun_eq_iff)
  have "batcher_ok B loop d" unfolding d_def by (intro batcher_ok_frame gone)
  then have "batcher_ok B loop (d\<lparr>b_futures := settled_futures rs d\<rparr>)" by (rule batcher_ok_frame)
  moreover have d: "waiting d = waiting b" "held d = held (end_flush fl b)"
    by (simp_all add: d_def end_flush_def held_def)
  have "none_stranded (d\<lparr>b_futures := settled_futures rs d\<rparr>)"
    if "none_stranded b" and sub: "fst ` set (remaining fl) \<subseteq> fst ` set rs"
    unfolding none_stranded_def waiting_settled held_other d
  proof (intro allI impI)
    fix i assume i: "waiting b i \<and> i \<notin> fst ` set rs"
    with that(1) have "i \<in> set (held b)" by (simp add: none_stranded_def)
    with i sub show "i \<in> set (held (end_flush fl b))" unfolding gone(2) by blast
  qed
  ultimately show ?thesis unfolding shape by blast
qed

lemma flush_facts:
  assumes "batcher_ok B loop b" and "fl \<in> set (b_flushes b)"
  shows "flush_ok B fl" and "b_locked b \<Longrightarrow> committing fl \<Longrightarrow> SERIALIZE_FLUSHES B" and "SERIALIZE_FLUSHES B \<Longrightarrow> committing fl \<Longrightarrow> b_locked b"
    and "\<not> SERIALIZE_FLUSHES B \<Longrightarrow> \<not> b_locked b"
  using assms by (auto simp: batcher_ok_def lock_ok_def)

lemma commit_flags:
  assumes "env_ok B" and "commit B members ds g = Returned (flags, st, g')"
  shows "length flags = length members"
proof -
  from assms(2) have "execute_write (batch_tx (be_batch B) (map snd members)) ds zero_stats g = Returned (flags, st, g')"
    by (auto simp: commit_def split: if_splits)
  from execute_write_Returned [OF this] have "be_batch B (map snd members) (zero_stats, g) = Inr (flags, st, g')"
    by (simp add: batch_tx_def)
  with assms(1) show ?thesis unfolding env_ok_def by (metis length_map)
qed

lemma end_commit_ok:
  assumes ok: "batcher_ok B loop b" and env: "env_ok B" and fl: "fl \<in> set (b_flushes b)" and ph: "fl_phase fl = Committing"
  shows "batcher_ok B loop (end_commit B fl ds b) \<and> (none_stranded b \<longrightarrow> none_stranded (end_commit B fl ds b))"
proof -
  have com: "committing fl" and rem: "remaining fl = fl_batch fl" by (simp_all add: committing_def remaining_def ph)
  note ended = end_settled_ok [OF ok fl, unfolded rem]
  have lock: "(b_locked b \<and> \<not> committing fl) = False" using com by simp
  show ?thesis
  proof (cases "commit B (fl_batch fl) ds (b_graph b)")
    case (Returned x)
    obtain flags st g where x: "x = (flags, st, g)" by (cases x)
    have len: "length flags = length (fl_batch fl)" using commit_flags [OF env] Returned x by blast
    have "fst ` set (zip (map fst (fl_batch fl)) (map Returned flags)) = fst ` set (fl_batch fl)"
      using len by (metis length_map list.set_map map_fst_zip)
    then show ?thesis using ended [where rs = "zip (map fst (fl_batch fl)) (map Returned flags)" and st = "merge_global_stats False st (b_stats b)" and g = g]
      by (simp add: end_commit_def Returned x resolve_batch_settle_all lock Let_def image_comp)
  next
    case (Raised e)
    show ?thesis
    proof (cases "transient e \<or> length (fl_batch fl) = 1")
      case True
      with ended [where rs = "map (\<lambda>x. (fst x, Raised e)) (fl_batch fl)" and st = "b_stats b" and g = "b_graph b"] show ?thesis
        by (simp add: end_commit_def Raised fail_batch_settle_all lock Let_def image_comp comp_def)
    next
      case False
      have fine: "flush_ok B (fl\<lparr>fl_phase := Replaying (fl_batch fl)\<rparr>)"
        using flush_facts(1) [OF ok fl] by (simp add: flush_ok_def remaining_def ph)
      have "batcher_ok B loop ((set_phase fl (Replaying (fl_batch fl)) b)\<lparr>b_locked := False\<rparr>) \<and>
          set (held b) \<subseteq> set (held (set_phase fl (Replaying (fl_batch fl)) b))"
        using ok_flush_moves [OF ok fl _ _ fine, of False] lock by (simp add: remaining_def ph)
      moreover have "end_commit B fl ds b = (set_phase fl (Replaying (fl_batch fl)) b)\<lparr>b_locked := False\<rparr>"
        using False by (simp add: end_commit_def Raised set_phase_def)
      ultimately show ?thesis by (auto simp: none_stranded_def set_phase_def)
    qed
  next
    case Interrupted
    with ended [where rs = "map (\<lambda>x. (fst x, Interrupted)) (fl_batch fl)" and st = "b_stats b" and g = "b_graph b"] show ?thesis
      by (simp add: end_commit_def fail_batch_settle_all lock Let_def image_comp comp_def)
  qed
qed

lemma replay_next_ok:
  assumes ok: "batcher_ok B loop b" and fl: "fl \<in> set (b_flushes b)" and ph: "fl_phase fl = Replaying ((i, record) # rest)"
  shows "batcher_ok B loop (replay_next B fl ds b) \<and>
    (none_stranded b \<longrightarrow> fst (replay_write B record ds (b_stats b) (b_graph b)) \<noteq> Interrupted \<longrightarrow> none_stranded (replay_next B fl ds b))"
proof -
  have com: "\<not> committing fl" and rem: "remaining fl = (i, record) # rest" by (simp_all add: committing_def remaining_def ph)
  obtain r st g where outcome: "replay_write B record ds (b_stats b) (b_graph b) = (r, st, g)" by (cases "replay_write B record ds (b_stats b) (b_graph b)")
  have same: "b\<lparr>b_locked := b_locked b\<rparr> = b" by simp
  show ?thesis
  proof (cases "r = Interrupted")
    case True
    then have "replay_next B fl ds b = end_flush fl b" by (simp add: replay_next_def ph outcome)
    with ok_flush_gone [OF ok fl refl] com True outcome show ?thesis by simp
  next
    case False
    have run: "replay_next B fl ds b =
        (let b1 = settle i r (b\<lparr>b_stats := st, b_graph := g\<rparr>) in if rest = [] then end_flush fl b1 else set_phase fl (Replaying rest) b1)"
      using False by (cases r) (simp_all add: replay_next_def ph outcome)
    show ?thesis
    proof (cases "rest = []")
      case True
      with end_settled_ok [OF ok fl, where rs = "[(i, r)]" and st = st and g = g] show ?thesis
        by (simp add: run Let_def settle_settle_all com rem)
    next
      case False
      define p where "p = Replaying rest"
      have fine: "flush_ok B (fl\<lparr>fl_phase := p\<rparr>)"
        using flush_facts(1) [OF ok fl] False by (simp add: flush_ok_def remaining_def ph p_def)
      have moved: "batcher_ok B loop ((set_phase fl p b)\<lparr>b_locked := b_locked b\<rparr>) \<and>
          set (held b) \<subseteq> set (held (set_phase fl p b)) \<union> {i}"
        using ok_flush_moves [OF ok fl _ _ fine, of "b_locked b"] com by (auto simp: ph remaining_def p_def)
      define d where "d = (set_phase fl p b)\<lparr>b_stats := st, b_graph := g\<rparr>"
      have d: "waiting d = waiting b" "held d = held (set_phase fl p b)"
        by (simp_all add: d_def set_phase_def)
      have shape: "replay_next B fl ds b = d\<lparr>b_futures := settled_futures [(i, r)] d\<rparr>"
        using False by (simp add: run settle_settle_all settle_all_eq set_phase_def d_def settled_futures_def waiting_def fun_eq_iff p_def)
      have "(set_phase fl p b)\<lparr>b_locked := b_locked b\<rparr> = set_phase fl p b" by (simp add: set_phase_def)
      then have "batcher_ok B loop d" unfolding d_def using moved by (auto intro: batcher_ok_frame)
      with moved show ?thesis unfolding shape
        by (auto simp: none_stranded_def waiting_settled d intro: batcher_ok_frame)
    qed
  qed
qed

section \<open>Every step\<close>

theorem batch_step_ok:
  assumes "batch_step B loop cancels b c" and ok: "batcher_ok B loop b" and env: "env_ok B"
  shows "batcher_ok B loop c \<and> (\<not> cancels \<longrightarrow> none_stranded b \<longrightarrow> none_stranded c)"
  using assms(1)
proof cases
  case (arrives r)
  with submit_ok [OF ok env] show ?thesis by simp
next
  case (lingered h)
  with linger_ok [OF ok env] show ?thesis by simp
next
  case (caller_gone i)
  then show ?thesis using ok
    by (auto simp: settle_settle_all settle_all_eq none_stranded_def waiting_settled intro: batcher_ok_frame)
next
  case (begins fl)
  have fine: "flush_ok B (fl\<lparr>fl_phase := Committing\<rparr>)"
    using flush_facts(1) [OF ok begins(2)] begins(3) by (simp add: flush_ok_def remaining_def)
  have "batcher_ok B loop ((set_phase fl Committing b)\<lparr>b_locked := SERIALIZE_FLUSHES B\<rparr>) \<and>
      set (held b) \<subseteq> set (held (set_phase fl Committing b))"
    using ok_flush_moves [OF ok begins(2) _ _ fine, of "SERIALIZE_FLUSHES B"] begins(3,4) by (simp add: remaining_def)
  then show ?thesis unfolding begins(1) by (auto simp: begin_commit_def none_stranded_def set_phase_def)
next
  case (commits fl ds)
  with end_commit_ok [OF ok env] show ?thesis by simp
next
  case (unqueued fl)
  then have com: "\<not> committing fl" and rem: "remaining fl = fl_batch fl" by (simp_all add: committing_def remaining_def)
  have "b\<lparr>b_locked := b_locked b, b_stats := b_stats b, b_graph := b_graph b\<rparr> = b" by simp
  with end_settled_ok [OF ok unqueued(2), where rs = "map (\<lambda>x. (fst x, Interrupted)) (fl_batch fl)" and st = "b_stats b" and g = "b_graph b"] com show ?thesis
    by (simp add: unqueued(1) cancel_queued_def fail_batch_settle_all rem image_comp comp_def)
next
  case (replays fl i r rest ds)
  with replay_next_ok [OF ok replays(2,3)] show ?thesis by blast
next
  case (elsewhere st g)
  with ok show ?thesis by (auto simp: none_stranded_def intro: batcher_ok_frame)
qed

interpretation batcher: inductive_invariant batcher_start "batch_step B loop False"
    "\<lambda>b. env_ok B \<longrightarrow> batcher_ok B loop b \<and> none_stranded b" for B loop
proof unfold_locales
  fix b assume "batcher_start b"
  then show "env_ok B \<longrightarrow> batcher_ok B loop b \<and> none_stranded b"
    by cases (simp add: batcher_ok_initial none_stranded_initial)
qed (use batch_step_ok in \<open>blast\<close>)

section \<open>Draining\<close>

text \<open>The steps the batcher takes by itself once no more deliveries arrive.\<close>

inductive drain_step :: "batch_env \<Rightarrow> batcher \<Rightarrow> batcher \<Rightarrow> bool" for B where
  drain_linger: "h \<in> set (b_handles b) \<Longrightarrow> drain_step B b (linger_expires B h b)"
| drain_begin: "fl \<in> set (b_flushes b) \<Longrightarrow> fl_phase fl = Queued \<Longrightarrow> \<not> b_locked b \<Longrightarrow> drain_step B b (begin_commit B fl b)"
| drain_commit: "fl \<in> set (b_flushes b) \<Longrightarrow> fl_phase fl = Committing \<Longrightarrow> drain_step B b (end_commit B fl ds b)"
| drain_replay: "fl \<in> set (b_flushes b) \<Longrightarrow> fl_phase fl = Replaying ((i, record) # rest) \<Longrightarrow>
    fst (replay_write B record ds (b_stats b) (b_graph b)) \<noteq> Interrupted \<Longrightarrow> drain_step B b (replay_next B fl ds b)"

lemma drain_step_batch_step: "drain_step B b c \<Longrightarrow> batch_step B loop False b c"
  by (induction rule: drain_step.induct) (auto intro: batch_step.intros)

definition flush_work :: "flush \<Rightarrow> nat" where
  "flush_work fl = (case fl_phase fl of
      Queued \<Rightarrow> length (fl_batch fl) + 2 | Committing \<Rightarrow> length (fl_batch fl) + 1 | Replaying rest \<Rightarrow> length rest)"

definition pending_work :: "nat \<Rightarrow> nat" where
  "pending_work n = (if n = 0 then 0 else n + 3)"

definition work :: "batcher \<Rightarrow> nat" where
  "work b = pending_work (length (b_pending b)) + sum_list (map flush_work (b_flushes b))"

lemma work_frame [simp]:
  "work (settle_all rs b) = work b" "work (b\<lparr>b_stats := st, b_graph := g\<rparr>) = work b" "work (b\<lparr>b_locked := l\<rparr>) = work b"
  by (simp_all add: work_def settle_all_eq)

lemma work_flushes:
  assumes "fl \<in> set (b_flushes b)" and "distinct (map fl_id (b_flushes b))"
  shows "work (end_flush fl b) + flush_work fl = work b"
    and "work (set_phase fl p b) + flush_work fl = work b + flush_work (fl\<lparr>fl_phase := p\<rparr>)"
proof -
  obtain xs ys where fls: "b_flushes b = xs @ fl # ys" and gone: "filter (\<lambda>x. fl_id x \<noteq> fl_id fl) (b_flushes b) = xs @ ys"
    and moved: "\<forall>p. map (\<lambda>x. if fl_id x = fl_id fl then x\<lparr>fl_phase := p\<rparr> else x) (b_flushes b) = xs @ fl\<lparr>fl_phase := p\<rparr> # ys"
    by (rule flush_split [OF assms])
  show "work (end_flush fl b) + flush_work fl = work b"
    by (simp add: work_def end_flush_def gone) (simp add: fls)
  have "b_flushes (set_phase fl p b) = xs @ fl\<lparr>fl_phase := p\<rparr> # ys" by (simp add: set_phase_def moved)
  then show "work (set_phase fl p b) + flush_work fl = work b + flush_work (fl\<lparr>fl_phase := p\<rparr>)"
    by (simp add: work_def fls) (simp add: set_phase_def)
qed

lemma drain_step_work:
  assumes "drain_step B b c" and ok: "batcher_ok B loop b" and env: "env_ok B"
  shows "work c < work b"
proof -
  have ids: "distinct (map fl_id (b_flushes b))" and q: "queue_ok B b"
    using ok by (simp_all add: batcher_ok_def names_ok_def)
  note end' = work_flushes(1) [OF _ ids] and move = work_flushes(2) [OF _ ids]
  from assms(1) show ?thesis
  proof cases
    case (drain_linger h)
    then have timer: "b_timer b = Some h" using q by (auto simp: queue_ok_def split: option.splits)
    then have pend: "b_pending b \<noteq> []" using q by (simp add: queue_ok_def)
    let ?b = "b\<lparr>b_handles := removeAll h (b_handles b)\<rparr>"
    have "length (b_pending ?b) \<le> BATCH_SIZE B" "set (b_handles ?b) \<subseteq> set_option (b_timer ?b)"
      using q timer by (auto simp: queue_ok_def)
    note run = flush_now_eq [OF this]
    define members where "members = filter (\<lambda>x. waiting b (fst x)) (b_pending b)"
    have "length members \<le> length (b_pending b)" by (simp add: members_def)
    with pend show ?thesis
      by (auto simp: drain_linger(1) linger_expires_def run Let_def work_def pending_work_def flush_work_def simp flip: members_def)
  next
    case (drain_begin fl)
    then show ?thesis using move [OF drain_begin(2), of Committing] by (simp add: begin_commit_def flush_work_def)
  next
    case (drain_commit fl ds)
    let ?b = "b\<lparr>b_locked := False\<rparr>"
    have fl: "fl \<in> set (b_flushes ?b)" "distinct (map fl_id (b_flushes ?b))" using drain_commit ids by simp_all
    have ended: "work (end_flush fl (settle_all rs (?b\<lparr>b_stats := st, b_graph := g\<rparr>))) < work b" for rs st g
    proof -
      have "work (end_flush fl d) + flush_work fl = work d" if "b_flushes d = b_flushes b" for d
        using work_flushes(1) [of fl d] drain_commit(2) ids that by simp
      from this [of "settle_all rs (?b\<lparr>b_stats := st, b_graph := g\<rparr>)"] show ?thesis
        using drain_commit(3) by (simp add: settle_all_eq flush_work_def work_def)
    qed
    have "?b\<lparr>b_stats := b_stats b, b_graph := b_graph b\<rparr> = ?b" by simp
    then have failed: "work (end_flush fl (settle_all rs ?b)) < work b" for rs
      using ended [where rs = rs and st = "b_stats b" and g = "b_graph b"] by simp
    have "work (set_phase fl (Replaying (fl_batch fl)) ?b) < work b"
      using work_flushes(2) [OF fl, of "Replaying (fl_batch fl)"] drain_commit(3) by (simp add: flush_work_def)
    with ended failed show ?thesis
      by (auto simp: drain_commit(1) end_commit_def Let_def fail_batch_settle_all resolve_batch_settle_all split: ending.split)
  next
    case (drain_replay fl i r rest ds)
    obtain x st g where outcome: "replay_write B r ds (b_stats b) (b_graph b) = (x, st, g)" "x \<noteq> Interrupted"
      using drain_replay(4) by (cases "replay_write B r ds (b_stats b) (b_graph b)") auto
    let ?b = "settle_all [(i, x)] (b\<lparr>b_stats := st, b_graph := g\<rparr>)"
    have fl: "fl \<in> set (b_flushes ?b)" "distinct (map fl_id (b_flushes ?b))"
      using drain_replay ids by (simp_all add: settle_all_eq)
    have "c = (if rest = [] then end_flush fl ?b else set_phase fl (Replaying rest) ?b)"
      using outcome by (cases x) (simp_all add: drain_replay(1,3) replay_next_def settle_settle_all)
    then show ?thesis
      using work_flushes(1) [OF fl] work_flushes(2) [OF fl, of "Replaying rest"] drain_replay(3)
      by (auto simp: flush_work_def)
  qed
qed

text \<open>A batcher that has nothing left to do holds nothing.\<close>

lemma drained:
  assumes ok: "batcher_ok B loop b" and env: "env_ok B" and "\<And>c. \<not> drain_step B b c"
  shows "b_pending b = [] \<and> b_flushes b = []"
proof
  have q: "queue_ok B b" and lock: "lock_ok B b" and fls: "\<forall>fl \<in> set (b_flushes b). flush_ok B fl"
    using ok by (simp_all add: batcher_ok_def)
  show "b_pending b = []"
  proof (rule ccontr)
    assume "b_pending b \<noteq> []"
    then obtain h where "h \<in> set (b_handles b)" using q by (auto simp: queue_ok_def)
    with assms(3) drain_linger show False by blast
  qed
  have queued: "fl_phase fl = Queued" if fl: "fl \<in> set (b_flushes b)" for fl
  proof (cases "fl_phase fl")
    case Committing
    with assms(3) drain_commit fl show ?thesis by blast
  next
    case (Replaying rest)
    then have "rest \<noteq> []" using fls fl by (auto simp: flush_ok_def remaining_def)
    then obtain i r rest' where rest: "rest = (i, r) # rest'" by (cases rest) auto
    have "fst (replay_write B r [GaveUp KeyError] (b_stats b) (b_graph b)) \<noteq> Interrupted"
      by (simp add: replay_write_def write_single_def)
    with assms(3) drain_replay [OF fl Replaying [unfolded rest]] show ?thesis by blast
  qed
  then have "\<not> b_locked b" using lock by (auto simp: lock_ok_def committing_def)
  then show "b_flushes b = []"
    using queued assms(3) drain_begin [of _ b B] by (metis list.set_intros(1) neq_Nil_conv)
qed

lemma drain_run:
  assumes "(drain_step B ^^ n) b c" and "batcher_ok B loop b \<and> none_stranded b" and env: "env_ok B"
  shows "n + work c \<le> work b \<and> batcher_ok B loop c \<and> none_stranded c"
  using assms(1,2)
proof (induction n arbitrary: c)
  case (Suc n)
  then obtain d where d: "(drain_step B ^^ n) b d" "drain_step B d c" by auto
  from Suc.IH [OF d(1) Suc.prems(2)] have IH: "n + work d \<le> work b" "batcher_ok B loop d" "none_stranded d" by simp_all
  from drain_step_work [OF d(2) IH(2) env] batch_step_ok [OF drain_step_batch_step [OF d(2)] IH(2) env] IH show ?case by simp
qed simp

end
