(* ===== verification/BatcherHistory.thy ===== *)
theory BatcherHistory
  imports BatcherInvariant
begin

text \<open>
  The history of one delivery in the batcher: from its submission to the resolution of its future. The
  entries a batcher holds keep the record they were submitted with, and a future gets a matched flag
  only in a step that commits its record, so an acknowledged delivery is a committed one.
\<close>

section \<open>Entries\<close>

definition phase_entries :: "flush_phase \<Rightarrow> (nat \<times> obj) set" where
  "phase_entries p = (case p of Replaying rest \<Rightarrow> set rest | _ \<Rightarrow> {})"

definition flush_entries :: "flush \<Rightarrow> (nat \<times> obj) set" where
  "flush_entries fl = set (fl_batch fl) \<union> phase_entries (fl_phase fl)"

definition entries :: "batcher \<Rightarrow> (nat \<times> obj) set" where
  "entries b = set (b_pending b) \<union> (\<Union>fl \<in> set (b_flushes b). flush_entries fl)"

text \<open>The names in use are below \<open>b_next\<close>.\<close>

definition entries_named :: "batcher \<Rightarrow> bool" where
  "entries_named b \<longleftrightarrow> (\<forall>x \<in> entries b. fst x < b_next b)"

lemma phase_entries_simps [simp]:
  "phase_entries Queued = {}" "phase_entries Committing = {}" "phase_entries (Replaying rest) = set rest"
  by (simp_all add: phase_entries_def)

lemma entries_settled [simp]:
  "entries (settle i r b) = entries b" "b_next (settle i r b) = b_next b" "b_flushes (settle i r b) = b_flushes b"
  "b_pending (settle i r b) = b_pending b" "b_graph (settle i r b) = b_graph b"
  "entries (settle_all rs b) = entries b" "b_next (settle_all rs b) = b_next b" "b_graph (settle_all rs b) = b_graph b"
  "b_flushes (settle_all rs b) = b_flushes b"
  by (simp_all add: settle_def settle_all_eq entries_def)

lemma entries_frame [simp]:
  "entries (b\<lparr>b_stats := st\<rparr>) = entries b" "entries (b\<lparr>b_graph := g\<rparr>) = entries b" "entries (b\<lparr>b_locked := l\<rparr>) = entries b"
  "entries (b\<lparr>b_handles := hs\<rparr>) = entries b" "entries (arm_timer b) = entries b" "entries (stop_timer b) = entries b"
  by (simp_all add: entries_def arm_timer_def stop_timer_def split: option.split)

lemma next_frame:
  "b_next b \<le> b_next (arm_timer b)" "b_next (stop_timer b) = b_next b" "b_futures (arm_timer b) = b_futures b"
  "b_futures (stop_timer b) = b_futures b"
  by (simp_all add: arm_timer_def stop_timer_def split: option.split)

lemma entries_end_flush: "entries (end_flush fl b) \<subseteq> entries b" "b_next (end_flush fl b) = b_next b"
  "b_futures (end_flush fl b) = b_futures b" "b_graph (end_flush fl b) = b_graph b"
  by (auto simp: entries_def end_flush_def)

lemma entries_set_phase:
  assumes "fl \<in> set (b_flushes b)" and "phase_entries p \<subseteq> flush_entries fl"
  shows "entries (set_phase fl p b) \<subseteq> entries b"
proof -
  define f where "f = (\<lambda>x :: flush. if fl_id x = fl_id fl then x\<lparr>fl_phase := p\<rparr> else x)"
  have "flush_entries (f x) \<subseteq> entries b" if "x \<in> set (b_flushes b)" for x
    using that assms by (auto simp: flush_entries_def entries_def f_def)
  moreover have "set (b_pending b) \<subseteq> entries b" by (simp add: entries_def)
  moreover have "entries (set_phase fl p b) = set (b_pending b) \<union> (\<Union>x \<in> set (b_flushes b). flush_entries (f x))"
    by (simp add: entries_def set_phase_def flip: f_def)
  ultimately show ?thesis by auto
qed

lemma set_phase_frame: "b_next (set_phase fl p b) = b_next b" "b_futures (set_phase fl p b) = b_futures b"
  "b_graph (set_phase fl p b) = b_graph b" "b_flushes (b\<lparr>b_locked := l\<rparr>) = b_flushes b"
  by (simp_all add: set_phase_def)

lemma entries_flush_now:
  "entries (flush_now B b) \<subseteq> entries b \<and> b_next b \<le> b_next (flush_now B b) \<and> b_futures (flush_now B b) = b_futures b"
proof -
  let ?b1 = "stop_timer b"
  let ?b2 = "?b1\<lparr>b_pending := drop (BATCH_SIZE B) (b_pending ?b1)\<rparr>"
  let ?b3 = "if b_pending ?b2 \<noteq> [] then arm_timer ?b2 else ?b2"
  have "entries ?b2 \<subseteq> entries ?b1" using set_drop_subset [of "BATCH_SIZE B" "b_pending ?b1"] by (auto simp: entries_def)
  then have e3: "entries ?b3 \<subseteq> entries b" by auto
  have n3: "b_next b \<le> b_next ?b3" "b_futures ?b3 = b_futures b"
    using next_frame(1) [of ?b2] by (simp_all add: next_frame)
  have "set (b_pending ?b1) \<subseteq> entries ?b1" by (simp add: entries_def)
  then have "set (b_pending ?b1) \<subseteq> entries b" by simp
  then have m: "set (filter (\<lambda>x. waiting ?b1 (fst x)) (take (BATCH_SIZE B) (b_pending ?b1))) \<subseteq> entries b" (is "set ?ms \<subseteq> _")
    using set_take_subset [of "BATCH_SIZE B" "b_pending ?b1"] by auto
  have add: "entries (?b3\<lparr>b_flushes := b_flushes ?b3 @ [\<lparr>fl_id = n, fl_batch = ms, fl_phase = Queued\<rparr>], b_next := k\<rparr>) =
      entries ?b3 \<union> set ms" for ms n k
    by (auto simp: entries_def flush_entries_def)
  show ?thesis
  proof (cases "?ms = []")
    case True
    then have "flush_now B b = ?b3" unfolding flush_now_def Let_def by (rule if_P)
    with e3 n3 show ?thesis by simp
  next
    case False
    then have run: "flush_now B b = ?b3\<lparr>b_flushes := b_flushes ?b3 @ [\<lparr>fl_id = b_next ?b3, fl_batch = ?ms, fl_phase = Queued\<rparr>],
        b_next := b_next ?b3 + 1\<rparr>"
      unfolding flush_now_def Let_def by (rule if_not_P)
    show ?thesis unfolding run add using e3 n3 m by simp
  qed
qed

section \<open>One step\<close>

text \<open>A step keeps the entries or adds the submitted one, and the names grow.\<close>

definition grows_from :: "batcher \<Rightarrow> batcher \<Rightarrow> bool" where
  "grows_from b b' \<longleftrightarrow> b_next b \<le> b_next b' \<and> (\<forall>x \<in> entries b'. x \<in> entries b \<or> b_next b \<le> fst x \<and> fst x < b_next b')"

lemma grows_fromI: "entries b' \<subseteq> entries b \<Longrightarrow> b_next b \<le> b_next b' \<Longrightarrow> grows_from b b'"
  by (auto simp: grows_from_def)

lemma adopt_frame: "entries (adopt_loop loop b) \<subseteq> entries b" "b_next (adopt_loop loop b) = b_next b"
  "b_futures (adopt_loop loop b) = b_futures b"
  by (auto simp: adopt_loop_def entries_def)

lemma submit_frame:
  "entries (submit B loop record b) \<subseteq> insert (b_next b, record) (entries b) \<and> b_next b < b_next (submit B loop record b) \<and>
     b_futures (submit B loop record b) = (b_futures b)(b_next b \<mapsto> Waiting)"
proof -
  let ?b1 = "adopt_loop loop b"
  let ?b2 = "?b1\<lparr>b_futures := (b_futures ?b1)(b_next ?b1 \<mapsto> Waiting),
                  b_pending := b_pending ?b1 @ [(b_next ?b1, record)], b_next := b_next ?b1 + 1\<rparr>"
  have "entries ?b2 \<subseteq> insert (b_next b, record) (entries ?b1)" by (auto simp: entries_def adopt_frame)
  then have e2: "entries ?b2 \<subseteq> insert (b_next b, record) (entries b)" using adopt_frame(1) [of loop b] by auto
  have n2: "b_next ?b2 = b_next b + 1" "b_futures ?b2 = (b_futures b)(b_next b \<mapsto> Waiting)" by (simp_all add: adopt_frame)
  show ?thesis
  proof (cases "length (b_pending ?b2) \<ge> BATCH_SIZE B")
    case True
    then have full: "submit B loop record b = flush_now B ?b2" unfolding submit_def Let_def by (rule if_P)
    show ?thesis unfolding full using entries_flush_now [of B ?b2] e2 n2 by auto
  next
    case False
    then have rest: "submit B loop record b = (if b_timer ?b2 = None then arm_timer ?b2 else arm_timer (stop_timer ?b2))"
      unfolding submit_def Let_def by (rule if_not_P)
    show ?thesis
    proof (cases "b_timer ?b2 = None")
      case True
      then have first: "submit B loop record b = arm_timer ?b2" unfolding rest by (rule if_P)
      show ?thesis unfolding first entries_frame(5) using e2 n2 next_frame(1) [of ?b2] next_frame(3) [of ?b2] by simp
    next
      case False
      then have later: "submit B loop record b = arm_timer (stop_timer ?b2)" unfolding rest by (rule if_not_P)
      show ?thesis unfolding later entries_frame(5,6)
        using e2 n2 next_frame(1) [of "stop_timer ?b2"] by (simp add: next_frame)
    qed
  qed
qed

lemma end_commit_frame:
  assumes "fl \<in> set (b_flushes b)"
  shows "entries (end_commit B fl ds b) \<subseteq> entries b \<and> b_next (end_commit B fl ds b) = b_next b"
proof (cases "commit B (fl_batch fl) ds (b_graph b)")
  case (Returned x)
  obtain flags st g where x: "x = (flags, st, g)" by (cases x)
  show ?thesis
    using entries_end_flush(1) [of fl "resolve_batch (fl_batch fl) flags
        (b\<lparr>b_locked := False, b_stats := merge_global_stats False st (b_stats b), b_graph := g\<rparr>)"]
    by (simp add: end_commit_def Returned x entries_end_flush(2) resolve_batch_settle_all)
next
  case (Raised e)
  have "entries (end_flush fl (fail_batch (fl_batch fl) (Raised e) (b\<lparr>b_locked := False\<rparr>))) \<subseteq> entries b"
    using entries_end_flush(1) [of fl "fail_batch (fl_batch fl) (Raised e) (b\<lparr>b_locked := False\<rparr>)"] by (simp add: fail_batch_settle_all)
  moreover have "entries (set_phase fl (Replaying (fl_batch fl)) (b\<lparr>b_locked := False\<rparr>)) \<subseteq> entries b"
    using entries_set_phase [of fl "b\<lparr>b_locked := False\<rparr>" "Replaying (fl_batch fl)"] assms by (simp add: flush_entries_def)
  ultimately show ?thesis
    by (simp add: end_commit_def Raised Let_def entries_end_flush(2) fail_batch_settle_all set_phase_frame)
next
  case Interrupted
  then show ?thesis
    using entries_end_flush(1) [of fl "fail_batch (fl_batch fl) Interrupted (b\<lparr>b_locked := False\<rparr>)"]
    by (simp add: end_commit_def entries_end_flush(2) fail_batch_settle_all)
qed

lemma replay_next_frame:
  assumes "fl \<in> set (b_flushes b)" and "fl_phase fl = Replaying ((i, record) # rest)"
  shows "entries (replay_next B fl ds b) \<subseteq> entries b \<and> b_next (replay_next B fl ds b) = b_next b"
proof -
  have stay: "entries (end_flush fl (settle i r (b\<lparr>b_stats := st, b_graph := g\<rparr>))) \<subseteq> entries b"
    "entries (set_phase fl (Replaying rest) (settle i r (b\<lparr>b_stats := st, b_graph := g\<rparr>))) \<subseteq> entries b"
    "entries (end_flush fl b) \<subseteq> entries b" for r st g
    using entries_end_flush(1) [of fl "settle i r (b\<lparr>b_stats := st, b_graph := g\<rparr>)"] entries_end_flush(1) [of fl b]
      entries_set_phase [of fl "settle i r (b\<lparr>b_stats := st, b_graph := g\<rparr>)" "Replaying rest"] assms
    by (auto simp: flush_entries_def)
  show ?thesis
    using stay by (auto simp: replay_next_def assms(2) Let_def entries_end_flush(2) set_phase_frame split: prod.splits ending.splits)
qed

lemma step_grows: "batch_step B loop cancels b b' \<Longrightarrow> grows_from b b'"
proof (induction rule: batch_step.induct)
  case (arrives b r)
  then show ?case using submit_frame [of B loop r b] by (auto simp: grows_from_def)
next
  case (lingered h b)
  then show ?case using entries_flush_now [of B "b\<lparr>b_handles := removeAll h (b_handles b)\<rparr>"]
    by (intro grows_fromI) (auto simp: linger_expires_def)
next
  case (begins fl b)
  then show ?case using entries_set_phase [of fl b Committing]
    by (intro grows_fromI) (auto simp: begin_commit_def set_phase_frame)
next
  case (commits fl b ds)
  then show ?case using end_commit_frame [of fl b B ds] by (intro grows_fromI) auto
next
  case (unqueued fl b)
  then show ?case using entries_end_flush(1) [of fl "fail_batch (fl_batch fl) Interrupted b"]
    by (intro grows_fromI) (auto simp: cancel_queued_def fail_batch_settle_all entries_end_flush(2))
next
  case (replays fl b i r rest ds)
  then show ?case using replay_next_frame [of fl b i r rest B ds] by (intro grows_fromI) auto
qed (simp_all add: grows_fromI)

section \<open>Resolution\<close>

text \<open>
  A step commits an entry: the batch transaction of a flush the entry is a member of, or the single
  transaction of its replay, returns with the graph the step leaves, and it is the entry's flag.
\<close>

definition commits_entry :: "batch_env \<Rightarrow> nat \<Rightarrow> obj \<Rightarrow> bool \<Rightarrow> batcher \<Rightarrow> batcher \<Rightarrow> bool" where
  "commits_entry B i record matched b b' \<longleftrightarrow>
     (\<exists>fl ds flags st k. fl \<in> set (b_flushes b) \<and> commit B (fl_batch fl) ds (b_graph b) = Returned (flags, st, b_graph b') \<and>
        k < length (fl_batch fl) \<and> k < length flags \<and> fl_batch fl ! k = (i, record) \<and> flags ! k = matched) \<or>
     (\<exists>ds st. write_single (be_driver B) (be_single B) record ds zero_stats (b_graph b) = Returned ((), st, b_graph b') \<and>
        matched = (entities_enriched st > 0))"

text \<open>The futures a step settles, each flag with the commit it stands for.\<close>

definition justified :: "batch_env \<Rightarrow> batcher \<Rightarrow> batcher \<Rightarrow> (nat \<times> bool ending) list \<Rightarrow> bool" where
  "justified B b b' rs \<longleftrightarrow>
     (\<forall>i m. (i, Returned m) \<in> set rs \<longrightarrow> (\<exists>record. (i, record) \<in> entries b \<and> commits_entry B i record m b b'))"

definition settles_with :: "batch_env \<Rightarrow> batcher \<Rightarrow> batcher \<Rightarrow> (nat \<times> bool ending) list \<Rightarrow> bool" where
  "settles_with B b b' rs \<longleftrightarrow> (\<forall>i < b_next b. b_futures b' i = settled_futures rs b i) \<and> justified B b b' rs"

lemma settles_nothing:
  assumes "\<And>i. i < b_next b \<Longrightarrow> b_futures b' i = b_futures b i" shows "\<exists>rs. settles_with B b b' rs"
proof
  show "settles_with B b b' []" using assms by (auto simp: settles_with_def justified_def settled_futures_def waiting_def)
qed

lemma futures_settle_all: "b_futures (settle_all rs b) = settled_futures rs b"
  by (simp add: settle_all_eq)

lemma settled_futures_frame:
  "settled_futures rs (b\<lparr>b_locked := l\<rparr>) = settled_futures rs b" "settled_futures rs (b\<lparr>b_stats := st\<rparr>) = settled_futures rs b"
  "settled_futures rs (b\<lparr>b_graph := g\<rparr>) = settled_futures rs b"
  by (simp_all add: settled_futures_def waiting_def fun_eq_iff)

lemma end_commit_settles:
  assumes fl: "fl \<in> set (b_flushes b)"
  shows "\<exists>rs. settles_with B b (end_commit B fl ds b) rs"
proof (cases "commit B (fl_batch fl) ds (b_graph b)")
  case (Returned x)
  obtain flags st g where x: "x = (flags, st, g)" by (cases x)
  let ?rs = "zip (map fst (fl_batch fl)) (map Returned flags)"
  let ?b' = "end_commit B fl ds b"
  have fut: "b_futures ?b' = settled_futures ?rs b" and g: "b_graph ?b' = g"
    by (simp_all add: end_commit_def Returned x entries_end_flush resolve_batch_settle_all futures_settle_all settled_futures_frame)
  have "justified B b ?b' ?rs"
    unfolding justified_def
  proof (intro allI impI)
    fix i m assume "(i, Returned m) \<in> set ?rs"
    then obtain k where k: "k < length (fl_batch fl)" "k < length flags" "i = fst (fl_batch fl ! k)" "m = flags ! k"
      by (auto simp: in_set_zip)
    obtain body where mem: "fl_batch fl ! k = (i, body)" using k(3) by (metis prod.collapse)
    have "(i, body) \<in> entries b" using fl k(1) mem nth_mem [OF k(1)] by (auto simp: entries_def flush_entries_def)
    moreover have "commits_entry B i body m b ?b'"
      unfolding commits_entry_def using fl Returned x k mem g by blast
    ultimately show "\<exists>record. (i, record) \<in> entries b \<and> commits_entry B i record m b ?b'" by blast
  qed
  then show ?thesis using fut by (auto simp: settles_with_def)
next
  case (Raised e)
  let ?b' = "end_commit B fl ds b"
  show ?thesis
  proof (cases "transient e \<or> length (fl_batch fl) = 1")
    case True
    then have "b_futures ?b' = settled_futures (map (\<lambda>x. (fst x, Raised e)) (fl_batch fl)) b"
      by (simp add: end_commit_def Raised Let_def entries_end_flush fail_batch_settle_all futures_settle_all settled_futures_frame)
    then show ?thesis by (intro exI [of _ "map (\<lambda>x. (fst x, Raised e)) (fl_batch fl)"]) (auto simp: settles_with_def justified_def)
  next
    case False
    then have "b_futures ?b' = b_futures b" by (simp add: end_commit_def Raised Let_def set_phase_frame)
    then show ?thesis by (intro settles_nothing) simp
  qed
next
  case Interrupted
  then have "b_futures (end_commit B fl ds b) = settled_futures (map (\<lambda>x. (fst x, Interrupted)) (fl_batch fl)) b"
    by (simp add: end_commit_def entries_end_flush fail_batch_settle_all futures_settle_all settled_futures_frame)
  then show ?thesis by (intro exI [of _ "map (\<lambda>x. (fst x, Interrupted)) (fl_batch fl)"]) (auto simp: settles_with_def justified_def)
qed

lemma replay_next_settles:
  assumes fl: "fl \<in> set (b_flushes b)" and phase: "fl_phase fl = Replaying ((i, record) # rest)"
  shows "\<exists>rs. settles_with B b (replay_next B fl ds b) rs"
proof -
  obtain r st g where run: "replay_write B record ds (b_stats b) (b_graph b) = (r, st, g)" by (metis prod_cases3)
  let ?b' = "replay_next B fl ds b"
  show ?thesis
  proof (cases "r = Interrupted")
    case True
    then have "b_futures ?b' = b_futures b" by (simp add: replay_next_def phase run entries_end_flush)
    then show ?thesis by (intro settles_nothing) simp
  next
    case False
    then have b': "?b' = (let b1 = settle i r (b\<lparr>b_stats := st, b_graph := g\<rparr>)
        in if rest = [] then end_flush fl b1 else set_phase fl (Replaying rest) b1)"
      by (cases r) (simp_all add: replay_next_def phase run)
    have fut: "b_futures ?b' = settled_futures [(i, r)] b" and g: "b_graph ?b' = g"
      unfolding b' settle_settle_all
      by (simp_all add: Let_def entries_end_flush set_phase_frame futures_settle_all settled_futures_frame)
    have "(i, record) \<in> entries b" using fl phase by (force simp: entries_def flush_entries_def)
    moreover have "commits_entry B i record m b ?b'" if "r = Returned m" for m
      unfolding commits_entry_def g using run that
      by (auto simp: replay_write_def split: ending.splits)
    ultimately show ?thesis using fut by (intro exI [of _ "[(i, r)]"]) (auto simp: settles_with_def justified_def)
  qed
qed

lemma step_settles: "batch_step B loop cancels b b' \<Longrightarrow> \<exists>rs. settles_with B b b' rs"
proof (induction rule: batch_step.induct)
  case (arrives b r)
  then show ?case using submit_frame [of B loop r b] by (intro settles_nothing) simp
next
  case (lingered h b)
  then show ?case using entries_flush_now [of B "b\<lparr>b_handles := removeAll h (b_handles b)\<rparr>"]
    by (intro settles_nothing) (simp add: linger_expires_def)
next
  case (caller_gone b i)
  show ?case unfolding settle_settle_all
    by (intro exI [of _ "[(i, Interrupted)]"]) (auto simp: settles_with_def justified_def futures_settle_all)
next
  case (begins fl b)
  then show ?case by (intro settles_nothing) (simp add: begin_commit_def set_phase_frame)
next
  case (commits fl b ds)
  then show ?case by (intro end_commit_settles)
next
  case (unqueued fl b)
  then show ?case
    by (intro exI [of _ "map (\<lambda>x. (fst x, Interrupted)) (fl_batch fl)"])
      (auto simp: settles_with_def justified_def cancel_queued_def entries_end_flush fail_batch_settle_all futures_settle_all)
next
  case (replays fl b i r rest ds)
  then show ?case by (intro replay_next_settles)
next
  case (elsewhere b st g)
  show ?case by (intro settles_nothing) simp
qed

section \<open>From submission to resolution\<close>

lemma entries_named_step: "entries_named b \<Longrightarrow> batch_step B loop cancels b b' \<Longrightarrow> entries_named b'"
  using step_grows [of B loop cancels b b'] by (fastforce simp: grows_from_def entries_named_def)

interpretation named: inductive_invariant batcher_start "batch_step B loop cancels" entries_named for B loop cancels
proof unfold_locales
  fix b assume "batcher_start b"
  then show "entries_named b" by cases (simp add: entries_named_def entries_def initial_batcher_def)
qed (rule entries_named_step)

text \<open>The future of an entry, once it has gone through some steps.\<close>

definition resolved_by :: "batch_env \<Rightarrow> nat \<Rightarrow> bool \<Rightarrow> nat \<Rightarrow> obj \<Rightarrow> batcher \<Rightarrow> batcher \<Rightarrow> bool" where
  "resolved_by B loop cancels i record b b' \<longleftrightarrow> waiting b' i \<or>
     (\<exists>e. b_futures b' i = Some (Done e) \<and> (\<forall>m. e = Returned m \<longrightarrow>
        (\<exists>b2 b3. (batch_step B loop cancels)\<^sup>*\<^sup>* b b2 \<and> batch_step B loop cancels b2 b3 \<and>
           (batch_step B loop cancels)\<^sup>*\<^sup>* b3 b' \<and> commits_entry B i record m b2 b3)))"

lemma entry_history:
  assumes "(batch_step B loop cancels)\<^sup>*\<^sup>* b b'" and "i < b_next b" and "\<forall>x \<in> entries b. fst x = i \<longrightarrow> snd x = record" and "waiting b i"
  shows "i < b_next b' \<and> (\<forall>x \<in> entries b'. fst x = i \<longrightarrow> snd x = record) \<and> resolved_by B loop cancels i record b b'"
  using assms(1)
proof (induction rule: rtranclp_induct)
  case base
  then show ?case using assms(2-4) by (simp add: resolved_by_def)
next
  case (step c d)
  have grow: "grows_from c d" by (rule step_grows [OF step.hyps(2)])
  from step_settles [OF step.hyps(2)] obtain rs where rs: "settles_with B c d rs" by blast
  have i: "i < b_next c" using step.IH by blast
  then have fut: "b_futures d i = settled_futures rs c i" using rs by (simp add: settles_with_def)
  have entry: "i < b_next d" "\<forall>x \<in> entries d. fst x = i \<longrightarrow> snd x = record"
    using grow step.IH i by (auto simp: grows_from_def)
  have star: "(batch_step B loop cancels)\<^sup>*\<^sup>* d d" by simp
  have "resolved_by B loop cancels i record b d"
  proof (cases "waiting c i")
    case True
    show ?thesis
    proof (cases "map_of rs i")
      case None
      then have "waiting d i" using fut True by (simp add: settled_futures_def waiting_def)
      then show ?thesis by (simp add: resolved_by_def)
    next
      case (Some e)
      then have "b_futures d i = Some (Done e)" using fut True by (simp add: settled_futures_def)
      moreover have "commits_entry B i record m c d" if "e = Returned m" for m
      proof -
        have "(i, Returned m) \<in> set rs" using map_of_SomeD [OF Some] that by simp
        then obtain body where "(i, body) \<in> entries c" "commits_entry B i body m c d"
          using rs unfolding settles_with_def justified_def by blast
        moreover from this(1) step.IH have "body = record" by auto
        ultimately show ?thesis by simp
      qed
      ultimately show ?thesis unfolding resolved_by_def using step.hyps star by blast
    qed
  next
    case False
    then have same: "b_futures d i = b_futures c i" using fut by (simp add: settled_futures_def)
    from False step.IH obtain e where e: "b_futures c i = Some (Done e)" "\<forall>m. e = Returned m \<longrightarrow>
        (\<exists>b2 b3. (batch_step B loop cancels)\<^sup>*\<^sup>* b b2 \<and> batch_step B loop cancels b2 b3 \<and>
           (batch_step B loop cancels)\<^sup>*\<^sup>* b3 c \<and> commits_entry B i record m b2 b3)"
      by (auto simp: resolved_by_def)
    moreover have "(batch_step B loop cancels)\<^sup>*\<^sup>* b3 d" if "(batch_step B loop cancels)\<^sup>*\<^sup>* b3 c" for b3
      using that step.hyps(2) by (rule rtranclp.rtrancl_into_rtrancl)
    ultimately show ?thesis unfolding resolved_by_def same by blast
  qed
  with entry show ?case by blast
qed

lemma submitted_history:
  assumes "reach batcher_start (batch_step B loop cancels) b" and "(batch_step B loop cancels)\<^sup>*\<^sup>* (submit B loop record b) b'"
  shows "resolved_by B loop cancels (b_next b) record (submit B loop record b) b'"
proof -
  have named: "entries_named b" by (rule named.reachable_inv [OF assms(1)])
  note sub = submit_frame [of B loop "record" b]
  have "\<forall>x \<in> entries (submit B loop record b). fst x = b_next b \<longrightarrow> snd x = record"
    using sub named by (fastforce simp: entries_named_def)
  with sub entry_history [OF assms(2), of "b_next b" "record"] show ?thesis by (auto simp: waiting_def)
qed

end
