(* ===== verification/MediaProperties.thy ===== *)
theory MediaProperties
  imports Dispatch
begin

text \<open>
  Properties of the media projection: what \<open>media_edge_rows\<close> computes, what a reconcile leaves in
  the graph, which media it prunes, and why concurrent media writes cannot wait in a circle.
\<close>

section \<open>Quantities\<close>

text \<open>The quantity a block gives a medium: the sum over the items the loop accepts.\<close>

definition medium_qty :: "json list \<Rightarrow> string \<Rightarrow> int option" where
  "medium_qty items m = (if m \<in> fst ` set (item_keys items)
     then Some (sum_list (map (snd \<circ> snd) (filter (\<lambda>k. fst k = m) (item_keys items)))) else None)"

lemma medium_qty_row:
  "m \<in> fst ` set (item_keys items) \<Longrightarrow> medium_qty items m = Some (er_qty (group_row E (item_keys items) m))"
  by (simp add: medium_qty_def group_row_def)

lemma group_row_medium [simp]: "er_medium (group_row E ks m) = m"
  by (simp add: group_row_def)

lemma medium_qty_ge:
  assumes "medium_qty items m = Some q" shows "1 \<le> q"
proof -
  let ?ks = "filter (\<lambda>k. fst k = m) (item_keys items)"
  have q: "q = sum_list (map (snd \<circ> snd) ?ks)" and "?ks \<noteq> []"
    using assms by (auto simp: medium_qty_def filter_empty_conv split: if_splits)
  have ge: "1 \<le> snd (snd x)" if "x \<in> set ?ks" for x
  proof -
    from that have "x \<in> set (item_keys items)" by simp
    then show ?thesis unfolding item_keys_def set_map_filter_Some by (cases x) (auto dest: item_key_qty_pos)
  qed
  obtain k ks where ks: "?ks = k # ks" using \<open>?ks \<noteq> []\<close> by (cases ?ks) auto
  then have "1 \<le> snd (snd k)" using ge by (metis list.set_intros(1))
  moreover have "0 \<le> sum_list (map (snd \<circ> snd) ks)"
  proof (rule sum_list_nonneg)
    fix y assume "y \<in> set (map (snd \<circ> snd) ks)"
    then obtain x where "x \<in> set ?ks" "y = snd (snd x)" unfolding ks by auto
    with ge show "0 \<le> y" by fastforce
  qed
  ultimately show ?thesis by (simp add: q ks)
qed

lemma group_rows_qty:
  "{Some (er_qty row) | row. row \<in> set (group_rows E (item_keys items)) \<and> er_medium row = m} =
     (case medium_qty items m of None \<Rightarrow> {} | Some q \<Rightarrow> {Some q})"
proof (cases "m \<in> fst ` set (item_keys items)")
  case True
  let ?r = "group_row E (item_keys items) m"
  have mem: "?r \<in> set (group_rows E (item_keys items)) \<and> er_medium ?r = m" using True by (simp add: group_rows_def)
  have "row = ?r" if "row \<in> set (group_rows E (item_keys items)) \<and> er_medium row = m" for row
    using that by (auto simp: group_rows_def)
  with mem have "row \<in> set (group_rows E (item_keys items)) \<and> er_medium row = m \<longleftrightarrow> row = ?r" for row by metis
  then have "{Some (er_qty row) | row. row \<in> set (group_rows E (item_keys items)) \<and> er_medium row = m} = {Some (er_qty ?r)}"
    by (simp only: simp_thms) simp
  then show ?thesis using medium_qty_row [OF True, of E] by simp
next
  case False
  then have none: "\<not> (row \<in> set (group_rows E (item_keys items)) \<and> er_medium row = m)" for row
    unfolding group_rows_def by (force simp: rev_image_eqI)
  moreover have "medium_qty items m = None" using False by (simp add: medium_qty_def)
  ultimately show ?thesis by simp
qed

lemma reconcile_run:
  assumes "reconcile_release_media E d record g = Inr (b, g')"
    and "release_media_block E record = Some media" and "block_items media = Inr items"
  obtains ds where "b" "media_items media = Inr ds"
    "g' = apply_media [media_plan d (families_of E media) ds (group_rows E (item_keys items))]
       (map (Pair d) (group_rows E (item_keys items))) g"
    "good_plan [media_plan d (families_of E media) ds (group_rows E (item_keys items))]
       (map (Pair d) (group_rows E (item_keys items)))"
proof -
  have rows: "media_edge_rows E media = Inr (group_rows E (item_keys items))"
    using assms(3) by (simp add: media_edge_rows_eq)
  have ds: "media_items media = Inr (filter is_dict items)" using assms(3) by (simp add: media_items_def)
  show thesis
    using that [OF _ ds] reconcile_as_plan [OF assms(2) rows ds, of d g] assms(1)
      good_plan_single [OF media_edge_rows_distinct [OF rows]] by simp
qed

lemma plan_view:
  fixes E d items
  defines "rows \<equiv> group_rows E (item_keys items)"
  assumes plan: "good_plan [media_plan d fams ds rows] (map (Pair d) rows)" and node: "nodes g (Release, d) \<noteq> None"
  shows "issued_view (apply_media [media_plan d fams ds rows] (map (Pair d) rows) g) (r, m, s) =
    (if r = d \<and> s = Some MEDIA_SOURCE then (case medium_qty items m of None \<Rightarrow> {} | Some q \<Rightarrow> {Some q})
     else issued_view g (r, m, s))"
proof (cases "r = d \<and> s = Some MEDIA_SOURCE")
  case True
  have "(d, row) \<in> set (map (Pair d) rows) \<longleftrightarrow> row \<in> set rows" for row by auto
  then show ?thesis
    unfolding apply_media_view [OF plan] using True node
    by (simp only: rows_def group_rows_qty simp_thms if_True) simp
next
  case False
  then show ?thesis unfolding apply_media_view [OF plan] by auto
qed

section \<open>Properties\<close>

text \<open>C13: Reconciling a release replaces exactly this source's media of that release: for every medium the
  MusicBrainz edges then carry one quantity, the sum of the quantities of the accepted items of that medium, or
  there is no edge when no item names it; every edge of another release or another source is as before.\<close>

theorem reconcile_replaces_media:
  assumes run: "reconcile_release_media E d record g = Inr (b, g')"
    and block: "release_media_block E record = Some media" and items: "block_items media = Inr items"
    and node: "nodes g (Release, d) \<noteq> None"
  shows "issued_view g' (r, m, s) =
    (if r = d \<and> s = Some MEDIA_SOURCE then (case medium_qty items m of None \<Rightarrow> {} | Some q \<Rightarrow> {Some q})
     else issued_view g (r, m, s))"
proof -
  obtain ds where g': "g' = apply_media [media_plan d (families_of E media) ds (group_rows E (item_keys items))]
       (map (Pair d) (group_rows E (item_keys items))) g"
    and plan: "good_plan [media_plan d (families_of E media) ds (group_rows E (item_keys items))]
       (map (Pair d) (group_rows E (item_keys items)))"
    using run block items by (rule reconcile_run)
  show ?thesis unfolding g' by (rule plan_view [OF plan node])
qed

text \<open>A release with two entries of one medium, reconciled over a catalog that lists another medium.\<close>

lemma sample_block: "release_media_block E sample_release = Some sample_media"
  by (simp add: release_media_block_def sample_release_def sample_media_def)

lemma sample_items: "block_items sample_media = Inr
     [JObj [(''medium'', JStr ''lp''), (''family'', JStr ''vinyl''), (''qty'', JInt 2)],
      JObj [(''medium'', JStr ''lp''), (''family'', JStr ''vinyl'')]]"
  by (simp add: block_items_def sample_media_def py_or_def)

lemma sample_keys: "item_keys [JObj [(''medium'', JStr ''lp''), (''family'', JStr ''vinyl''), (''qty'', JInt 2)],
      JObj [(''medium'', JStr ''lp''), (''family'', JStr ''vinyl'')]] = [(''lp'', ''vinyl'', 2), (''lp'', ''vinyl'', 1)]"
  by (simp add: item_keys_def item_key_def item_qty_def map_filter_simps)

lemma sample_reconciles: "\<exists>g'. reconcile_release_media E d sample_release g = Inr (True, g')"
proof -
  obtain rows where "media_edge_rows E sample_media = Inr rows" by (simp add: media_edge_rows_def sample_items)
  moreover obtain ds where "media_items sample_media = Inr ds" by (simp add: media_items_def sample_items)
  ultimately show ?thesis using reconcile_as_plan [OF sample_block] by blast
qed

lemma reconcile_replaces_media_witness:
  "\<exists>g'. reconcile_release_media sample_env ''1'' sample_release sample_graph = Inr (True, g') \<and>
     issued_view g' (''1'', ''lp'', Some MEDIA_SOURCE) = {Some 3} \<and> issued_view g' (''1'', ''cd'', Some MEDIA_SOURCE) = {}"
proof -
  obtain g' where run: "reconcile_release_media sample_env ''1'' sample_release sample_graph = Inr (True, g')"
    using sample_reconciles by blast
  have "nodes sample_graph (Release, ''1'') \<noteq> None" by (simp add: sample_graph_def)
  from reconcile_replaces_media [OF run sample_block sample_items this]
  show ?thesis using run by (auto simp: medium_qty_def sample_keys)
qed

text \<open>C14: A reconcile prunes a medium exactly when it has just detached this release from it (this source linked the
  release to it and the event no longer names it), no other edge of any release or source uses it, and no other
  relationship touches it; every other medium of the vocabulary survives.\<close>

theorem reconcile_prunes_orphans_only:
  assumes run: "reconcile_release_media E d record g = Inr (b, g')"
    and block: "release_media_block E record = Some media" and items: "block_items media = Inr items"
    and node: "nodes g (Release, d) \<noteq> None" and present: "mediums g m \<noteq> None"
  shows "mediums g' m = None \<longleftrightarrow>
    issued_view g (d, m, Some MEDIA_SOURCE) \<noteq> {} \<and> medium_qty items m = None \<and>
    (\<forall>r s. (r, s) \<noteq> (d, Some MEDIA_SOURCE) \<longrightarrow> issued_view g (r, m, s) = {}) \<and> m \<notin> other_rels g"
proof -
  obtain ds where g': "g' = apply_media [media_plan d (families_of E media) ds (group_rows E (item_keys items))]
       (map (Pair d) (group_rows E (item_keys items))) g"
    and plan: "good_plan [media_plan d (families_of E media) ds (group_rows E (item_keys items))]
       (map (Pair d) (group_rows E (item_keys items)))"
    using run block items by (rule reconcile_run)
  have detached: "detached [media_plan d (families_of E media) ds (group_rows E (item_keys items))] g m \<longleftrightarrow>
      issued_view g (d, m, Some MEDIA_SOURCE) \<noteq> {} \<and> medium_qty items m = None"
    using node by (auto simp: stale_edge_def own_edge_of_def summary_key_def issued_view_def media_plan_def
      group_rows_mediums medium_qty_def)
  note view = plan_view [OF plan node]
  show ?thesis
    unfolding g' apply_media_mediums [OF plan present] detached view by (auto split: option.splits)
qed

lemma reconcile_prunes_orphans_only_witness:
  "\<exists>g'. reconcile_release_media sample_env ''1'' sample_release sample_graph = Inr (True, g') \<and>
     mediums sample_graph ''cd'' \<noteq> None \<and> mediums g' ''cd'' = None"
proof -
  obtain g' where run: "reconcile_release_media sample_env ''1'' sample_release sample_graph = Inr (True, g')"
    using sample_reconciles by blast
  have node: "nodes sample_graph (Release, ''1'') \<noteq> None" and cd: "mediums sample_graph ''cd'' \<noteq> None"
    by (simp_all add: sample_graph_def)
  have "issued_view sample_graph (r, ''cd'', s) = {}" if "(r, s) \<noteq> (''1'', Some MEDIA_SOURCE)" for r s
    using that by (auto simp: issued_view_def sample_graph_def MEDIA_SOURCE_def)
  moreover have "issued_view sample_graph (''1'', ''cd'', Some MEDIA_SOURCE) \<noteq> {}"
    by (simp add: issued_view_def sample_graph_def MEDIA_SOURCE_def)
  moreover have "''cd'' \<notin> other_rels sample_graph" by (simp add: sample_graph_def)
  ultimately show ?thesis
    using run cd reconcile_prunes_orphans_only [OF run sample_block sample_items node cd]
    by (auto simp: medium_qty_def sample_keys)
qed

text \<open>The loop of \<open>media_edge_rows\<close> is a group-by: one row per medium in order of first appearance, with the
  family of its first accepted item, the label of the vocabulary (the id itself when unknown) and the sum of the
  quantities, which is at least one.\<close>

theorem media_edge_rows_group_by:
  assumes rows: "media_edge_rows E media = Inr rows"
  shows "\<exists>items. block_items media = Inr items \<and> map er_medium rows = firsts (map fst (item_keys items)) \<and>
    distinct (map er_medium rows) \<and>
    (\<forall>row \<in> set rows. medium_qty items (er_medium row) = Some (er_qty row) \<and> 1 \<le> er_qty row \<and>
       er_label row = medium_label_or_id E (er_medium row) \<and>
       er_family row = fst (the (map_of (item_keys items) (er_medium row))))"
proof -
  obtain items where items: "block_items media = Inr items" "rows = group_rows E (item_keys items)"
    using rows by (auto simp: media_edge_rows_eq res_simps)
  have qty: "medium_qty items (er_medium row) = Some (er_qty row)" if "row \<in> set rows" for row
  proof -
    from that obtain m where "m \<in> fst ` set (item_keys items)" "row = group_row E (item_keys items) m"
      by (auto simp: items(2) group_rows_def)
    then show ?thesis using medium_qty_row [of m items E] by simp
  qed
  then have "1 \<le> er_qty row" if "row \<in> set rows" for row using medium_qty_ge that by blast
  moreover have "er_label row = medium_label_or_id E (er_medium row) \<and>
      er_family row = fst (the (map_of (item_keys items) (er_medium row)))" if "row \<in> set rows" for row
    using that by (auto simp: items(2) group_rows_def group_row_def)
  ultimately show ?thesis
    using items qty media_edge_rows_distinct [OF rows] by (auto simp: group_rows_mediums)
qed

lemma media_edge_rows_group_by_witness:
  "\<exists>rows. media_edge_rows sample_env sample_media = Inr rows \<and> map er_medium rows = [''lp''] \<and>
     (\<forall>row \<in> set rows. er_qty row = 3)"
proof -
  obtain rows where rows: "media_edge_rows sample_env sample_media = Inr rows"
    by (simp add: media_edge_rows_def sample_items)
  from media_edge_rows_group_by [OF rows] show ?thesis
    by (auto simp: rows sample_items sample_keys firsts_def medium_qty_def split: if_splits)
qed

text \<open>C15: Concurrent media writes cannot deadlock on the vocabulary: whatever lock each transaction waits for next
  (\<open>pos\<close> counts the locks it holds), the relation ``waits for a lock the other holds'' has no cycle, because every
  write takes its locks along one global order.\<close>

theorem media_writes_never_deadlock: "acyclic (waits_for pos)"
  unfolding waits_for_def by (rule tx_locks.no_circular_wait)

text \<open>C16: Every vocabulary node a media write will touch (the media and families of its rows, the media it detaches
  and their families) is locked before the first edge is written, provided rows of one medium agree on its family.\<close>

theorem touched_vocabulary_is_locked:
  assumes agree: "\<And>x y. x \<in> snd ` set items \<Longrightarrow> y \<in> snd ` set items \<Longrightarrow> er_medium x = er_medium y \<Longrightarrow>
      er_family x = er_family y"
  shows "touched_vocabulary S items g \<subseteq> set (fst (lock_media_in_order (map summary_key S) (map snd items) g))"
  using agree by (rule touched_locked)

lemma touched_vocabulary_is_locked_witness:
  "touched_vocabulary [\<lparr>ms_release = ''1'', ms_families = JNull, ms_count = 1, ms_medium_ids = [''lp'']\<rparr>]
     [(''1'', \<lparr>er_medium = ''lp'', er_family = ''vinyl'', er_label = ''LP'', er_qty = 1\<rparr>)] sample_graph \<subseteq>
   set (fst (lock_media_in_order [(''1'', [''lp''])]
     [\<lparr>er_medium = ''lp'', er_family = ''vinyl'', er_label = ''LP'', er_qty = 1\<rparr>] sample_graph))"
  using touched_vocabulary_is_locked [of "[(''1'', \<lparr>er_medium = ''lp'', er_family = ''vinyl'', er_label = ''LP'', er_qty = 1\<rparr>)]"
      "[\<lparr>ms_release = ''1'', ms_families = JNull, ms_count = 1, ms_medium_ids = [''lp'']\<rparr>]" sample_graph]
  by (simp add: summary_key_def)

end
