(* ===== verification/ProjectionProperties.thy ===== *)
theory ProjectionProperties
  imports MediaProperties
begin

text \<open>
  Properties of the four per-record projections, stated over the table \<open>PROCESSORS\<close> that the
  delivery handler selects them from: territory, counting, idempotence under redelivery, what a
  matched and an unmatched record does to its node, and the errors of malformed relations.
\<close>

section \<open>The node a record addresses\<close>

text \<open>Label, id key and projected fields of a data type; the row of a record.\<close>

definition target_label :: "string \<Rightarrow> nlabel" where
  "target_label dt = (if dt = ''artists'' then Artist else if dt = ''labels'' then Label
     else if dt = ''release-groups'' then Master else Release)"

definition target_key :: "string \<Rightarrow> string" where
  "target_key dt = (if dt = ''artists'' then ''discogs_artist_id'' else if dt = ''labels'' then ''discogs_label_id''
     else if dt = ''release-groups'' then ''discogs_master_id'' else ''discogs_release_id'')"

definition target_fields :: "string \<Rightarrow> fields" where
  "target_fields dt = (if dt = ''artists'' then ARTIST_FIELDS else if dt = ''labels'' then LABEL_FIELDS
     else if dt = ''release-groups'' then RELEASE_GROUP_FIELDS else RELEASE_FIELDS)"

definition target_row :: "string \<Rightarrow> obj \<Rightarrow> obj res" where
  "target_row dt = (if dt = ''artists'' then artist_row else if dt = ''labels'' then label_row
     else if dt = ''release-groups'' then release_group_row else release_row)"

lemmas target_simps = target_label_def target_key_def target_fields_def target_row_def

lemma gated_write_None: "nodes g (l, d) = None \<Longrightarrow> gated_write E l fs d row h now g = (None, g)"
  by (simp add: gated_write_def)

lemma gated_write_fst_None: "gated_write E l fs d row h now g = (m, g1) \<Longrightarrow> (m = None) = (nodes g (l, d) = None)"
  by (auto simp: gated_write_def split: option.splits)

lemma record_outcome_None: "snd (record_outcome None st) = skip_no_match st" "\<not> fst (record_outcome None st)"
  by (simp_all add: record_outcome_def skip_no_match_def)

lemma node_enrich_unmatched:
  assumes "node_enrich E now l fs k build extra ev (st, g) = Inr (st', g')"
    and "dget ev k = JNull \<or> nodes g (l, py_str (dget ev k)) = None"
  shows "g' = g \<and> st' = skip_no_match st"
  using assms by (auto simp: node_enrich_def res_simps gated_write_None record_outcome_None split: if_splits)

section \<open>The node a matched record leaves\<close>

text \<open>The digest a record is gated by.\<close>

definition target_hash :: "env \<Rightarrow> string \<Rightarrow> obj \<Rightarrow> obj \<Rightarrow> string" where
  "target_hash E dt ev row = payload_hash E [JObj row,
     (if dt = ''artists'' then py_or (dget ev ''relations'') (JArr [])
      else if dt = ''releases'' then (case media_digest E ev of Inr x \<Rightarrow> x | Inl _ \<Rightarrow> JNull) else JNull)]"

lemma set_fields_field:
  "distinct (map fst fs) \<Longrightarrow> (p, k) \<in> set fs \<Longrightarrow>
     set_fields fs row n p = (if dget row k = JNull then None else Some (dget row k))"
  by (simp add: set_fields_apply rev_map [symmetric])

lemma distinct_entity_fields: "distinct (map fst (target_fields dt))"
  by (simp add: target_fields_def ARTIST_FIELDS_def LABEL_FIELDS_def RELEASE_FIELDS_def RELEASE_GROUP_FIELDS_def)

lemma clean_target_fields: "clean_fields (target_fields dt)"
  by (simp add: target_fields_def clean_entity_fields)

definition projected_node :: "env \<Rightarrow> fields \<Rightarrow> string \<Rightarrow> obj \<Rightarrow> string \<Rightarrow> props \<Rightarrow> props \<Rightarrow> bool" where
  "projected_node E fs now row h n n' \<longleftrightarrow>
     (if gate_open E h n
      then n' ''mb_hash'' = Some (JStr h) \<and> n' ''mb_updated_at'' = Some (JStr now) \<and>
        (\<forall>(p, k) \<in> set fs. n' p = (if dget row k = JNull then None else Some (dget row k)))
      else n' = n)"

lemma projected_node_write:
  assumes "clean_fields fs" and "distinct (map fst fs)"
  shows "projected_node E fs now row h n (node_write E fs now (row, h) n)"
proof -
  have "write_props fs row h now n p = (if dget row k = JNull then None else Some (dget row k))" if "(p, k) \<in> set fs" for p k
  proof -
    have "p \<noteq> ''mb_updated_at''" "p \<noteq> ''mb_hash''" using assms(1) that by (force simp: clean_fields_def)+
    then show ?thesis by (simp only: write_props_apply [OF assms(1)] set_fields_field [OF assms(2) that] if_False)
  qed
  then show ?thesis
    by (auto simp: projected_node_def node_write_def write_props_apply [OF assms(1)])
qed

lemma projected_node_cong:
  assumes "projected_node E fs now row h n n'" and "\<not> gate_open E h n \<Longrightarrow> n'' = n'"
    and "\<And>p. p \<in> {''mb_hash'', ''mb_updated_at''} \<union> fst ` set fs \<Longrightarrow> n'' p = n' p"
  shows "projected_node E fs now row h n n''"
proof (cases "gate_open E h n")
  case True
  have "n'' p = (if dget row k = JNull then None else Some (dget row k))" if "(p, k) \<in> set fs" for p k
  proof -
    from that have "n'' p = n' p" by (intro assms(3)) force
    moreover have "n' p = (if dget row k = JNull then None else Some (dget row k))"
      using assms(1) that True unfolding projected_node_def by (auto simp del: if_split)
    ultimately show ?thesis by simp
  qed
  then show ?thesis using assms(1,3) True by (auto simp: projected_node_def)
qed (use assms(1,2) in \<open>simp add: projected_node_def\<close>)

lemma gated_write_node:
  assumes "gated_write E l fs d row h now g = (m, g1)"
  shows "nodes g1 (l, d) = map_option (node_write E fs now (row, h)) (nodes g (l, d))"
  using nodes_gated_write [of E l fs d row h now g "(l, d)"] assms by simp

lemma gated_write_changed:
  "gated_write E l fs d row h now g = (m, g1) \<Longrightarrow> nodes g (l, d) = Some n \<Longrightarrow>
     fst (record_outcome m st) = gate_open E h n"
  by (auto simp: gated_write_def record_outcome_def Let_def)

lemma node_enrich_node:
  assumes "node_enrich E now l fs k build extra ev (st, g) = Inr (st', g')"
    and "dget ev k \<noteq> JNull" and "nodes g (l, py_str (dget ev k)) = Some n"
    and fs: "clean_fields fs" "distinct (map fst fs)"
  shows "\<exists>row x n'. build ev = Inr row \<and> extra ev = Inr x \<and> nodes g' (l, py_str (dget ev k)) = Some n' \<and>
    projected_node E fs now row (payload_hash E [JObj row, x]) n n'"
proof -
  obtain row x where rx: "build ev = Inr row" "extra ev = Inr x"
    using assms(1,2) by (auto simp: node_enrich_def res_simps)
  obtain m g1 where gw: "gated_write E l fs (py_str (dget ev k)) row (payload_hash E [JObj row, x]) now g = (m, g1)"
    by fastforce
  then have "g1 = g'" using assms(1,2) rx by (simp add: node_enrich_def)
  with rx gated_write_node [OF gw] assms(3) projected_node_write [OF fs] show ?thesis by simp
qed

lemma reconciled_node:
  assumes "reconcile_release_media E r ev g = Inr (b, g')" and "nodes g k = Some n"
  shows "\<exists>n'. nodes g' k = Some n' \<and> (\<forall>p. p \<noteq> ''mb_medium_count'' \<longrightarrow> p \<noteq> ''mb_media_families'' \<longrightarrow> n' p = n p)"
  using assms(1)
proof (cases rule: reconcile_cases)
  case 1
  then show ?thesis using assms(2) by simp
next
  case (2 media rows items)
  have "nodes g' k \<noteq> None" unfolding 2(5) nodes_apply_media_dom using assms(2) by simp
  then obtain n' where n': "nodes g' k = Some n'" by blast
  with apply_media_prop [OF assms(2), of _ _ n'] 2(5) show ?thesis by blast
qed

lemma sample_ids: "py_str (JInt 1) = ''1''" "py_str (JInt 2) = ''2''" "py_str (JInt 7) = ''7''"
  by code_simp+

section \<open>Properties\<close>

text \<open>C21: A projection stays in the service's territory: it never creates or deletes a catalog node, changes only
  properties whose name starts with \<open>mb\<close>, never touches a media edge of another source, only adds artist edges and
  families, and leaves no dangling edge.\<close>

theorem processors_stay_in_territory:
  assumes "map_of (PROCESSORS E now) data_type = Some f" and "f ev (st, g) = Inr (st', g')"
  shows "graph_frame g g'"
  using enricher.frames [OF processor_enricher [OF assms(1)] assms(2)] .

lemma processors_stay_in_territory_witness:
  "\<exists>st' g'. enrich_artist sample_env ''t'' sample_artist (zero_stats, sample_graph) = Inr (st', g') \<and>
     graph_frame sample_graph g'"
proof -
  obtain st' g' where run: "enrich_artist sample_env ''t'' sample_artist (zero_stats, sample_graph) = Inr (st', g')"
    using not_isl_Inr [OF sample_artist_runs] by blast
  moreover have "map_of (PROCESSORS sample_env ''t'') ''artists'' = Some (enrich_artist sample_env ''t'')"
    by (simp add: PROCESSORS_def)
  ultimately show ?thesis using processors_stay_in_territory by blast
qed

text \<open>A projected record is counted exactly once, as enriched or as without a catalog match, and an unchanged
  replay is counted only for an enriched record.\<close>

theorem processors_count_once:
  assumes "map_of (PROCESSORS E now) data_type = Some f" and "f ev (st, g) = Inr (st', g')"
  shows "counted_once st st'"
  using enricher.counts [OF processor_enricher [OF assms(1)] assms(2)] .

lemma processors_count_once_witness:
  "\<exists>st' g'. enrich_release sample_env ''t'' sample_release (zero_stats, sample_graph) = Inr (st', g') \<and>
     counted_once zero_stats st'"
proof -
  obtain st' g' where run: "enrich_release sample_env ''t'' sample_release (zero_stats, sample_graph) = Inr (st', g')"
    using not_isl_Inr [OF sample_release_runs] by blast
  moreover have "map_of (PROCESSORS sample_env ''t'') ''releases'' = Some (enrich_release sample_env ''t'')"
    by (simp add: PROCESSORS_def)
  ultimately show ?thesis using processors_count_once by blast
qed

text \<open>C1: Redelivery is idempotent: with the replay gate on, projecting a record again, at any later time and any number
  of times, succeeds, leaves the graph exactly as the first delivery left it, creates no relationship, and counts as
  replays every enrichment it reports.\<close>

theorem redelivery_is_idempotent:
  assumes "map_of (PROCESSORS (gated E) now) data_type = Some f" and "f ev (st, g) = Inr (st1, g1)"
    and "map_of (PROCESSORS (gated E) later) data_type = Some f'"
  shows "\<exists>st'. f' ev (st2, g1) = Inr (st', g1) \<and> replay_counts st2 st'"
  using assms(1,3,2) by (rule processor_replay)

lemma redelivery_is_idempotent_witness:
  "\<exists>st1 g1 st'. enrich_release (gated sample_env) ''t'' sample_release (zero_stats, sample_graph) = Inr (st1, g1) \<and>
     enrich_release (gated sample_env) ''u'' sample_release (st1, g1) = Inr (st', g1) \<and> replay_counts st1 st'"
proof -
  obtain st1 g1 where run: "enrich_release (gated sample_env) ''t'' sample_release (zero_stats, sample_graph) = Inr (st1, g1)"
    using not_isl_Inr [OF sample_release_runs] by blast
  have "map_of (PROCESSORS (gated sample_env) t) ''releases'' = Some (enrich_release (gated sample_env) t)" for t
    by (simp add: PROCESSORS_def)
  from redelivery_is_idempotent [OF this run this] run show ?thesis by blast
qed

text \<open>A record without a catalog id, or whose id names no node of the catalog, changes nothing: the graph is as
  before and the only statistic that moves is \<open>entities_skipped_no_discogs_match\<close>, by one.\<close>

theorem unmatched_records_change_nothing:
  assumes "map_of (PROCESSORS E now) data_type = Some f" and "f ev (st, g) = Inr (st', g')"
    and "dget ev (target_key data_type) = JNull \<or>
      nodes g (target_label data_type, py_str (dget ev (target_key data_type))) = None"
  shows "g' = g \<and> st' = skip_no_match st"
  using assms(1)
proof (cases rule: processor_cases)
  case 1
  with assms(2) have run: "enrich_artist E now ev (st, g) = Inr (st', g')" by simp
  from run show ?thesis
  proof (cases rule: enrich_artist_Inr)
    case (2 row g1)
    with gated_write_fst_None [OF 2(3)] show ?thesis by (auto simp: gated_write_def split: option.splits)
  next
    case (3 row m g1)
    with gated_write_fst_None [OF 3(3)] assms(3) \<open>data_type = ''artists''\<close> show ?thesis by (auto simp: target_simps)
  qed simp
next
  case 2
  with assms(2,3) show ?thesis
    by (intro node_enrich_unmatched) (simp_all add: enrich_label_node target_simps)
next
  case 3
  with assms(2,3) show ?thesis
    by (intro node_enrich_unmatched) (simp_all add: enrich_release_group_node target_simps)
next
  case 4
  with assms(2) have run: "enrich_release E now ev (st, g) = Inr (st', g')" by simp
  from run show ?thesis
  proof (cases rule: enrich_release_Inr)
    case (2 row media m g1 g2 b)
    with assms(3) \<open>data_type = ''releases''\<close> have "nodes g (Release, py_str (dget ev ''discogs_release_id'')) = None"
      by (simp add: target_simps)
    with 2 show ?thesis by (simp add: gated_write_None record_outcome_None)
  qed simp
qed

lemma unmatched_records_change_nothing_witness:
  "\<exists>st' g'. enrich_label sample_env ''t'' [(''discogs_label_id'', JInt 7)] (zero_stats, sample_graph) = Inr (st', g') \<and>
     g' = sample_graph \<and> st' = skip_no_match zero_stats"
proof -
  have "\<not> isl (enrich_label sample_env ''t'' [(''discogs_label_id'', JInt 7)] (zero_stats, sample_graph))"
    by (simp add: enrich_label_def label_row_def life_span_def py_or_def Let_def split: prod.split)
  then obtain st' g' where run: "enrich_label sample_env ''t'' [(''discogs_label_id'', JInt 7)] (zero_stats, sample_graph) = Inr (st', g')"
    using not_isl_Inr by blast
  have "nodes sample_graph (Label, py_str (JInt 7)) = None"
    by (simp add: sample_graph_def sample_ids)
  then have unm: "dget [(''discogs_label_id'', JInt 7)] (target_key ''labels'') = JNull \<or>
      nodes sample_graph (target_label ''labels'', py_str (dget [(''discogs_label_id'', JInt 7)] (target_key ''labels''))) = None"
    by (simp add: target_simps dget_def)
  have proc: "map_of (PROCESSORS sample_env ''t'') ''labels'' = Some (enrich_label sample_env ''t'')"
    by (simp add: PROCESSORS_def)
  from unmatched_records_change_nothing [OF proc run unm] run show ?thesis by blast
qed

text \<open>C22: A matched record is projected onto its node: when the stored digest differs (or the gate is off) every
  projected property takes the value of the record's row, null removing it, and the digest and time of change are
  stamped; when the digest is the stored one the node is left exactly as it was.\<close>

theorem matched_records_are_projected:
  assumes "map_of (PROCESSORS E now) data_type = Some f" and "f ev (st, g) = Inr (st', g')"
    and "dget ev (target_key data_type) \<noteq> JNull"
    and "nodes g (target_label data_type, py_str (dget ev (target_key data_type))) = Some n"
  shows "\<exists>row n'. target_row data_type ev = Inr row \<and>
    nodes g' (target_label data_type, py_str (dget ev (target_key data_type))) = Some n' \<and>
    projected_node E (target_fields data_type) now row (target_hash E data_type ev row) n n'"
  using assms(1)
proof (cases rule: processor_cases)
  case 1
  from assms(2) have run: "enrich_artist E now ev (st, g) = Inr (st', g')" using 1 by simp
  from run show ?thesis
  proof (cases rule: enrich_artist_Inr)
    case (3 row m g1)
    with gated_write_node [OF 3(3)] assms(4) 1 have
      "nodes g' (Artist, py_str (dget ev ''discogs_artist_id'')) =
         Some (node_write E ARTIST_FIELDS now (row, target_hash E ''artists'' ev row) n)"
      using nodes_relation_steps [of "py_str (dget ev ''discogs_artist_id'')" "record_relations ev"
          "(snd (record_outcome (Some m) st), g1)"]
      by (simp add: target_simps target_hash_def) (metis snd_conv)
    with 1 3(2) projected_node_write [OF clean_target_fields distinct_entity_fields, of E "''artists''" now row] show ?thesis
      by (auto simp: target_simps)
  next
    case (2 row g1)
    with gated_write_fst_None [OF 2(3)] assms(4) 1 show ?thesis by (simp add: target_simps)
  qed (use assms(3) 1 in \<open>simp add: target_simps\<close>)
next
  case 2
  with assms have "node_enrich E now Label LABEL_FIELDS ''discogs_label_id'' label_row (\<lambda>_. Inr JNull) ev (st, g) = Inr (st', g')"
    by (simp add: enrich_label_node)
  from node_enrich_node [OF this] assms(3,4) clean_target_fields distinct_entity_fields [of "''labels''"] 2 show ?thesis
    by (simp add: target_simps target_hash_def clean_entity_fields)
next
  case 3
  with assms have "node_enrich E now Master RELEASE_GROUP_FIELDS ''discogs_master_id'' release_group_row (\<lambda>_. Inr JNull) ev (st, g) = Inr (st', g')"
    by (simp add: enrich_release_group_node)
  from node_enrich_node [OF this] assms(3,4) distinct_entity_fields [of "''release-groups''"] 3 show ?thesis
    by (simp add: target_simps target_hash_def clean_entity_fields)
next
  case 4
  from assms(2) have run: "enrich_release E now ev (st, g) = Inr (st', g')" using 4 by simp
  from run show ?thesis
  proof (cases rule: enrich_release_Inr)
    case (2 row media m g1 g2 b)
    have node: "nodes g (Release, py_str (dget ev ''discogs_release_id'')) = Some n"
      using assms(4) 4 by (simp add: target_simps)
    let ?h = "payload_hash E [JObj row, media]"
    let ?n1 = "node_write E RELEASE_FIELDS now (row, ?h) n"
    have n1: "nodes g1 (Release, py_str (dget ev ''discogs_release_id'')) = Some ?n1"
      using gated_write_node [OF 2(4)] node by simp
    have "projected_node E RELEASE_FIELDS now row ?h n ?n1"
      using projected_node_write [OF clean_target_fields distinct_entity_fields, of E "''releases''"] by (simp add: target_simps)
    moreover have "\<exists>n2. nodes g2 (Release, py_str (dget ev ''discogs_release_id'')) = Some n2 \<and>
        (\<forall>p. p \<noteq> ''mb_medium_count'' \<longrightarrow> p \<noteq> ''mb_media_families'' \<longrightarrow> n2 p = ?n1 p) \<and>
        (\<not> gate_open E ?h n \<longrightarrow> n2 = ?n1)"
    proof (cases "gate_open E ?h n")
      case True
      with 2(5) have "reconcile_release_media E (py_str (dget ev ''discogs_release_id'')) ev g1 = Inr (b, g2)"
        by (simp only: gated_write_changed [OF 2(4) node] if_True)
      from reconciled_node [OF this n1] True show ?thesis by blast
    next
      case False
      with 2(5) have "g2 = g1" by (simp only: gated_write_changed [OF 2(4) node] if_False)
      with n1 show ?thesis by blast
    qed
    then obtain n2 where n2: "nodes g2 (Release, py_str (dget ev ''discogs_release_id'')) = Some n2"
      and same: "\<And>p. p \<noteq> ''mb_medium_count'' \<Longrightarrow> p \<noteq> ''mb_media_families'' \<Longrightarrow> n2 p = ?n1 p"
      and closed: "\<not> gate_open E ?h n \<Longrightarrow> n2 = ?n1" by blast
    have plain: "p \<noteq> ''mb_medium_count''" "p \<noteq> ''mb_media_families''"
      if "p \<in> {''mb_hash'', ''mb_updated_at''} \<union> fst ` set RELEASE_FIELDS" for p
      using that by (auto simp: RELEASE_FIELDS_def)
    ultimately have "projected_node E RELEASE_FIELDS now row ?h n n2"
      by (elim projected_node_cong) (erule closed, blast intro: same plain)
    with 2 n2 4 show ?thesis by (auto simp: target_simps target_hash_def)
  qed (use assms(3) 4 in \<open>auto simp: target_simps\<close>)
qed

lemma matched_records_are_projected_witness:
  "\<exists>st' g' n'. enrich_label sample_env ''t'' sample_label (zero_stats, sample_graph) = Inr (st', g') \<and>
     nodes g' (Label, ''1'') = Some n' \<and> n' ''mb_type'' = Some (JStr ''Imprint'') \<and> n' ''mb_updated_at'' = Some (JStr ''t'')"
proof -
  obtain st' g' where run: "enrich_label sample_env ''t'' sample_label (zero_stats, sample_graph) = Inr (st', g')"
    using not_isl_Inr [OF sample_label_runs] by blast
  have id: "dget sample_label (target_key ''labels'') = JInt 1" and one: "py_str (JInt 1) = ''1''"
    by (simp_all add: target_simps sample_label_def dget_def sample_ids)
  have "map_of (PROCESSORS sample_env ''t'') ''labels'' = Some (enrich_label sample_env ''t'')"
    and "nodes sample_graph (target_label ''labels'', ''1'') = Some Map.empty"
    by (simp_all add: PROCESSORS_def sample_graph_def target_simps)
  from matched_records_are_projected [OF this(1) run, of Map.empty] this(2) id one obtain row n' where
    row: "label_row sample_label = Inr row" and n': "nodes g' (Label, ''1'') = Some n'"
      "projected_node sample_env LABEL_FIELDS ''t'' row (target_hash sample_env ''labels'' sample_label row) Map.empty n'"
    by (auto simp: target_simps)
  have "dget row ''mb_type'' = JStr ''Imprint''"
    using row by (auto simp: label_row_def life_span_def sample_label_def py_or_def res_simps)
  moreover have "gate_open sample_env h Map.empty" for h by (simp add: gate_open_def)
  moreover have "(''mb_type'', ''mb_type'') \<in> set LABEL_FIELDS" by (simp add: LABEL_FIELDS_def)
  ultimately have "n' ''mb_type'' = Some (JStr ''Imprint'') \<and> n' ''mb_updated_at'' = Some (JStr ''t'')"
    using n'(2) unfolding projected_node_def by fastforce
  with run n'(1) show ?thesis by blast
qed

end
