(* ===== verification/ServiceProperties.thy ===== *)
theory ServiceProperties
  imports Lifecycle
begin

text \<open>
  Properties of the consumer lifecycle: the bookkeeping of every reachable state, what control and
  data messages do to completion and timers, what a recovery run can end in, when health may be
  reported, how idleness closes the transport, and what shutdown leaves.
\<close>

section \<open>A concrete service\<close>

definition sample_settings :: settings where
  "sample_settings = \<lparr>CONSUMER_CANCEL_DELAY = 300, STARTUP_IDLE_TIMEOUT = 30, QUEUE_CHECK_INTERVAL = 3600, RECENT = 10\<rparr>"

definition sample_svc :: svc where
  "sample_svc = start_service (\<lambda>e. e) (\<lambda>e. ''tag-'' @ e) 100 (initial_svc\<lparr>graph_driver := True\<rparr>)"

lemma sample_svc_reachable: "reach svc_start (svc_step S) sample_svc"
  unfolding sample_svc_def by (intro reach_start svc_start.intros)

lemma sample_svc_eq: "sample_svc = initial_svc\<lparr>graph_driver := True, active_connection := True, active_channel := True,
    queues := map (\<lambda>e. (e, e)) ENTITY_TYPES, consumer_watch_started_at := 100,
    consumer_tags := map (\<lambda>e. (e, ''tag-'' @ e)) ENTITY_TYPES,
    connection_consumer_tags := map (\<lambda>e. (e, ''tag-'' @ e)) ENTITY_TYPES, consumer_gauge := 4\<rparr>"
  by (simp add: sample_svc_def start_service_def register_consumer_def initial_svc_def ENTITY_TYPES_def)

lemma entity_count: "card (set ENTITY_TYPES) = 4" "length ENTITY_TYPES = 4" "distinct ENTITY_TYPES"
  by (simp_all add: ENTITY_TYPES_def)

section \<open>Bookkeeping\<close>

text \<open>C24: In every reachable state the active-consumer gauge equals the number of registered subscriptions, there is at
  most one per entity, every subscription has a transport and was registered on the current connection.\<close>

theorem subscriptions_are_accounted_for:
  assumes "reach svc_start (svc_step S) s"
  shows "consumer_gauge s = int (length (consumer_tags s)) \<and> consumer_gauge s \<le> 4 \<and> distinct (map fst (consumer_tags s)) \<and>
    (consumer_tags s \<noteq> [] \<longrightarrow> active_connection s \<or> active_channel s) \<and>
    (\<forall>e tag. map_of (consumer_tags s) e = Some tag \<longrightarrow> e \<in> set ENTITY_TYPES \<and> map_of (connection_consumer_tags s) e = Some tag)"
proof -
  have ok: "tags_ok s" using service.reachable_inv [OF assms] by (simp add: svc_ok_def)
  then have "card (set (map fst (consumer_tags s))) \<le> card (set ENTITY_TYPES)"
    by (intro card_mono) (auto simp: tags_ok_def)
  then have "length (consumer_tags s) \<le> 4"
    using ok distinct_card [of "map fst (consumer_tags s)"] by (simp add: tags_ok_def entity_count)
  moreover have "e \<in> set ENTITY_TYPES \<and> map_of (connection_consumer_tags s) e = Some tag"
    if "map_of (consumer_tags s) e = Some tag" for e tag
    using ok that map_of_SomeD [OF that] by (force simp: tags_ok_def map_le_def)
  ultimately show ?thesis using ok by (simp add: tags_ok_def)
qed

lemma subscriptions_are_accounted_for_witness: "consumer_gauge sample_svc = 4 \<and> consumer_gauge sample_svc \<le> 4"
  using subscriptions_are_accounted_for [OF sample_svc_reachable] by (simp add: sample_svc_eq)

text \<open>C25: In every reachable state a data type has at most one live cancellation timer, and it is the one registered for
  it: a restarted or re-armed data type can never be cancelled by a timer of an earlier extraction.\<close>

theorem one_live_timer_per_type:
  assumes "reach svc_start (svc_step S) s" and "t \<in> set (tasks s)" "\<not> t_cancelled t"
    and "u \<in> set (tasks s)" "\<not> t_cancelled u" and "t_type t = t_type u"
  shows "t = u \<and> map_of (consumer_cancel_tasks s) (t_type t) = Some (t_id t)"
proof -
  have ok: "timers_ok s" using service.reachable_inv [OF assms(1)] by (simp add: svc_ok_def)
  from live_registered [OF ok assms(2,3)] live_registered [OF ok assms(4,5)] assms(6)
  have "t_id t = t_id u" by simp
  with task_unique [OF ok assms(2,4)] live_registered [OF ok assms(2,3)] show ?thesis by simp
qed

definition sample_timer :: timer_task where
  "sample_timer = \<lparr>t_id = 0, t_type = ''artists'', t_phase = Sleeping, t_cancelled = False\<rparr>"

definition sample_done :: svc where
  "sample_done = snd (check_file_completion sample_settings (JStr ''file_complete'') ''artists'' sample_svc)"

lemma sample_completed: "check_file_completion sample_settings (JStr ''file_complete'') ''artists'' sample_svc = (True, sample_done)"
  by (simp add: sample_done_def check_file_completion_def Let_def)

lemma sample_done_eq: "sample_done = sample_svc\<lparr>tasks := [sample_timer], next_task := 1,
    consumer_cancel_tasks := [(''artists'', 0)], completed_files := {''artists''}\<rparr>"
  by (simp add: sample_done_def check_file_completion_def Let_def sample_settings_def sample_svc_eq has_key_def
    ENTITY_TYPES_def schedule_consumer_cancellation_def initial_svc_def sample_timer_def)

lemma sample_done_reachable: "reach svc_start (svc_step sample_settings) sample_done"
proof -
  have "''artists'' \<in> set ENTITY_TYPES" by (simp add: ENTITY_TYPES_def)
  from reach_step [OF sample_svc_reachable svc_step.control [OF this sample_completed]] show ?thesis .
qed

lemma one_live_timer_per_type_witness: "map_of (consumer_cancel_tasks sample_done) ''artists'' = Some (t_id sample_timer)"
  using one_live_timer_per_type [OF sample_done_reachable, of sample_timer sample_timer]
  by (simp add: sample_done_eq sample_timer_def)

section \<open>Completion, data and timers\<close>

text \<open>C28: A data message protects its consumer: it re-arms the starvation alarm of its data type (no longer complete),
  keeps every subscription, and leaves no live timer for the data type, so a grace timer of an earlier extraction can
  only end, never cancel the consumer that is receiving the new one.\<close>

theorem data_message_protects_its_consumer:
  assumes "reach svc_start (svc_step S) s" and "s' = rearm e s"
  shows "e \<notin> completed_files s' \<and> consumer_tags s' = consumer_tags s \<and> map_of (consumer_cancel_tasks s') e = None \<and>
    (\<forall>t \<in> set (tasks s'). t_type t = e \<longrightarrow> t_cancelled t \<and> consumer_tags (timer_cancelled t s') = consumer_tags s)"
proof -
  have ok: "timers_ok s'" using service.reachable_inv [OF assms(1)] svc_ok_building(2) assms(2) by (simp add: svc_ok_def)
  have none: "map_of (consumer_cancel_tasks s') e = None"
    by (simp add: assms(2) rearm_def Let_def cancel_task_def delete_conv' split: option.split)
  have tags: "consumer_tags s' = consumer_tags s" "e \<notin> completed_files s'"
    by (simp_all add: assms(2) rearm_def Let_def cancel_task_def split: option.split)
  have "t_cancelled t" if "t \<in> set (tasks s')" "t_type t = e" for t
    using live_registered [OF ok that(1)] that(2) none by auto
  moreover have "consumer_tags (timer_cancelled t s') = consumer_tags s'" for t
    by (simp add: timer_cancelled_def cancel_consumer_def end_task_def Let_def split: phase.split)
  ultimately show ?thesis using none tags by simp
qed

lemma data_message_protects_its_consumer_witness:
  "''artists'' \<notin> completed_files (rearm ''artists'' sample_done) \<and> map_of (consumer_cancel_tasks (rearm ''artists'' sample_done)) ''artists'' = None"
  using data_message_protects_its_consumer [OF sample_done_reachable refl, of "''artists''"] by blast

lemma schedule_facts:
  "consumer_tags (schedule_consumer_cancellation e s) = consumer_tags s"
  "map_of (consumer_cancel_tasks (schedule_consumer_cancellation e s)) e = Some (next_task s)"
  "\<lparr>t_id = next_task s, t_type = e, t_phase = Sleeping, t_cancelled = False\<rparr> \<in> set (tasks (schedule_consumer_cancellation e s))"
  by (simp_all add: schedule_consumer_cancellation_def Let_def cancel_task_def update_conv' split: option.split)

lemma schedule_completed:
  "schedule_consumer_cancellation e (s\<lparr>completed_files := f\<rparr>) = (schedule_consumer_cancellation e s)\<lparr>completed_files := f\<rparr>"
  by (simp add: schedule_consumer_cancellation_def Let_def cancel_task_def split: option.split)

lemma control_result:
  assumes "kind \<in> {JStr ''file_complete'', JStr ''extraction_complete''}" and "CONSUMER_CANCEL_DELAY S > 0" and "has_key e (queues s)"
  shows "\<exists>f. e \<in> f \<and> check_file_completion S kind e s = (True, (schedule_consumer_cancellation e s)\<lparr>completed_files := f\<rparr>)"
proof -
  from assms(1) have "kind = JStr ''file_complete'' \<or> kind = JStr ''extraction_complete''" by simp
  then show ?thesis
  proof (elim disjE)
  assume "kind = JStr ''file_complete''"
  then show ?thesis
    using assms(2,3) by (simp add: check_file_completion_def Let_def)
      (rule exI [of _ "insert e (completed_files (schedule_consumer_cancellation e s))"], simp)
next
  assume "kind = JStr ''extraction_complete''"
  then show ?thesis
    using assms(2,3) by (simp add: check_file_completion_def Let_def has_key_def schedule_completed)
      (rule exI [of _ "insert e (completed_files s)"], simp)
  qed
qed

text \<open>A control message of either kind marks its data type complete and, when delayed cancellation is on and the
  queue is open, leaves exactly one live timer for it, the one it started, whatever timers were running; without the
  delay it starts none. Subscriptions are untouched.\<close>

theorem control_message_arms_one_timer:
  assumes "reach svc_start (svc_step S) s" and "kind \<in> {JStr ''file_complete'', JStr ''extraction_complete''}"
    and "CONSUMER_CANCEL_DELAY S > 0" and "has_key e (queues s)"
  shows "\<exists>s'. check_file_completion S kind e s = (True, s') \<and> e \<in> completed_files s' \<and> consumer_tags s' = consumer_tags s \<and>
    {t \<in> set (tasks s'). t_type t = e \<and> \<not> t_cancelled t} =
      {\<lparr>t_id = next_task s, t_type = e, t_phase = Sleeping, t_cancelled = False\<rparr>}"
proof -
  let ?t = "\<lparr>t_id = next_task s, t_type = e, t_phase = Sleeping, t_cancelled = False\<rparr>"
  obtain f where f: "e \<in> f" and run: "check_file_completion S kind e s = (True, (schedule_consumer_cancellation e s)\<lparr>completed_files := f\<rparr>)"
    using control_result [OF assms(2-4)] by blast
  define s' where "s' = (schedule_consumer_cancellation e s)\<lparr>completed_files := f\<rparr>"
  note run = run [folded s'_def]
  have s': "e \<in> completed_files s'" "consumer_tags s' = consumer_tags s" "tasks s' = tasks (schedule_consumer_cancellation e s)"
      "map_of (consumer_cancel_tasks s') e = Some (next_task s)"
    by (simp_all add: s'_def f schedule_facts)
  have ok: "timers_ok s'"
    using svc_ok_check_file_completion [OF run service.reachable_inv [OF assms(1)]] by (simp add: svc_ok_def)
  have mem: "?t \<in> set (tasks s')"
    unfolding s'(3) by (rule schedule_facts)
  have only: "t = ?t" if t: "t \<in> set (tasks s')" "t_type t = e" "\<not> t_cancelled t" for t
  proof -
    have "t_id t = next_task s" using live_registered [OF ok t(1,3)] t(2) s'(4) by simp
    then show ?thesis using task_unique [OF ok t(1) mem] by simp
  qed
  have "{t \<in> set (tasks s'). t_type t = e \<and> \<not> t_cancelled t} = {?t}"
  proof (rule equalityI)
    show "{t \<in> set (tasks s'). t_type t = e \<and> \<not> t_cancelled t} \<subseteq> {?t}" using only by blast
    show "{?t} \<subseteq> {t \<in> set (tasks s'). t_type t = e \<and> \<not> t_cancelled t}" using mem by simp
  qed
  with run s' show ?thesis by blast
qed

lemma control_message_arms_one_timer_witness:
  "\<exists>s'. check_file_completion sample_settings (JStr ''extraction_complete'') ''artists'' sample_done = (True, s') \<and>
     {t \<in> set (tasks s'). t_type t = ''artists'' \<and> \<not> t_cancelled t} =
       {\<lparr>t_id = 1, t_type = ''artists'', t_phase = Sleeping, t_cancelled = False\<rparr>}"
proof -
  have "CONSUMER_CANCEL_DELAY sample_settings > 0" "has_key ''artists'' (queues sample_done)" "next_task sample_done = 1"
    by (simp_all add: sample_settings_def sample_done_eq sample_svc_eq has_key_def ENTITY_TYPES_def)
  note facts = this
  have kind: "JStr ''extraction_complete'' \<in> {JStr ''file_complete'', JStr ''extraction_complete''}" by simp
  from control_message_arms_one_timer [OF sample_done_reachable kind facts(1,2)] show ?thesis unfolding facts(3) by blast
qed

text \<open>A cancellation the broker does not confirm (failure, timeout, interruption) loses nothing: the subscription stays
  registered, the timer ends, and the next queue check starts a recovery whatever the other settings are.\<close>

theorem unconfirmed_cancellation_recovers:
  assumes "answer \<noteq> CancelOk" and "s' = timer_answered t tag answer channel_ok connection_ok s"
  shows "consumer_tags s' = consumer_tags s \<and> consumer_gauge s' = consumer_gauge s \<and>
    active_connection s' = active_connection s \<and> t \<notin> set (tasks s') \<and>
    check_queues S R now (t0, s') = (t0, recover_consumers R s')"
proof -
  have s': "s' = end_task t (s\<lparr>consumer_recovery_requested := True\<rparr>)"
    using assms by (simp add: timer_answered_def cancel_consumer_def)
  then have "consumer_recovery_requested s'" by (simp add: end_task_def Let_def)
  then show ?thesis by (simp add: check_queues_def) (simp add: s' end_task_def Let_def)
qed

lemma unconfirmed_cancellation_recovers_witness:
  "consumer_tags (timer_answered sample_timer ''tag-artists'' CancelFailed True True sample_done) = consumer_tags sample_done"
  using unconfirmed_cancellation_recovers [of CancelFailed _ sample_timer "''tag-artists''" True True sample_done, OF _ refl]
  by simp

text \<open>When the broker confirms the cancellation of the last subscription and every data type is complete, the service
  goes idle: the transport is closed, no subscription or gauge count remains and the starvation watch stops.\<close>

theorem last_cancellation_closes_transport:
  assumes "svc_ok s" and "consumer_tags s = [(t_type t, tag)]"
    and "card (completed_files s) = length ENTITY_TYPES" and "s' = timer_answered t tag CancelOk True True s"
  shows "\<not> active_connection s' \<and> \<not> active_channel s' \<and> consumer_tags s' = [] \<and> connection_consumer_tags s' = [] \<and>
    consumer_gauge s' = 0 \<and> consumer_watch_started_at s' = 0 \<and>
    consumer_recovery_requested s' = consumer_recovery_requested s"
proof -
  have ok: "tags_ok s" using assms(1) by (simp add: svc_ok_def)
  let ?s1 = "s\<lparr>consumer_tags := [], consumer_gauge := consumer_gauge s - 1\<rparr>"
  have "cancel_consumer (t_type t) tag True CancelOk s = (True, ?s1)" by (simp add: cancel_consumer_def assms(2))
  moreover have "check_all_consumers_idle ?s1" using assms(3) by (simp add: check_all_consumers_idle_def)
  ultimately have s': "s' = end_task t (close_rabbitmq_connection True True ?s1)"
    by (simp add: assms(4) timer_answered_def)
  have "active_connection s \<or> active_channel s" "consumer_gauge s = 1" using ok assms(2) by (auto simp: tags_ok_def)
  then show ?thesis unfolding s'
    by (cases "active_connection s"; cases "active_channel s")
      (simp_all add: close_rabbitmq_connection_def end_task_def Let_def)
qed

definition sample_last :: svc where
  "sample_last = initial_svc\<lparr>graph_driver := True, active_connection := True, active_channel := True,
     consumer_watch_started_at := 100, consumer_tags := [(''artists'', ''tag'')],
     connection_consumer_tags := [(''artists'', ''tag'')], consumer_gauge := 1, completed_files := set ENTITY_TYPES\<rparr>"

lemma last_cancellation_closes_transport_witness:
  "consumer_gauge (timer_answered sample_timer ''tag'' CancelOk True True sample_last) = 0"
proof -
  have "svc_ok sample_last"
    by (simp add: svc_ok_def tags_ok_def timers_ok_def sample_last_def initial_svc_def ENTITY_TYPES_def map_le_def)
  moreover have "consumer_tags sample_last = [(t_type sample_timer, ''tag'')]"
    "card (completed_files sample_last) = length ENTITY_TYPES"
    by (simp_all add: sample_last_def sample_timer_def entity_count)
  ultimately show ?thesis using last_cancellation_closes_transport [OF _ _ _ refl] by blast
qed

section \<open>Recovery, alarm and health\<close>

text \<open>The queues that had a backlog when a recovery run looked.\<close>

definition backlogged :: "recover_env \<Rightarrow> string set" where
  "backlogged R = {e \<in> set ENTITY_TYPES. \<exists>n. re_backlog R e = Some n \<and> 0 < n}"

lemma probe_queues_Some:
  "probe_queues backlog es = Some pending \<Longrightarrow> fst ` set pending = {e \<in> set es. \<exists>n. backlog e = Some n \<and> 0 < n}"
proof (induction es arbitrary: pending)
  case (Cons e es)
  from Cons.prems obtain n rest where n: "backlog e = Some n" "probe_queues backlog es = Some rest"
    "pending = (if n > 0 then (e, n) # rest else rest)"
    by (auto split: option.splits)
  have "fst ` set pending = (if 0 < n then insert e (fst ` set rest) else fst ` set rest)" by (simp add: n(3))
  with Cons.IH [OF n(2)] n(1) show ?case by auto
qed simp

lemma has_key_fst: "has_key e d \<longleftrightarrow> e \<in> fst ` set d"
  by (simp add: has_key_def map_of_eq_None_iff)

lemma recovery_outcome:
  assumes "reach svc_start (svc_step S) s" and "s' = recover_consumers R s"
  shows "consumer_recovery_requested s' \<or>
    (\<not> active_connection s' \<and> \<not> active_channel s' \<and> consumer_tags s' = [] \<and> backlogged R = {}) \<or>
    (active_connection s' \<and> active_channel s' \<and> set (map fst (consumer_tags s')) = set ENTITY_TYPES \<and>
     consumer_gauge s' = 4 \<and> completed_files s' \<inter> backlogged R = {} \<and> backlogged R \<noteq> {})"
proof -
  have ok: "svc_ok s" by (rule service.reachable_inv [OF assms(1)])
  have ok': "tags_ok s'" using svc_ok_recover [OF ok, of R] assms(2) by (simp add: svc_ok_def)
  have tags: "tags_ok s" using ok by (simp add: svc_ok_def)
  from tags show ?thesis
  proof (cases rule: recover_cases [where R = R])
    case stuck
    then show ?thesis by (simp add: assms(2))
  next
    case (offline u)
    then show ?thesis by (simp add: assms(2))
  next
    case (recovered u s3)
    from restart_run(7) [OF recovered(11) recovered(1,2) TrueI] show ?thesis
    proof
      assume idle: "probe_queues (re_backlog R) ENTITY_TYPES = Some [] \<and> s3 = u"
      then have "backlogged R = {}" using probe_queues_Some [of "re_backlog R" ENTITY_TYPES "[]"] by (simp add: backlogged_def)
      with idle recovered show ?thesis by (simp add: assms(2))
    next
      assume "\<exists>pending. probe_queues (re_backlog R) ENTITY_TYPES = Some pending \<and> pending \<noteq> [] \<and>
         active_connection s3 \<and> active_channel s3 \<and>
         (\<forall>e \<in> set ENTITY_TYPES. has_key e (consumer_tags s3) \<and> (has_key e pending \<longrightarrow> e \<notin> completed_files s3))"
      then obtain pending where p: "probe_queues (re_backlog R) ENTITY_TYPES = Some pending" "pending \<noteq> []"
        "active_connection s3" "active_channel s3"
        "\<And>e. e \<in> set ENTITY_TYPES \<Longrightarrow> has_key e (consumer_tags s3)"
        "\<And>e. e \<in> set ENTITY_TYPES \<Longrightarrow> has_key e pending \<Longrightarrow> e \<notin> completed_files s3" by blast
      have backl: "fst ` set pending = backlogged R" using probe_queues_Some [OF p(1)] by (simp add: backlogged_def)
      have s3: "s' = s3" using recovered by (simp add: assms(2))
      have all: "set (map fst (consumer_tags s')) = set ENTITY_TYPES"
        using ok' p(5) by (auto simp: tags_ok_def s3 has_key_fst)
      then have "length (consumer_tags s') = 4"
        using ok' distinct_card [of "map fst (consumer_tags s')"] by (simp add: tags_ok_def entity_count)
      then have "consumer_gauge s' = 4" using ok' by (simp add: tags_ok_def)
      moreover have "completed_files s' \<inter> backlogged R = {}"
        using p(6) backl by (auto simp: s3 has_key_fst) (auto simp: backlogged_def)
      moreover have "backlogged R \<noteq> {}" using backl p(2) by auto
      ultimately show ?thesis using p(3,4) all by (simp add: s3)
    qed
  next
    case (failed u s3)
    have "consumer_recovery_requested s'"
      unfolding assms(2) failed(10) by (rule close_frame) simp
    then show ?thesis by blast
  qed
qed

text \<open>C26: A recovery run ends in one of three ways: it asks to be tried again; or no queue had a backlog and the service
  stays disconnected without subscriptions; or the service is connected with all four data types subscribed and counted,
  every data type with a backlog un-completed, so nothing that is waiting is starved.\<close>

theorem recovery_ends_in_one_of_three_ways:
  assumes "reach svc_start (svc_step S) s" and "s' = recover_consumers R s"
  shows "consumer_recovery_requested s' \<or>
    (\<not> active_connection s' \<and> \<not> active_channel s' \<and> consumer_tags s' = [] \<and> backlogged R = {}) \<or>
    (active_connection s' \<and> active_channel s' \<and> set (map fst (consumer_tags s')) = set ENTITY_TYPES \<and>
     consumer_gauge s' = 4 \<and> completed_files s' \<inter> backlogged R = {} \<and> backlogged R \<noteq> {})"
  using assms by (rule recovery_outcome)

definition sample_recovery :: recover_env where
  "sample_recovery = \<lparr>re_close_channel = True, re_close_connection = True, re_connects = True, re_backlog = (\<lambda>_. Some 1),
     re_qos = True, re_declare = (\<lambda>e. Some e), re_consume = (\<lambda>e. Some e), re_close_temp = True,
     re_teardown_channel = True, re_teardown_connection = True, re_now = (\<lambda>_. 200), re_start = 200\<rparr>"

lemma recovery_ends_in_one_of_three_ways_witness:
  "consumer_gauge (recover_consumers sample_recovery sample_done) = 4 \<and>
     ''artists'' \<notin> completed_files (recover_consumers sample_recovery sample_done)"
proof -
  have backl: "''artists'' \<in> backlogged sample_recovery"
    by (simp add: backlogged_def sample_recovery_def ENTITY_TYPES_def)
  have "\<not> consumer_recovery_requested (recover_consumers sample_recovery sample_done)"
    by (simp add: recover_consumers_def sample_done_eq sample_svc_eq initial_svc_def close_rabbitmq_connection_def
      sample_recovery_def drop_timers_def cancel_task_def restart_consumers_def ENTITY_TYPES_def register_consumer_def
      has_key_def Let_def)
  with recovery_ends_in_one_of_three_ways [OF sample_done_reachable refl, of sample_recovery] backl show ?thesis by blast
qed

text \<open>
  When a data type is starved: it is not complete and either it has no subscription although traffic
  was seen or the grace period is over, or its siblings are complete after the grace period and it
  never received a record.
\<close>

definition starved :: "settings \<Rightarrow> int \<Rightarrow> svc \<Rightarrow> string \<Rightarrow> bool" where
  "starved S now s e \<longleftrightarrow> e \<in> set ENTITY_TYPES \<and> e \<notin> completed_files s \<and>
     (map_of (consumer_tags s) e = None \<and> ((\<exists>x \<in> set ENTITY_TYPES. 0 < message_counts s x) \<or> grace_expired S now s) \<or>
      grace_expired S now s \<and> 3 \<le> card (completed_files s) \<and> last_message_time s e \<le> 0)"

lemma alarm_exact: "e \<in> set (consumer_alarm_types S now s) \<longleftrightarrow> starved S now s e"
  by (auto simp: consumer_alarm_types_def starved_def traffic_seen_def has_key_def entity_count Let_def)

lemma no_alarm: "consumer_alarm_types S now s = [] \<longleftrightarrow> (\<forall>e. \<not> starved S now s e)"
proof -
  have "consumer_alarm_types S now s = [] \<longleftrightarrow> (\<forall>e. e \<notin> set (consumer_alarm_types S now s))"
    by (cases "consumer_alarm_types S now s") auto
  then show ?thesis by (simp only: alarm_exact)
qed

text \<open>C27: Starvation never persists silently: when a data type is starved, the next queue check runs a recovery, after
  which the data type is subscribed, or no queue has a message waiting, or another recovery has been requested.\<close>

theorem starvation_is_recovered:
  assumes "reach svc_start (svc_step S) s" and "starved S now s e" and "s' = snd (check_queues S R now (t0, s))"
  shows "map_of (consumer_tags s') e \<noteq> None \<or> backlogged R = {} \<or> consumer_recovery_requested s'"
proof -
  have "consumer_alarm_types S now s \<noteq> []" using assms(2) by (auto simp: no_alarm)
  then have s': "s' = recover_consumers R s" by (simp add: assms(3) check_queues_def)
  have "e \<in> set ENTITY_TYPES" using assms(2) by (simp add: starved_def)
  with recovery_outcome [OF assms(1) s'] show ?thesis by (auto simp: map_of_eq_None_iff)
qed

text \<open>Completing three data types leaves the fourth starved once the grace period is over.\<close>

definition sample_complete :: "string \<Rightarrow> svc \<Rightarrow> svc" where
  "sample_complete e s = snd (check_file_completion sample_settings (JStr ''file_complete'') e s)"

lemma sample_complete_facts:
  "completed_files (sample_complete e s) = insert e (completed_files s)"
  "consumer_watch_started_at (sample_complete e s) = consumer_watch_started_at s"
  "last_message_time (sample_complete e s) = last_message_time s"
  by (simp_all add: sample_complete_def check_file_completion_def Let_def schedule_consumer_cancellation_def
    cancel_task_def split: option.split)

lemma sample_complete_reachable:
  "reach svc_start (svc_step sample_settings) s \<Longrightarrow> e \<in> set ENTITY_TYPES \<Longrightarrow>
     reach svc_start (svc_step sample_settings) (sample_complete e s)"
proof -
  assume s: "reach svc_start (svc_step sample_settings) s" and e: "e \<in> set ENTITY_TYPES"
  have "check_file_completion sample_settings (JStr ''file_complete'') e s = (True, sample_complete e s)"
    by (simp add: sample_complete_def check_file_completion_def Let_def)
  from reach_step [OF s svc_step.control [OF e this]] show ?thesis .
qed

lemma starvation_is_recovered_witness:
  "\<exists>s. reach svc_start (svc_step sample_settings) s \<and> starved sample_settings 500 s ''labels'' \<and>
     (let s' = snd (check_queues sample_settings sample_recovery 500 (0, s)) in
        map_of (consumer_tags s') ''labels'' \<noteq> None \<or> consumer_recovery_requested s')"
proof -
  define s where "s = sample_complete ''releases'' (sample_complete ''release-groups'' (sample_complete ''artists'' sample_svc))"
  have r: "reach svc_start (svc_step sample_settings) s"
    unfolding s_def by (intro sample_complete_reachable sample_svc_reachable) (simp_all add: ENTITY_TYPES_def)
  have "completed_files s = {''releases'', ''release-groups'', ''artists''}" "last_message_time s ''labels'' = 0"
    "consumer_watch_started_at s = 100"
    by (simp_all add: s_def sample_complete_facts sample_svc_eq initial_svc_def)
  then have st: "starved sample_settings 500 s ''labels''"
    by (simp add: starved_def grace_expired_def sample_settings_def ENTITY_TYPES_def)
  have "''artists'' \<in> backlogged sample_recovery" by (simp add: backlogged_def sample_recovery_def ENTITY_TYPES_def)
  with starvation_is_recovered [OF r st refl, of sample_recovery 0] r st show ?thesis by (auto simp: Let_def)
qed

text \<open>Health is truthful: the service reports itself healthy exactly when the database driver exists, no recovery is
  requested and no data type is starved.\<close>

theorem healthy_means_served:
  "h_status (get_health_data S now s) = ''healthy'' \<longleftrightarrow>
     graph_driver s \<and> \<not> consumer_recovery_requested s \<and> (\<forall>e. \<not> starved S now s e)"
  by (simp add: get_health_data_def Let_def no_alarm)

section \<open>Shutdown\<close>

lemma interrupt_timers_frame:
  "consumer_tags (interrupt_timers s) = consumer_tags s" "queues (interrupt_timers s) = queues s"
proof -
  have one: "consumer_tags (timer_cancelled t u) = consumer_tags u \<and> queues (timer_cancelled t u) = queues u" for t u
    by (simp add: timer_cancelled_def cancel_consumer_def end_task_def Let_def split: phase.split)
  have "consumer_tags (fold timer_cancelled ts u) = consumer_tags u \<and> queues (fold timer_cancelled ts u) = queues u" for ts u
    by (induction ts arbitrary: u) (simp_all add: one)
  then show "consumer_tags (interrupt_timers s) = consumer_tags s" "queues (interrupt_timers s) = queues s"
    by (simp_all add: interrupt_timers_def Let_def)
qed

text \<open>One immediate cancel for each of the given subscriptions.\<close>

definition cancel_one :: "(string \<Rightarrow> cancel_result) \<Rightarrow> string \<times> string \<Rightarrow> svc \<Rightarrow> svc" where
  "cancel_one answers x u = snd (cancel_consumer (fst x) (snd x) (has_key (fst x) (queues u)) (answers (fst x)) u)"

definition confirmed :: "(string \<Rightarrow> cancel_result) \<Rightarrow> svc \<Rightarrow> string \<times> string \<Rightarrow> bool" where
  "confirmed answers s x \<longleftrightarrow> has_key (fst x) (queues s) \<and> answers (fst x) = CancelOk"

lemma cancel_one_facts:
  "queues (cancel_one answers x u) = queues u" "tasks (cancel_one answers x u) = tasks u"
  "consumer_cancel_tasks (cancel_one answers x u) = consumer_cancel_tasks u"
  "distinct (map fst (consumer_tags u)) \<Longrightarrow> x \<in> set (consumer_tags u) \<Longrightarrow>
     consumer_tags (cancel_one answers x u) =
       (if confirmed answers u x then filter (\<lambda>y. fst y \<noteq> fst x) (consumer_tags u) else consumer_tags u)"
  "consumer_recovery_requested (cancel_one answers x u) \<longleftrightarrow> consumer_recovery_requested u \<or> \<not> confirmed answers u x"
proof -
  show "queues (cancel_one answers x u) = queues u" "tasks (cancel_one answers x u) = tasks u"
    "consumer_cancel_tasks (cancel_one answers x u) = consumer_cancel_tasks u"
    "consumer_recovery_requested (cancel_one answers x u) \<longleftrightarrow> consumer_recovery_requested u \<or> \<not> confirmed answers u x"
    by (simp_all add: cancel_one_def cancel_consumer_def confirmed_def)
  assume "distinct (map fst (consumer_tags u))" "x \<in> set (consumer_tags u)"
  then have "map_of (consumer_tags u) (fst x) = Some (snd x)" by (cases x) simp
  then show "consumer_tags (cancel_one answers x u) =
       (if confirmed answers u x then filter (\<lambda>y. fst y \<noteq> fst x) (consumer_tags u) else consumer_tags u)"
    by (auto simp: cancel_one_def cancel_consumer_def confirmed_def AList.delete_eq intro!: filter_cong)
qed

lemma cancel_many:
  assumes "distinct (map fst (consumer_tags u))" and "distinct (map fst d)" and "set d \<subseteq> set (consumer_tags u)"
  shows "consumer_tags (fold (cancel_one answers) d u) =
      filter (\<lambda>x. \<not> (fst x \<in> fst ` set d \<and> confirmed answers u x)) (consumer_tags u) \<and>
    tasks (fold (cancel_one answers) d u) = tasks u \<and>
    consumer_cancel_tasks (fold (cancel_one answers) d u) = consumer_cancel_tasks u \<and>
    (consumer_recovery_requested (fold (cancel_one answers) d u) \<longleftrightarrow>
       consumer_recovery_requested u \<or> (\<exists>x \<in> set d. \<not> confirmed answers u x))"
  using assms
proof (induction d arbitrary: u)
  case (Cons x d)
  let ?u = "cancel_one answers x u"
  have x: "x \<in> set (consumer_tags u)" using Cons.prems(3) by simp
  note one = cancel_one_facts [where answers = answers and x = x and u = u]
  have conf: "confirmed answers ?u y = confirmed answers u y" for y by (simp add: confirmed_def one(1))
  have tags: "consumer_tags ?u = (if confirmed answers u x then filter (\<lambda>y. fst y \<noteq> fst x) (consumer_tags u) else consumer_tags u)"
    by (rule one(4) [OF Cons.prems(1) x])
  have "distinct (map fst (consumer_tags ?u))" using Cons.prems(1) by (simp add: tags distinct_map_filter)
  moreover have "set d \<subseteq> set (consumer_tags ?u)" using Cons.prems(2,3) by (auto simp: tags image_iff)
  moreover have "distinct (map fst d)" using Cons.prems(2) by simp
  ultimately have IH: "consumer_tags (fold (cancel_one answers) d ?u) =
      filter (\<lambda>y. \<not> (fst y \<in> fst ` set d \<and> confirmed answers ?u y)) (consumer_tags ?u) \<and>
    tasks (fold (cancel_one answers) d ?u) = tasks ?u \<and>
    consumer_cancel_tasks (fold (cancel_one answers) d ?u) = consumer_cancel_tasks ?u \<and>
    (consumer_recovery_requested (fold (cancel_one answers) d ?u) \<longleftrightarrow>
       consumer_recovery_requested ?u \<or> (\<exists>y \<in> set d. \<not> confirmed answers ?u y))"
    by (intro Cons.IH)
  have "filter (\<lambda>y. \<not> (fst y \<in> fst ` set d \<and> confirmed answers u y)) (consumer_tags ?u) =
      filter (\<lambda>y. \<not> (fst y \<in> fst ` set (x # d) \<and> confirmed answers u y)) (consumer_tags u)"
    unfolding tags by (auto simp: confirmed_def intro!: filter_cong)
  with IH one(2,3,5) show ?case by (simp add: conf)
qed simp

text \<open>Shutdown stops deliveries: after the immediate cancels no cancellation timer is registered or live, exactly the
  subscriptions the broker confirmed (through an open queue handle) are gone, and any other one has requested recovery.\<close>

theorem shutdown_cancels_confirmed_subscriptions:
  assumes "reach svc_start (svc_step S) s" and "s' = cancel_all_consumers answers s"
  shows "consumer_cancel_tasks s' = [] \<and> (\<forall>t \<in> set (tasks s'). t_cancelled t) \<and>
    consumer_tags s' = filter (\<lambda>x. \<not> confirmed answers s x) (consumer_tags s) \<and>
    (consumer_tags s' \<noteq> [] \<longrightarrow> consumer_recovery_requested s')"
proof -
  have ok: "svc_ok s" by (rule service.reachable_inv [OF assms(1)])
  let ?s1 = "interrupt_timers s"
  have step: "(\<lambda>(e, tag) u. snd (cancel_consumer e tag (has_key e (queues u)) (answers e) u)) = cancel_one answers"
    by (auto simp: cancel_one_def fun_eq_iff)
  have s': "s' = fold (cancel_one answers) (consumer_tags s) ?s1"
    unfolding assms(2) cancel_all_consumers_def Let_def step interrupt_timers_frame ..
  have keys: "distinct (map fst (consumer_tags s))" using ok by (simp add: svc_ok_def tags_ok_def)
  have conf: "confirmed answers ?s1 x = confirmed answers s x" for x by (simp add: confirmed_def interrupt_timers_frame)
  have run: "consumer_tags s' = filter (\<lambda>x. \<not> (fst x \<in> fst ` set (consumer_tags s) \<and> confirmed answers s x)) (consumer_tags s)"
    "tasks s' = tasks ?s1" "consumer_cancel_tasks s' = consumer_cancel_tasks ?s1"
    "consumer_recovery_requested s' \<longleftrightarrow> consumer_recovery_requested ?s1 \<or> (\<exists>x \<in> set (consumer_tags s). \<not> confirmed answers s x)"
    using cancel_many [of ?s1 "consumer_tags s" answers] keys by (simp_all add: s' conf interrupt_timers_frame)
  have tags: "consumer_tags s' = filter (\<lambda>x. \<not> confirmed answers s x) (consumer_tags s)"
    unfolding run(1) by (rule filter_cong) auto
  then have "consumer_tags s' \<noteq> [] \<longrightarrow> consumer_recovery_requested s'"
    unfolding run(4) by (auto simp: filter_empty_conv)
  with tags run(2,3) svc_ok_interrupt_timers(2,3) [OF ok] show ?thesis by simp
qed

lemma shutdown_cancels_confirmed_subscriptions_witness:
  "consumer_tags (cancel_all_consumers (\<lambda>_. CancelOk) sample_done) = []"
proof -
  have "confirmed (\<lambda>_. CancelOk) sample_done x" if "x \<in> set (consumer_tags sample_done)" for x
    using that by (auto simp: confirmed_def has_key_def sample_done_eq sample_svc_eq ENTITY_TYPES_def)
  with shutdown_cancels_confirmed_subscriptions [OF sample_done_reachable refl, of "\<lambda>_. CancelOk"] show ?thesis
    by (simp add: filter_empty_conv)
qed

end
