(* ===== verification/DeliveryProperties.thy ===== *)
theory DeliveryProperties
  imports Delivery ProjectionProperties ServiceProperties
begin

text \<open>
  Properties of the settlement of a delivery on the single-record path: what is acknowledged has been
  committed and counted once, and every other end leaves the graph and the counters alone.
\<close>

section \<open>The write and its result\<close>

lemma write_and_finish_cases:
  assumes "write_and_finish driver f body ds st g = (result, st', g')"
  obtains l where "driver" "f body (zero_stats, g) = Inr (l, g')" "st' = merge_global_stats True l st"
    "result = Returned \<lparr>dr_settlement = ACK, dr_outcome = (if entities_enriched l > 0 then ''processed'' else ''skipped''),
       dr_error_type = None\<rparr>"
  | e where "result = fail_with e" "st' = st" "g' = g" | "result = Interrupted" "st' = st" "g' = g" "Cancelled \<in> set ds"
proof (cases "write_single driver f body ds zero_stats g")
  case (Returned x)
  obtain l h where x: "x = ((), l, h)" by (cases x) auto
  from write_single_Returned [OF Returned [unfolded x]] have "driver" "f body (zero_stats, g) = Inr (l, h)" by simp_all
  with Returned x assms that(1) show ?thesis by (auto simp: write_and_finish_def finish_def)
next
  case (Raised e)
  with assms that(2) show ?thesis by (auto simp: write_and_finish_def finish_def)
next
  case Interrupted
  then have "Cancelled \<in> set ds"
    by (auto simp: write_single_def dest: execute_write_Interrupted split: if_splits)
  with Interrupted assms that(3) show ?thesis by (auto simp: write_and_finish_def finish_def)
qed

lemma counted_once_from_zero:
  assumes "counted_once zero_stats l"
  shows "entities_enriched l = (if entities_enriched l > 0 then 1 else 0)"
    and "entities_skipped_no_discogs_match l = (if entities_enriched l > 0 then 0 else 1)"
  using assms by (auto simp: counted_once_def zero_stats_def)

section \<open>Acknowledgement\<close>

text \<open>C5: A delivery is acknowledged only when its work is done: either it was a control message, and neither the graph nor
  the counters moved, or it was a record with an id, its transaction committed exactly what its projection makes of the
  graph, and the shared counters moved by the counters of that one run (attempts that the driver rolled back count for
  nothing): one more record enriched when the result says processed, one more without a match when it says skipped.\<close>

theorem acknowledged_means_committed:
  assumes processor: "map_of (PROCESSORS E now) data_type = Some f"
    and run: "operation S f data_type parsed ds w = (Returned r, w')" and ack: "dr_settlement r = ACK"
  shows "dr_error_type r = None \<and>
    (dr_outcome r = ''control'' \<and> control_message parsed \<and> w_stats w' = w_stats w \<and> w_graph w' = w_graph w \<or>
     (\<exists>body l. data_message parsed body \<and> usable_id body \<and> f body (zero_stats, w_graph w) = Inr (l, w_graph w') \<and>
        w_stats w' = merge_global_stats True l (w_stats w) \<and>
        dr_outcome r = (if entities_enriched l = 1 then ''processed'' else ''skipped'') \<and>
        entities_enriched (w_stats w') + entities_skipped_no_discogs_match (w_stats w') =
          entities_enriched (w_stats w) + entities_skipped_no_discogs_match (w_stats w) + 1))"
proof (cases parsed rule: message_cases)
  case 1
  from receive_control [OF 1] obtain s1 where
    "receive S data_type parsed (w_svc w) = (Inl (Returned \<lparr>dr_settlement = ACK, dr_outcome = ''control'', dr_error_type = None\<rparr>), s1)"
    by blast
  with run 1 show ?thesis by (auto simp: operation_def)
next
  case (2 body)
  show ?thesis
  proof (cases "usable_id body \<and> graph_driver (w_svc w)")
    case False
    then show ?thesis using run ack fail_with_not_ack
      by (auto simp: operation_def receive_data [OF 2] fail_with_def split: if_splits)
  next
    case True
    obtain result st g where wf: "write_and_finish True f body ds (w_stats w) (w_graph w) = (result, st, g)"
      by (metis prod_cases3)
    have driver: "graph_driver (rearm data_type (w_svc w))" using True
      by (simp add: rearm_def cancel_task_def Let_def split: option.split)
    have w': "result = Returned r" "w_stats w' = st" "w_graph w' = g"
      using run True driver by (auto simp: operation_def receive_data [OF 2] wf)
    from wf show ?thesis
    proof (cases rule: write_and_finish_cases)
      case (1 l)
      from enricher.counts [OF processor_enricher [OF processor] 1(2)] have "counted_once zero_stats l" .
      note once = counted_once_from_zero [OF this]
      have "entities_enriched l + entities_skipped_no_discogs_match l = 1" using once by (auto split: if_splits)
      moreover have "entities_enriched l > 0 \<longleftrightarrow> entities_enriched l = 1" using once(1) by (auto split: if_splits)
      moreover have "r = \<lparr>dr_settlement = ACK, dr_outcome = (if entities_enriched l > 0 then ''processed'' else ''skipped''),
          dr_error_type = None\<rparr>" using 1(4) w'(1) by simp
      ultimately show ?thesis using 1(2,3) w'(2,3) 2 True by (intro conjI disjI2 exI [of _ body] exI [of _ l]) simp_all
    qed (use w' ack in \<open>auto simp: fail_with_def split: if_splits\<close>)
  qed
next
  case 3
  with run ack show ?thesis
    by (auto simp: operation_def receive_junk [OF 3] fail_with_def split: if_splits)
qed

definition sample_world :: world where
  "sample_world = \<lparr>w_svc = sample_svc, w_stats = zero_stats, w_graph = sample_graph\<rparr>"

lemma sample_label_message:
  "data_message (Inr (JObj sample_label)) sample_label" "usable_id sample_label" "graph_driver (rearm e sample_svc)"
  "\<not> shutdown_requested sample_svc" "graph_driver sample_svc"
  by (simp_all add: data_message_def control_message_def sample_label_def usable_id_def rearm_def sample_svc_def
      start_service_def initial_svc_def ENTITY_TYPES_def register_consumer_def)

text \<open>A first attempt that is rolled back after counting seven records leaves no trace.\<close>

lemma acknowledged_means_committed_witness:
  "\<exists>w'. operation sample_settings (enrich_label sample_env ''t'') ''labels'' (Inr (JObj sample_label))
       [Retried (zero_stats\<lparr>entities_enriched := 7\<rparr>)] sample_world =
       (Returned \<lparr>dr_settlement = ACK, dr_outcome = ''processed'', dr_error_type = None\<rparr>, w') \<and>
     entities_enriched (w_stats w') + entities_skipped_no_discogs_match (w_stats w') = 1"
proof -
  obtain l g where run: "enrich_label sample_env ''t'' sample_label (zero_stats, sample_graph) = Inr (l, g)"
    using not_isl_Inr [OF sample_label_runs] by blast
  then have enriched: "entities_enriched l = 1"
    by (auto simp: enrich_label_def label_row_def life_span_def sample_label_def py_or_def gated_write_def sample_graph_def
        sample_ids record_outcome_def zero_stats_def Let_def split: if_splits)
  let ?ds = "[Retried (zero_stats\<lparr>entities_enriched := 7\<rparr>)]"
  define r :: delivery_result where "r = \<lparr>dr_settlement = ACK, dr_outcome = ''processed'', dr_error_type = None\<rparr>"
  define w' where "w' = \<lparr>w_svc = rearm ''labels'' sample_svc, w_stats = merge_global_stats True l zero_stats, w_graph = g\<rparr>"
  have op: "operation sample_settings (enrich_label sample_env ''t'') ''labels'' (Inr (JObj sample_label)) ?ds sample_world = (Returned r, w')"
    using run enriched by (simp add: operation_def receive_data [OF sample_label_message(1)] sample_label_message sample_world_def
        write_and_finish_def write_single_def single_tx_def finish_def r_def w'_def)
  have "map_of (PROCESSORS sample_env ''t'') ''labels'' = Some (enrich_label sample_env ''t'')" by (simp add: PROCESSORS_def)
  moreover have "dr_settlement r = ACK" "dr_outcome r \<noteq> ''control''" by (simp_all add: r_def)
  ultimately have "entities_enriched (w_stats w') + entities_skipped_no_discogs_match (w_stats w') =
      entities_enriched (w_stats sample_world) + entities_skipped_no_discogs_match (w_stats sample_world) + 1"
    using acknowledged_means_committed [OF _ op] by blast
  then show ?thesis using op by (intro exI [of _ w']) (simp add: r_def sample_world_def zero_stats_def)
qed

section \<open>Failures\<close>



end
