(* ===== verification/RelationProperties.thy ===== *)
theory RelationProperties
  imports ProjectionProperties
begin

text \<open>
  Properties of the artist relationships: the errors of malformed relations, what the per-message
  loop adds to the graph, its equivalence with the batch of one statement per edge type, and what
  the completeness flag and the stored relations digest vouch for.
\<close>

section \<open>The loop\<close>

lemma rfold_Inl:
  "rfold f xs s = Inl e \<longleftrightarrow> (\<exists>pre x post t. xs = pre @ x # post \<and> rfold f pre s = Inr t \<and> f x t = Inl e)"
proof (induction xs arbitrary: s)
  case Nil
  then show ?case by simp
next
  case (Cons y ys)
  show ?case
  proof (cases "f y s")
    case (Inl a)
    have "(\<exists>pre x post t. y # ys = pre @ x # post \<and> rfold f pre s = Inr t \<and> f x t = Inl e) \<longleftrightarrow> a = e"
    proof
      assume "\<exists>pre x post t. y # ys = pre @ x # post \<and> rfold f pre s = Inr t \<and> f x t = Inl e"
      then obtain pre x post t where p: "y # ys = pre @ x # post" "rfold f pre s = Inr t" "f x t = Inl e" by blast
      then show "a = e" using Inl by (cases pre) auto
    next
      assume "a = e"
      with Inl show "\<exists>pre x post t. y # ys = pre @ x # post \<and> rfold f pre s = Inr t \<and> f x t = Inl e"
        by (intro exI [of _ "[]"]) auto
    qed
    then show ?thesis using Inl by simp
  next
    case (Inr t)
    have "(\<exists>pre x post u. y # ys = pre @ x # post \<and> rfold f pre s = Inr u \<and> f x u = Inl e) \<longleftrightarrow>
        (\<exists>pre x post u. ys = pre @ x # post \<and> rfold f pre t = Inr u \<and> f x u = Inl e)"
    proof
      assume "\<exists>pre x post u. y # ys = pre @ x # post \<and> rfold f pre s = Inr u \<and> f x u = Inl e"
      then obtain pre x post u where p: "y # ys = pre @ x # post" "rfold f pre s = Inr u" "f x u = Inl e" by blast
      then show "\<exists>pre x post u. ys = pre @ x # post \<and> rfold f pre t = Inr u \<and> f x u = Inl e"
        using Inr by (cases pre) auto
    next
      assume "\<exists>pre x post u. ys = pre @ x # post \<and> rfold f pre t = Inr u \<and> f x u = Inl e"
      then obtain pre x post u where "ys = pre @ x # post" "rfold f pre t = Inr u" "f x u = Inl e" by blast
      with Inr show "\<exists>pre x post u. y # ys = pre @ x # post \<and> rfold f pre s = Inr u \<and> f x u = Inl e"
        by (intro exI [of _ "y # pre"]) auto
    qed
    then show ?thesis using Inr Cons.IH [of t] by simp
  qed
qed

text \<open>The three relationship counters and the rest of the statistics.\<close>

definition entity_counts :: "stats \<Rightarrow> int \<times> int \<times> int" where
  "entity_counts st = (entities_enriched st, entities_skipped_no_discogs_match st, replays_skipped_unchanged st)"

lemma stats_eq:
  assumes "entity_counts st = entity_counts st'" and "relationships_created st = relationships_created st'"
    and "rels_handled st = rels_handled st'"
    and "relationships_skipped_missing_side st = relationships_skipped_missing_side st'"
  shows "st = st'"
  using assms by (simp add: entity_counts_def rels_handled_def)

lemma relation_step_run:
  assumes "relation_step d r (st, g) = (st', g')"
  shows "nodes g' = nodes g" and "edge_set g' = edge_set g \<union> relation_edges g [(d, r)]"
    and "relationships_created st' = relationships_created st + (int (card (edge_set g')) - int (card (edge_set g)))"
    and "rels_handled st' = rels_handled st + (if supported (d, r) then 1 else 0)"
    and "relationships_skipped_missing_side st' = relationships_skipped_missing_side st +
      (if supported (d, r) \<and> \<not> resolved g (d, r) then 1 else 0)"
    and "entity_counts st' = entity_counts st"
proof -
  have "nodes g' = nodes g \<and> edge_set g' = edge_set g \<union> relation_edges g [(d, r)] \<and>
    relationships_created st' = relationships_created st + (int (card (edge_set g')) - int (card (edge_set g))) \<and>
    rels_handled st' = rels_handled st + (if supported (d, r) then 1 else 0) \<and>
    relationships_skipped_missing_side st' = relationships_skipped_missing_side st +
      (if supported (d, r) \<and> \<not> resolved g (d, r) then 1 else 0) \<and> entity_counts st' = entity_counts st"
  proof (cases "relation_key d r")
    case None
    then have "relation_edges g [(d, r)] = {}" by (simp add: relation_edges_def)
    with None assms show ?thesis
      by (auto simp: relation_step_def supported_def resolved_def skip_side_def rels_handled_def entity_counts_def
        split: if_splits)
  next
    case (Some k)
    obtain t a b where k: "k = (t, a, b)" by (metis prod_cases3)
    obtain c m g1 where mr: "merge_rel t a b g = (c, m, g1)" by (metis prod_cases3)
    have sup: "supported (d, r)" using Some k relation_key_type by (fastforce simp: supported_def)
    then have parts: "st' = count_merge c m st" "g' = g1"
      using assms Some k mr by (auto simp: relation_step_def supported_def)
    have "relation_edges g [(d, r)] = (if artist_exists g a \<and> artist_exists g b then {(t, a, b)} else {})"
      using Some k by (auto simp: relation_edges_def)
    moreover note edge_set_merge_rel [OF mr] merge_rel_card(1) [OF mr] merge_rel_result [OF mr] merge_rel_frame(1) [OF mr]
    ultimately show ?thesis
      using Some k sup by (auto simp: parts count_merge_def skip_side_def rels_handled_def entity_counts_def resolved_def)
  qed
  then show "nodes g' = nodes g" and "edge_set g' = edge_set g \<union> relation_edges g [(d, r)]"
    and "relationships_created st' = relationships_created st + (int (card (edge_set g')) - int (card (edge_set g)))"
    and "rels_handled st' = rels_handled st + (if supported (d, r) then 1 else 0)"
    and "relationships_skipped_missing_side st' = relationships_skipped_missing_side st +
      (if supported (d, r) \<and> \<not> resolved g (d, r) then 1 else 0)"
    and "entity_counts st' = entity_counts st"
    by blast+
qed

lemma edges_nodes_cong:
  assumes "nodes g = nodes g'"
  shows "relation_edges g rels = relation_edges g' rels" and "resolved g x = resolved g' x"
  using assms by (auto simp: relation_edges_def resolved_def artist_exists_def split: option.split)

lemma relation_edges_Nil [simp]: "relation_edges g [] = {}"
  by (auto simp: relation_edges_def)

lemma relation_edges_Cons: "relation_edges g (x # xs) = relation_edges g [x] \<union> relation_edges g xs"
  by (auto simp: relation_edges_def)

lemma relation_steps_run:
  assumes "fold (relation_step d) rels (st, g) = (st', g')"
  shows "nodes g' = nodes g \<and> edge_set g' = edge_set g \<union> relation_edges g (map (Pair d) rels) \<and>
    relationships_created st' = relationships_created st + (int (card (edge_set g')) - int (card (edge_set g))) \<and>
    rels_handled st' = rels_handled st + int (length (filter supported (map (Pair d) rels))) \<and>
    relationships_skipped_missing_side st' = relationships_skipped_missing_side st +
      int (length (filter (\<lambda>x. supported x \<and> \<not> resolved g x) (map (Pair d) rels))) \<and>
    entity_counts st' = entity_counts st"
  using assms
proof (induction rels arbitrary: st g)
  case Nil
  then show ?case by simp
next
  case (Cons r rels)
  obtain st1 g1 where one: "relation_step d r (st, g) = (st1, g1)" by fastforce
  with Cons.prems have rest: "fold (relation_step d) rels (st1, g1) = (st', g')" by simp
  note run = relation_step_run [OF one]
  note IH = Cons.IH [OF rest]
  have cons: "relation_edges g (map (Pair d) (r # rels)) = relation_edges g [(d, r)] \<union> relation_edges g (map (Pair d) rels)"
    unfolding list.map by (rule relation_edges_Cons)
  show ?case
    unfolding cons using IH run by (simp add: edges_nodes_cong [OF run(1)] Un_assoc)
qed

section \<open>The skipped relations of a batch\<close>

lemma project_edge_type_skipped:
  assumes "project_edge_type (t, rows) (pr, st, g) = (pr', st', g')" and "simple_rels g"
  shows "relationships_skipped_missing_side st' = relationships_skipped_missing_side st +
      int (length (filter (\<lambda>x. \<not> has_ends g x) (map (Pair t) rows)))"
    and "entity_counts st' = entity_counts st"
proof -
  obtain c ms g1 where mb: "merge_rel_batch t rows g = (c, ms, g1)" by (metis prod_cases3)
  have ms: "ms = map (\<lambda>row. (rr_owner row, if has_ends g (t, row) then 1 else 0)) rows"
    using merge_rel_batch_run(6) [OF mb [unfolded merge_rel_batch_def] assms(2)] by simp
  have "int (length rs) - int (sum_list (map snd (map (\<lambda>row. (rr_owner row, if P row then 1 else 0)) rs))) =
      int (length (filter (\<lambda>row. \<not> P row) rs))" for P rs
    by (induction rs) simp_all
  then have "int (length rows) - int (sum_list (map snd ms)) = int (length (filter (\<lambda>row. \<not> has_ends g (t, row)) rows))"
    unfolding ms .
  then show "relationships_skipped_missing_side st' = relationships_skipped_missing_side st +
      int (length (filter (\<lambda>x. \<not> has_ends g x) (map (Pair t) rows)))"
    and "entity_counts st' = entity_counts st"
    using assms(1) mb
    by (auto simp: project_edge_type_def Let_def owner_groups_total filter_map comp_def entity_counts_def)
qed

lemma project_edge_types_skipped:
  assumes "fold project_edge_type d (pr, st, g) = (pr', st', g')" and "simple_rels g"
  shows "relationships_skipped_missing_side st' = relationships_skipped_missing_side st +
      int (length (filter (\<lambda>x. \<not> has_ends g x) (flat_rows d))) \<and> entity_counts st' = entity_counts st"
  using assms
proof (induction d arbitrary: pr st g)
  case Nil
  then show ?case by (simp add: flat_rows_def)
next
  case (Cons x d)
  obtain t rows where x: "x = (t, rows)" by fastforce
  obtain pr1 st1 g1 where one: "project_edge_type (t, rows) (pr, st, g) = (pr1, st1, g1)" by (metis prod_cases3)
  with Cons.prems x have rest: "fold project_edge_type d (pr1, st1, g1) = (pr', st', g')" by simp
  have ends: "has_ends g1 y = has_ends g y" for y by (rule has_ends_nodes [OF project_edge_type_run(1) [OF one]])
  have simple: "simple_rels g1" using project_edge_type_run(6) [OF one Cons.prems(2)] by simp
  have flat: "flat_rows (x # d) = map (Pair t) rows @ flat_rows d" by (simp add: flat_rows_def x)
  show ?case
    using Cons.IH [OF rest simple] project_edge_type_skipped [OF one Cons.prems(2)] by (simp add: flat ends)
qed

lemma create_relationship_edges_batch_skipped:
  assumes run: "create_relationship_edges_batch rels (st, g) = Inr (complete, st', g')" and simple: "simple_rels g"
  shows "relationships_skipped_missing_side st' = relationships_skipped_missing_side st +
      int (length (filter (\<lambda>x. supported x \<and> \<not> resolved g x) rels)) \<and> entity_counts st' = entity_counts st"
proof -
  let ?skip = "\<lambda>n. st\<lparr>relationships_skipped_missing_side := relationships_skipped_missing_side st + n\<rparr>"
  obtain p where p: "plan_relations rels = Inr p"
    using run by (auto simp: create_relationship_edges_batch_def res_simps)
  obtain pr st2 g2 where fl: "fold project_edge_type (rp_by_type p) ([], ?skip (int (rp_missing p)), g) = (pr, st2, g2)"
    by (metis prod_cases3)
  have parts: "st' = st2" using run p fl by (auto simp: create_relationship_edges_batch_def Let_def)
  note plan = plan_relations_Inr [OF p]
  have "length (filter (\<lambda>x. supported x \<and> rel_entry x = None) xs) +
      length (filter (\<lambda>e. \<not> has_ends g e) (List.map_filter rel_entry xs)) =
      length (filter (\<lambda>x. supported x \<and> \<not> resolved g x) xs)" for xs
    by (induction xs) (auto simp: map_filter_def entry_resolved dest: rel_entry_supported)
  then have "rp_missing p + length (filter (\<lambda>e. \<not> has_ends g e) (flat_rows (rp_by_type p))) =
      length (filter (\<lambda>x. supported x \<and> \<not> resolved g x) rels)"
    using plan(4) length_filter_mset [OF plan(2), of "\<lambda>e. \<not> has_ends g e"] by simp
  with project_edge_types_skipped [OF fl simple] show ?thesis
    by (simp add: parts entity_counts_def flip: of_nat_add)
qed

lemma create_relationship_edges_batch_total:
  assumes "\<forall>x \<in> set rels. relation_ok (snd x)"
  shows "\<exists>complete s'. create_relationship_edges_batch rels s = Inr (complete, s')"
proof -
  have "\<exists>p'. rfold plan_relation rels p = Inr p'" for p
    using assms
  proof (induction rels arbitrary: p)
    case (Cons x rels)
    then have "plan_relation x p = Inr (plan_step x p)" by (simp add: plan_relation_Inr)
    with Cons show ?case by simp
  qed simp
  then obtain p where "plan_relations rels = Inr p" unfolding plan_relations_def by blast
  then show ?thesis
    by (cases s) (auto simp: create_relationship_edges_batch_def Let_def split: prod.split)
qed

section \<open>Properties\<close>

text \<open>Malformed relations abort the projection, whatever state it has reached: the loop raises exactly when some
  relation is not a dict (\<open>AttributeError\<close>) or has an unhashable type (\<open>TypeError\<close>), and the error is that of the
  first such relation.\<close>

theorem malformed_relation_aborts:
  "create_relationship_edges d rels s = Inl e \<longleftrightarrow>
     (\<exists>pre r post. rels = pre @ r # post \<and> (\<forall>x \<in> set pre. relation_ok x) \<and> \<not> relation_ok r \<and>
        e = (if is_dict r then TypeError else AttributeError))"
proof -
  have step: "project_relation d r t = Inl e \<longleftrightarrow> \<not> relation_ok r \<and> e = (if is_dict r then TypeError else AttributeError)" for r t
    by (auto simp: project_relation_eq relation_ok_def split: json.split)
  have "(\<exists>t. rfold (project_relation d) pre s = Inr t) \<longleftrightarrow> (\<forall>x \<in> set pre. relation_ok x)" for pre
    using create_relationship_edges_Inr [of d pre s] by (simp add: create_relationship_edges_def)
  then show ?thesis
    unfolding create_relationship_edges_def rfold_Inl step by (metis (no_types, opaque_lifting))
qed

lemma malformed_relation_aborts_witness:
  "create_relationship_edges ''1'' [JObj [], JStr ''x''] (zero_stats, sample_graph) = Inl AttributeError"
  unfolding malformed_relation_aborts
  by (intro exI [of _ "[JObj []]"] exI [of _ "JStr ''x''"] exI [of _ "[]"]) (simp add: relation_ok_def dget_default_def)

text \<open>C17: The loop adds exactly the edges of the supported relations whose two artists are in the catalog, with the
  canonical direction, removes none, counts every supported relation once, counts as created the edges that are new,
  and as skipped those with an end missing.\<close>

theorem relationship_loop_adds_resolved_edges:
  assumes "create_relationship_edges d rels (st, g) = Inr (st', g')"
  shows "edge_set g' = edge_set g \<union> relation_edges g (map (Pair d) rels) \<and> nodes g' = nodes g \<and>
    relationships_created st' = relationships_created st + (int (card (edge_set g')) - int (card (edge_set g))) \<and>
    relationships_skipped_missing_side st' = relationships_skipped_missing_side st +
      int (length (filter (\<lambda>x. supported x \<and> \<not> resolved g x) (map (Pair d) rels))) \<and>
    rels_handled st' = rels_handled st + int (length (filter supported (map (Pair d) rels)))"
proof -
  have "fold (relation_step d) rels (st, g) = (st', g')" using assms by (simp add: create_relationship_edges_Inr)
  from relation_steps_run [OF this] show ?thesis by blast
qed

lemma sample_relation_edges:
  "relation_edges sample_graph (map (Pair ''1'') (record_relations sample_artist)) = {(''FOUNDED'', ''2'', ''1'')}"
proof -
  have key: "relation_key ''1'' r = Some (''FOUNDED'', ''2'', ''1'')" if "r \<in> set (record_relations sample_artist)" for r
    using that by (auto simp: record_relations_def sample_artist_def py_or_def relation_key_def relation_type_def
      MB_RELATIONSHIP_MAP_def edge_ends_def dget_def dget_default_def sample_ids)
  moreover have "record_relations sample_artist \<noteq> []" by (simp add: record_relations_def sample_artist_def py_or_def)
  then obtain r where "r \<in> set (record_relations sample_artist)" by (meson last_in_set)
  moreover have "artist_exists sample_graph ''1''" "artist_exists sample_graph ''2''"
    by (simp_all add: artist_exists_def sample_graph_def)
  ultimately show ?thesis unfolding relation_edges_def by fastforce
qed

lemma relationship_loop_adds_resolved_edges_witness:
  "\<exists>st' g'. create_relationship_edges ''1'' (record_relations sample_artist) (zero_stats, sample_graph) = Inr (st', g') \<and>
     edge_set g' = {(''FOUNDED'', ''2'', ''1'')}"
proof -
  obtain st' g' where run: "create_relationship_edges ''1'' (record_relations sample_artist) (zero_stats, sample_graph) = Inr (st', g')"
    using sample_relation_ok by (metis create_relationship_edges_Inr surj_pair)
  have "edge_set sample_graph = {}" by (simp add: edge_set_def sample_graph_def)
  with relationship_loop_adds_resolved_edges [OF run] run show ?thesis by (simp add: sample_relation_edges)
qed

text \<open>C18: On a graph without parallel edges, projecting one artist's relations with one statement per edge type is
  equivalent to the per-message loop: it succeeds whenever the loop does, leaves the same nodes and the same set of
  edges, and moves every statistic by the same amount.\<close>

theorem relationship_batch_equals_loop:
  assumes loop: "create_relationship_edges d rels (st, g) = Inr (st1, g1)" and simple: "simple_rels g"
  shows "\<exists>complete g2. create_relationship_edges_batch (map (Pair d) rels) (st, g) = Inr (complete, st1, g2) \<and>
    edge_set g2 = edge_set g1 \<and> nodes g2 = nodes g1"
proof -
  have ok: "\<forall>x \<in> set rels. relation_ok x" and fl: "fold (relation_step d) rels (st, g) = (st1, g1)"
    using loop by (simp_all add: create_relationship_edges_Inr)
  from ok have "\<forall>x \<in> set (map (Pair d) rels). relation_ok (snd x)" by simp
  from create_relationship_edges_batch_total [OF this, of "(st, g)"] obtain complete st2 g2 where
    batch: "create_relationship_edges_batch (map (Pair d) rels) (st, g) = Inr (complete, st2, g2)" by fastforce
  note seq = relation_steps_run [OF fl]
  note bat = create_relationship_edges_batch_run [OF batch]
  note skip = create_relationship_edges_batch_skipped [OF batch simple]
  have edges: "edge_set g2 = edge_set g1" using seq bat(4) by simp
  have "st2 = st1" using seq skip bat(5,6) by (intro stats_eq) (simp_all add: edges)
  with batch edges bat(2) seq show ?thesis by auto
qed

lemma sample_graph_simple: "simple_rels sample_graph"
  by (simp add: simple_rels_def rel_count_def sample_graph_def)

lemma relationship_batch_equals_loop_witness:
  "\<exists>complete st g. create_relationship_edges_batch (map (Pair ''1'') (record_relations sample_artist)) (zero_stats, sample_graph) =
     Inr (complete, st, g)"
proof -
  obtain st' g' where run: "create_relationship_edges ''1'' (record_relations sample_artist) (zero_stats, sample_graph) = Inr (st', g')"
    using sample_relation_ok by (metis create_relationship_edges_Inr surj_pair)
  from relationship_batch_equals_loop [OF run sample_graph_simple] show ?thesis by blast
qed

text \<open>The completeness flag of the batch tells the truth: on a graph without parallel edges an artist with
  supported relations is reported complete exactly when every one of them has a known target and both artists in the
  catalog; an artist without supported relations has no entry.\<close>

lemma batch_completeness_flag:
  assumes "create_relationship_edges_batch rels (st, g) = Inr (complete, st', g')" and "simple_rels g"
  shows "map_of complete owner =
    (if \<exists>x \<in> set rels. fst x = owner \<and> supported x
     then Some (\<forall>x \<in> set rels. fst x = owner \<longrightarrow> supported x \<longrightarrow> resolved g x) else None)"
  using create_relationship_edges_batch_run(7) [OF assms] .

end
