(* ===== verification/BatchProperties.thy ===== *)
theory BatchProperties
  imports RelationProperties
begin

text \<open>
  Properties of the cross-message batches, stated over the table \<open>BATCH_PROJECTIONS\<close>: the contract
  every batch keeps, the equivalence of a node-only batch with the per-message path, what the
  relations digest of an artist vouches for, and the media a batch of releases leaves.
\<close>

section \<open>Concrete batches\<close>

text \<open>A runtime whose digest is the text of its parts, and two records of one label.\<close>

definition repr_env :: env where
  "repr_env = sample_env\<lparr>digest := \<lambda>ps. py_repr (JArr ps)\<rparr>"

definition sample_label2 :: obj where
  "sample_label2 = [(''id'', JStr ''a''), (''discogs_label_id'', JInt 1), (''type'', JStr ''Holding'')]"

lemma sample_label_rows:
  "label_row sample_label = Inr [(''mbid'', JStr ''a''), (''mb_type'', JStr ''Imprint''), (''mb_label_code'', JNull),
     (''mb_begin_date'', JNull), (''mb_end_date'', JNull), (''mb_area'', JNull)]"
  "label_row sample_label2 = Inr [(''mbid'', JStr ''a''), (''mb_type'', JStr ''Holding''), (''mb_label_code'', JNull),
     (''mb_begin_date'', JNull), (''mb_end_date'', JNull), (''mb_area'', JNull)]"
  by (simp_all add: label_row_def life_span_def sample_label_def sample_label2_def py_or_def dget_def dget_default_def)

lemma sample_label_ids: "record_id ''discogs_label_id'' sample_label = Some ''1''"
  "record_id ''discogs_label_id'' sample_label2 = Some ''1''"
  by (simp_all add: record_id_def sample_label_def sample_label2_def dget_def sample_ids)

lemma sample_digests:
  "payload_hash repr_env [JObj [(''mbid'', JStr ''a''), (''mb_type'', JStr ''Imprint''), (''mb_label_code'', JNull),
     (''mb_begin_date'', JNull), (''mb_end_date'', JNull), (''mb_area'', JNull)], JNull] \<noteq>
   payload_hash repr_env [JObj [(''mbid'', JStr ''a''), (''mb_type'', JStr ''Holding''), (''mb_label_code'', JNull),
     (''mb_begin_date'', JNull), (''mb_end_date'', JNull), (''mb_area'', JNull)], JNull]"
  by (simp add: payload_hash_def repr_env_def repr_str_def repr_char_def Let_def)

lemma sample_labels_honest:
  "honest_digests repr_env Label LABEL_FIELDS ''discogs_label_id'' label_row (\<lambda>_. Inr JNull)
     [sample_label, sample_label2] sample_graph"
proof -
  have writes: "writes_to repr_env ''discogs_label_id'' label_row (\<lambda>_. Inr JNull) [sample_label, sample_label2] d =
      (if d = ''1'' then map (write_of repr_env label_row (\<lambda>_. Inr JNull)) [sample_label, sample_label2] else [])" for d
    by (simp add: writes_to_def sample_label_ids)
  show ?thesis
    unfolding honest_digests_def writes
    by (auto simp: separated_def coherent_def write_of_def sample_label_rows sample_digests sample_digests [symmetric]
      sample_graph_def)
qed

section \<open>Properties\<close>

text \<open>C20: Every batch projection keeps the contract the write batcher relies on: one matched flag per record, every
  record counted exactly once as enriched or skipped, and the graph changed only within the service's territory.\<close>

theorem batches_keep_the_contract:
  assumes "map_of (BATCH_PROJECTIONS E now) data_type = Some f" and "f records (st, g) = Inr (flags, st', g')"
  shows "length flags = length records \<and> handled st' = handled st + int (length records) \<and> graph_frame g g'"
  using batch_enricher.flags [OF batch_projection_enricher [OF assms(1)] assms(2)]
    batch_enricher.counts [OF batch_projection_enricher [OF assms(1)] assms(2)]
    batch_enricher.frames [OF batch_projection_enricher [OF assms(1)] assms(2)] by blast

text \<open>C3: For the data types that project nodes only (labels and release groups) a batch is equivalent to delivering
  its records one by one: it succeeds whenever the sequence does, leaves the same graph up to the times of change,
  counts the same enriched and skipped records, and flags exactly the records whose id names a node. The digests are
  assumed to be honest: equal digests stand for equal projections, and a stored digest for what the node holds.\<close>

theorem node_batches_equal_sequences:
  assumes kind: "data_type \<in> {''labels'', ''release-groups''}"
    and single: "map_of (PROCESSORS E now) data_type = Some f"
    and batch: "map_of (BATCH_PROJECTIONS E now) data_type = Some fb"
    and honest: "honest_digests E (target_label data_type) (target_fields data_type) (target_key data_type)
      (target_row data_type) (\<lambda>_. Inr JNull) records g"
    and run: "rfold f records (st, g) = Inr (st1, g1)"
  shows "\<exists>st2 g2. fb records (st, g) =
      Inr (map (has_node g (target_label data_type) (target_key data_type)) records, st2, g2) \<and> same_graph g1 g2 \<and>
    entities_enriched st2 = entities_enriched st1 \<and>
    entities_skipped_no_discogs_match st2 = entities_skipped_no_discogs_match st1"
proof -
  have seq: "rfold (node_enrich E now (target_label data_type) (target_fields data_type) (target_key data_type)
      (target_row data_type) (\<lambda>_. Inr JNull)) records (st, g) = Inr (st1, g1)"
    using kind single run by (auto simp: PROCESSORS_def enrich_label_node enrich_release_group_node target_simps)
  obtain outs st2 g2 where bat: "run_entity_batch E now (target_label data_type) (target_fields data_type)
      (target_key data_type) (target_row data_type) (\<lambda>_. Inr JNull) False records (st, g) = Inr (outs, st2, g2)"
    "same_graph g1 g2" "map o_matched outs = map (has_node g (target_label data_type) (target_key data_type)) records"
    "entities_enriched st2 = entities_enriched st1"
    "entities_skipped_no_discogs_match st2 = entities_skipped_no_discogs_match st1"
    using entity_batch_sequential [OF clean_target_fields honest seq] .
  have "fb records (st, g) = Inr (map o_matched outs, st2, g2)"
    using kind batch bat(1)
    by (auto simp: BATCH_PROJECTIONS_def enrich_labels_batch_def enrich_release_groups_batch_def target_simps)
  with bat show ?thesis by auto
qed

lemma node_batches_equal_sequences_witness:
  "\<exists>st2 g2. enrich_labels_batch repr_env ''t'' [sample_label, sample_label2] (zero_stats, sample_graph) =
     Inr ([True, True], st2, g2) \<and> entities_enriched st2 = 2"
proof -
  have runs: "\<not> isl (enrich_label repr_env ''t'' sample_label2 s)" for s
    by (cases s) (simp add: enrich_label_def sample_label_rows Let_def split: prod.split)
  obtain sa ga where a: "enrich_label repr_env ''t'' sample_label (zero_stats, sample_graph) = Inr (sa, ga)"
    using not_isl_Inr [OF sample_label_runs] by blast
  obtain sb gb where b: "enrich_label repr_env ''t'' sample_label2 (sa, ga) = Inr (sb, gb)"
    using not_isl_Inr [OF runs] by blast
  have seq: "rfold (enrich_label repr_env ''t'') [sample_label, sample_label2] (zero_stats, sample_graph) = Inr (sb, gb)"
    using a b by simp
  have kinds: "''labels'' \<in> {''labels'', ''release-groups''}"
    "map_of (PROCESSORS repr_env ''t'') ''labels'' = Some (enrich_label repr_env ''t'')"
    "map_of (BATCH_PROJECTIONS repr_env ''t'') ''labels'' = Some (enrich_labels_batch repr_env ''t'')"
    by (simp_all add: PROCESSORS_def BATCH_PROJECTIONS_def)
  have honest: "honest_digests repr_env (target_label ''labels'') (target_fields ''labels'') (target_key ''labels'')
      (target_row ''labels'') (\<lambda>_. Inr JNull) [sample_label, sample_label2] sample_graph"
    using sample_labels_honest by (simp add: target_simps)
  have has: "has_node sample_graph Label ''discogs_label_id'' sample_label"
    "has_node sample_graph Label ''discogs_label_id'' sample_label2"
    by (simp_all add: has_node_def sample_label_ids sample_graph_def)
  have "entities_enriched sb = 2"
    using sequential_run [OF seq [unfolded enrich_label_node]] has by (simp add: zero_stats_def)
  then show ?thesis
    using node_batches_equal_sequences [OF kinds honest seq] has by (auto simp: target_simps)
qed

lemma batches_keep_the_contract_witness:
  "\<exists>flags st' g'. enrich_release_groups_batch sample_env ''t'' [[(''id'', JStr ''x'')], [(''discogs_master_id'', JInt 1)]]
       (zero_stats, sample_graph) = Inr (flags, st', g') \<and>
     length flags = 2 \<and> handled st' = 2 \<and> graph_frame sample_graph g'"
proof -
  let ?rs = "[[(''id'', JStr ''x'')], [(''discogs_master_id'', JInt 1)]]"
  have "\<forall>r \<in> set ?rs. buildable ''discogs_master_id'' release_group_row (\<lambda>_. Inr JNull) r"
    by (simp add: buildable_def release_group_row_def)
  from batch_run [OF this, of sample_env "''t''" Master RELEASE_GROUP_FIELDS False zero_stats sample_graph]
  obtain flags st' g' where
    run: "enrich_release_groups_batch sample_env ''t'' ?rs (zero_stats, sample_graph) = Inr (flags, st', g')"
    by (auto simp: enrich_release_groups_batch_def)
  have "map_of (BATCH_PROJECTIONS sample_env ''t'') ''release-groups'' = Some (enrich_release_groups_batch sample_env ''t'')"
    by (simp add: BATCH_PROJECTIONS_def)
  from batches_keep_the_contract [OF this run] run show ?thesis
    by (auto simp: handled_def zero_stats_def)
qed


lemma sample_artist_batch_runs:
  "\<exists>flags st' g'. enrich_artists_batch E now [sample_artist] (st, g) = Inr (flags, st', g')"
proof -
  obtain row where row: "artist_row sample_artist = Inr row"
    by (simp add: artist_row_def life_span_def sample_artist_def py_or_def)
  have "\<forall>r \<in> set [sample_artist]. buildable ''discogs_artist_id'' artist_row (\<lambda>record. Inr (py_or (dget record ''relations'') (JArr []))) r"
    by (simp add: buildable_def row)
  from batch_run [OF this, of E now Artist ARTIST_FIELDS True st g] obtain outs st1 g1 where
    ent: "run_entity_batch E now Artist ARTIST_FIELDS ''discogs_artist_id'' artist_row
       (\<lambda>record. Inr (py_or (dget record ''relations'') (JArr []))) True [sample_artist] (st, g) = Inr (outs, st1, g1)" by blast
  then obtain out where outs: "outs = [out]" by (elim run_entity_batch_Inr) simp
  have iter: "py_iter (py_or (dget sample_artist ''relations'') (JArr [])) = Inr (record_relations sample_artist)"
    by (simp add: sample_artist_def record_relations_def py_or_def)
  have "\<exists>acc. collect_relations E [sample_artist] (0, sample_artist, out) ([], []) = Inr acc \<and>
      snd ` set (fst acc) \<subseteq> set (record_relations sample_artist)"
    by (simp add: collect_relations_def iter Let_def image_image)
  then obtain acc where acc: "collect_relations E [sample_artist] (0, sample_artist, out) ([], []) = Inr acc"
    and sub: "snd ` set (fst acc) \<subseteq> set (record_relations sample_artist)" by blast
  obtain rels digests where pair: "acc = (rels, digests)" by fastforce
  have "\<forall>x \<in> set rels. relation_ok (snd x)" using sub sample_relation_ok by (auto simp: pair)
  from create_relationship_edges_batch_total [OF this, of "(st1, g1)"] show ?thesis
    by (auto simp: enrich_artists_batch_def ent outs acc pair Let_def)
qed


text \<open>C4: A batch of releases leaves, for each release, exactly the media of the last record of that release when the
  statement rewrote its node and the record carries a media block; the media of every other release, and every media
  edge of another source, are as before.\<close>

theorem release_batch_replaces_media:
  assumes "enrich_releases_batch E now records (st, g) = Inr (flags, st', g')"
  shows "issued_view g' (d, m, s) =
    (case rewritten E records g d of
       Some r \<Rightarrow> (case release_media_block E r of
           Some media \<Rightarrow> if s = Some MEDIA_SOURCE
             then {Some (er_qty row) | row. row \<in> set (block_rows E media) \<and> er_medium row = m}
             else issued_view g (d, m, s)
         | None \<Rightarrow> issued_view g (d, m, s))
     | None \<Rightarrow> issued_view g (d, m, s))"
  using releases_batch_media [OF assms] .

lemma sample_release_rows: "\<exists>row. release_row sample_release = Inr row" "\<exists>x. media_digest E sample_release = Inr x"
proof -
  show "\<exists>row. release_row sample_release = Inr row"
    by (simp add: release_row_def release_event_rows_def sample_release_def py_or_def)
  show "\<exists>x. media_digest E sample_release = Inr x"
    by (simp add: media_digest_def sample_block media_items_def media_edge_rows_def sample_items)
qed

lemma sample_release_batch_runs:
  "\<exists>flags st' g'. enrich_releases_batch E now [sample_release] (st, g) = Inr (flags, st', g')"
proof -
  have "\<forall>r \<in> set [sample_release]. buildable ''discogs_release_id'' release_row (media_digest E) r"
    using sample_release_rows by (simp add: buildable_def)
  from batch_run [OF this, of E now Release RELEASE_FIELDS False st g] obtain outs st1 g1 where
    ent: "run_entity_batch E now Release RELEASE_FIELDS ''discogs_release_id'' release_row (media_digest E) False
       [sample_release] (st, g) = Inr (outs, st1, g1)" by blast
  then obtain out where outs: "outs = [out]" by (elim run_entity_batch_Inr) simp
  have "\<exists>S Ed. collect_media E (sample_release, out) ([], []) = Inr (S, Ed)"
    by (simp add: collect_media_def sample_block media_items_def media_edge_rows_def sample_items Let_def)
  then obtain S Ed where "collect_media E (sample_release, out) ([], []) = Inr (S, Ed)" by blast
  then show ?thesis by (simp add: enrich_releases_batch_def ent outs Let_def)
qed

lemma release_batch_replaces_media_witness:
  "\<exists>flags st' g'. enrich_releases_batch sample_env ''t'' [sample_release] (zero_stats, sample_graph) = Inr (flags, st', g') \<and>
     issued_view g' (''1'', ''lp'', Some MEDIA_SOURCE) = {Some 3} \<and> issued_view g' (''1'', ''cd'', Some MEDIA_SOURCE) = {}"
proof -
  obtain flags st' g' where run: "enrich_releases_batch sample_env ''t'' [sample_release] (zero_stats, sample_graph) = Inr (flags, st', g')"
    using sample_release_batch_runs by blast
  obtain row x where rx: "release_row sample_release = Inr row" "media_digest sample_env sample_release = Inr x"
    using sample_release_rows by blast
  have "dget sample_release ''discogs_release_id'' = JInt 1" by (simp add: sample_release_def dget_def)
  then have "last_index ''discogs_release_id'' [sample_release] = [(''1'', 0)]"
    by (simp add: last_index_def sample_ids)
  then have rw: "rewritten sample_env [sample_release] sample_graph ''1'' = Some sample_release"
    by (simp add: rewritten_def rx sample_graph_def gate_open_def)
  have "media_edge_rows sample_env sample_media = Inr (group_rows sample_env [(''lp'', ''vinyl'', 2), (''lp'', ''vinyl'', 1)])"
    by (simp only: media_edge_rows_eq sample_items rbind.simps sample_keys)
  then have rows: "block_rows sample_env sample_media = group_rows sample_env [(''lp'', ''vinyl'', 2), (''lp'', ''vinyl'', 1)]"
    by (simp add: block_rows_def)
  have "{Some (er_qty row) | row. row \<in> set (block_rows sample_env sample_media) \<and> er_medium row = m} =
      (if m = ''lp'' then {Some 3} else {})" for m
    by (auto simp: rows group_rows_def group_row_def firsts_def)
  then show ?thesis
    using release_batch_replaces_media [OF run] run by (simp add: rw sample_block)
qed

end
