(* ===== verification/BatcherProperties.thy ===== *)
theory BatcherProperties
  imports BatcherHistory DeliveryProperties BatchProperties
begin

text \<open>
  Properties of the write batcher: no delivery is lost while it waits, the batcher drains, a committed
  batch settles its members exactly, a failed one changes nothing, and the replay is equivalent to
  delivering the members one by one.
\<close>

section \<open>Waiting deliveries\<close>

lemma env_okI:
  assumes "0 < BATCH_SIZE B" and "map_of (BATCH_PROJECTIONS E now) data_type = Some (be_batch B)"
  shows "env_ok B"
  using assms(1) batch_enricher.flags [OF batch_projection_enricher [OF assms(2)]] by (fastforce simp: env_ok_def)


definition sample_batching :: batch_env where
  "sample_batching = \<lparr>BATCH_SIZE = 2, SERIALIZE_FLUSHES = True, be_driver = True,
     be_single = enrich_label sample_env ''t'', be_batch = enrich_labels_batch sample_env ''t''\<rparr>"

definition sample_submitted :: batcher where
  "sample_submitted = submit sample_batching 0 sample_label (initial_batcher zero_stats sample_graph)"

lemma sample_batching_env:
  "0 < BATCH_SIZE sample_batching" "map_of (BATCH_PROJECTIONS sample_env ''t'') ''labels'' = Some (be_batch sample_batching)"
  "map_of (PROCESSORS sample_env ''t'') ''labels'' = Some (be_single sample_batching)" "be_driver sample_batching"
  by (simp_all add: sample_batching_def BATCH_PROJECTIONS_def PROCESSORS_def)

lemma sample_submitted_eq:
  "sample_submitted = \<lparr>b_loop = Some 0, b_pending = [(0, sample_label)], b_timer = Some 1, b_handles = [1],
     b_futures = [0 \<mapsto> Waiting], b_flushes = [], b_locked = False, b_next = 2, b_stats = zero_stats, b_graph = sample_graph\<rparr>"
  by (simp add: sample_submitted_def submit_def adopt_loop_def initial_batcher_def sample_batching_def arm_timer_def Let_def)

lemma sample_submitted_reachable: "reach batcher_start (batch_step sample_batching 0 False) sample_submitted"
  unfolding sample_submitted_def by (rule reach_step [OF reach_start]) (auto intro: batcher_start.intros arrives)


section \<open>Draining\<close>



section \<open>Committed batches\<close>

text \<open>The deliveries of a batch finish one after the other with the results of their futures.\<close>

fun finish_all :: "bool ending list \<Rightarrow> stats \<Rightarrow> delivery_result ending list \<times> stats" where
  "finish_all [] st = ([], st)"
| "finish_all (r # rs) st =
     (let (x, st1) = finish_submitted r st; (xs, st2) = finish_all rs st1 in (x # xs, st2))"

definition acknowledged :: "bool \<Rightarrow> delivery_result ending" where
  "acknowledged matched = Returned \<lparr>dr_settlement = ACK, dr_outcome = (if matched then ''processed'' else ''skipped''),
     dr_error_type = None\<rparr>"

lemma finish_submitted_Returned:
  "finish_submitted (Returned m) st = (acknowledged m, merge_global_stats True (submit_stats m zero_stats) st)"
  by (simp add: finish_submitted_def finish_def acknowledged_def submit_stats_def zero_stats_def)

definition add_entities :: "int \<Rightarrow> int \<Rightarrow> stats \<Rightarrow> stats" where
  "add_entities e k st = st\<lparr>entities_enriched := entities_enriched st + e,
     entities_skipped_no_discogs_match := entities_skipped_no_discogs_match st + k\<rparr>"

lemma merge_submit_stats:
  "merge_global_stats True (submit_stats m zero_stats) st = add_entities (if m then 1 else 0) (if m then 0 else 1) st"
  by (simp add: merge_global_stats_def submit_stats_def add_entities_def zero_stats_def Let_def)

lemma finish_all_flags:
  "finish_all (map Returned flags) st = (map acknowledged flags,
     add_entities (int (length (filter id flags))) (int (length flags) - int (length (filter id flags))) st)"
proof (induction flags arbitrary: st)
  case Nil
  then show ?case by (simp add: add_entities_def)
next
  case (Cons m flags)
  have "add_entities a b (add_entities c d st) = add_entities (a + c) (b + d) st" for a b c d
    by (simp add: add_entities_def)
  then show ?case by (simp add: Cons.IH finish_submitted_Returned merge_submit_stats algebra_simps)
qed

lemma merge_by_parts:
  assumes "entities_enriched l = a" and "entities_skipped_no_discogs_match l = b"
  shows "add_entities a b (merge_global_stats False l st) = merge_global_stats True l st"
  using assms by (simp add: merge_global_stats_def add_entities_def Let_def)

text \<open>What settling a list of results leaves in the futures.\<close>

lemma settled_members:
  assumes "distinct (map fst members)" and "length rs = length members" and "\<forall>x \<in> set members. waiting b (fst x)"
  shows "map (\<lambda>x. settled_futures (zip (map fst members) rs) b (fst x)) members = map (\<lambda>r. Some (Done r)) rs"
proof (rule nth_equalityI)
  fix k assume "k < length (map (\<lambda>x. settled_futures (zip (map fst members) rs) b (fst x)) members)"
  then have k: "k < length members" by simp
  then have "map_of (zip (map fst members) rs) (fst (members ! k)) = Some (rs ! k)"
    using map_of_zip_nth [of "map fst members" rs k] assms(1,2) by simp
  then show "map (\<lambda>x. settled_futures (zip (map fst members) rs) b (fst x)) members ! k = map (\<lambda>r. Some (Done r)) rs ! k"
    using k assms(2,3) by (simp add: settled_futures_def)
qed (simp add: assms(2))

lemma settled_others:
  assumes "length rs = length members" and "i \<notin> fst ` set members"
  shows "settled_futures (zip (map fst members) rs) b i = b_futures b i"
proof -
  have "map_of (zip (map fst members) rs) i = None"
    unfolding map_of_eq_None_iff using assms(2) by (auto dest!: set_zip_leftD)
  then show ?thesis by (simp add: settled_futures_def waiting_def)
qed


text \<open>The first submitted record of the sample, handed to a flush by the linger timer.\<close>

definition sample_flush :: flush where
  "sample_flush = \<lparr>fl_id = 2, fl_batch = [(0, sample_label)], fl_phase = Committing\<rparr>"

lemma sample_label_batch_runs: "\<exists>l g. enrich_labels_batch sample_env ''t'' [sample_label] (zero_stats, sample_graph) = Inr ([True], l, g)"
proof -
  have "\<forall>r \<in> set [sample_label]. buildable ''discogs_label_id'' label_row (\<lambda>_. Inr JNull) r"
    by (simp add: buildable_def sample_label_rows)
  from batch_run [OF this, of sample_env "''t''" Label LABEL_FIELDS False zero_stats sample_graph] show ?thesis
    by (auto simp: enrich_labels_batch_def has_node_def sample_label_ids sample_graph_def)
qed


section \<open>Failed batches\<close>

text \<open>C11: A commit that fails changes neither the graph nor the counters and frees the commit lock. After a database outage,
  and for a batch of one record, every member still waiting gets that exception, none is replayed and the flush is gone;
  after any other failure of a larger batch no delivery is settled and the flush goes on to replay all of its members.\<close>

theorem failed_commit_changes_nothing:
  assumes commit: "commit B (fl_batch fl) ds (b_graph b) = Raised e" and b': "b' = end_commit B fl ds b"
  shows "b_graph b' = b_graph b \<and> b_stats b' = b_stats b \<and> b_pending b' = b_pending b \<and> \<not> b_locked b' \<and>
    (if transient e \<or> length (fl_batch fl) = 1
     then (\<forall>i. b_futures b' i =
         (if i \<in> fst ` set (fl_batch fl) \<and> waiting b i then Some (Done (Raised e)) else b_futures b i)) \<and>
       b_flushes b' = filter (\<lambda>x. fl_id x \<noteq> fl_id fl) (b_flushes b)
     else b_futures b' = b_futures b \<and>
       b_flushes b' = map (\<lambda>x. if fl_id x = fl_id fl then x\<lparr>fl_phase := Replaying (fl_batch fl)\<rparr> else x) (b_flushes b))"
proof (cases "transient e \<or> length (fl_batch fl) = 1")
  case True
  let ?rs = "map (\<lambda>x. (fst x, Raised e)) (fl_batch fl)"
  have "map_of (map (\<lambda>x. (fst x, Raised e :: bool ending)) ms) i = (if i \<in> fst ` set ms then Some (Raised e) else None)" for ms :: batch and i
    by (induction ms) auto
  then have "settled_futures ?rs c i = (if i \<in> fst ` set (fl_batch fl) \<and> waiting c i then Some (Done (Raised e)) else b_futures c i)" for c i
    by (auto simp: settled_futures_def waiting_def)
  with True show ?thesis
    by (simp add: b' end_commit_def commit fail_batch_settle_all settle_all_eq end_flush_def Let_def)
next
  case False
  then show ?thesis by (simp add: b' end_commit_def commit set_phase_def Let_def)
qed

lemma failed_commit_changes_nothing_witness:
  "b_graph (end_commit sample_batching sample_flush [GaveUp ServiceUnavailable] sample_submitted) = sample_graph \<and>
   b_futures (end_commit sample_batching sample_flush [GaveUp ServiceUnavailable] sample_submitted) 0 = Some (Done (Raised ServiceUnavailable))"
proof -
  have "commit sample_batching (fl_batch sample_flush) [GaveUp ServiceUnavailable] (b_graph sample_submitted) = Raised ServiceUnavailable"
    by (simp add: commit_def sample_batching_def)
  from failed_commit_changes_nothing [OF this refl] show ?thesis
    by (simp add: sample_flush_def sample_submitted_eq waiting_def)
qed

section \<open>Replay\<close>

text \<open>The whole replay of a flush: one set of driver events for each member.\<close>

fun replay_run :: "batch_env \<Rightarrow> flush \<Rightarrow> driver_event list list \<Rightarrow> batcher \<Rightarrow> batcher" where
  "replay_run B fl [] b = b"
| "replay_run B fl (ds # dss) b =
     replay_run B (fl\<lparr>fl_phase := Replaying (tl (remaining fl))\<rparr>) dss (replay_next B fl ds b)"

text \<open>The results of the futures, and the reference: the same records on the single-record path.\<close>

fun replay_all :: "batch_env \<Rightarrow> obj list \<Rightarrow> driver_event list list \<Rightarrow> stats \<Rightarrow> graph \<Rightarrow> bool ending list \<times> stats \<times> graph" where
  "replay_all B (r # rs) (ds # dss) st g =
     (let (x, st1, g1) = replay_write B r ds st g; (xs, st2, g2) = replay_all B rs dss st1 g1 in (x # xs, st2, g2))"
| "replay_all B _ _ st g = ([], st, g)"

fun deliver_singly ::
    "batch_env \<Rightarrow> obj list \<Rightarrow> driver_event list list \<Rightarrow> stats \<Rightarrow> graph \<Rightarrow> delivery_result ending list \<times> stats \<times> graph" where
  "deliver_singly B (r # rs) (ds # dss) st g =
     (let (x, st1, g1) = write_and_finish (be_driver B) (be_single B) r ds st g;
          (xs, st2, g2) = deliver_singly B rs dss st1 g1 in (x # xs, st2, g2))"
| "deliver_singly B _ _ st g = ([], st, g)"

lemma merge_commute: "merge_global_stats k l (merge_global_stats k' l' st) = merge_global_stats k' l' (merge_global_stats k l st)"
  by (simp add: merge_global_stats_def Let_def)

lemma replay_write_merge:
  "replay_write B r ds st g = (x, st1, g1) \<Longrightarrow>
     replay_write B r ds (merge_global_stats k l st) g = (x, merge_global_stats k l st1, g1)"
  by (auto simp: replay_write_def merge_commute split: ending.splits prod.splits)

lemma replay_all_merge:
  "replay_all B rs dss st g = (xs, st2, g2) \<Longrightarrow>
     replay_all B rs dss (merge_global_stats k l st) g = (xs, merge_global_stats k l st2, g2)"
proof (induction B rs dss st g arbitrary: xs st2 g2 rule: replay_all.induct)
  case (1 B r rs ds dss st g)
  obtain x st1 g1 where one: "replay_write B r ds st g = (x, st1, g1)" by (metis prod_cases3)
  obtain ys st3 g3 where rest: "replay_all B rs dss st1 g1 = (ys, st3, g3)" by (metis prod_cases3)
  from 1 one rest replay_write_merge [OF one] show ?case by (auto simp: Let_def)
qed simp_all

lemma replay_all_uninterrupted:
  "replay_all B rs dss st g = (xs, st2, g2) \<Longrightarrow> \<forall>ds \<in> set dss. Cancelled \<notin> set ds \<Longrightarrow> Interrupted \<notin> set xs"
proof (induction B rs dss st g arbitrary: xs st2 g2 rule: replay_all.induct)
  case (1 B r rs ds dss st g)
  obtain x st1 g1 where one: "replay_write B r ds st g = (x, st1, g1)" by (metis prod_cases3)
  obtain ys st3 g3 where rest: "replay_all B rs dss st1 g1 = (ys, st3, g3)" by (metis prod_cases3)
  have "write_single (be_driver B) (be_single B) r ds zero_stats g \<noteq> Interrupted"
    using 1(3) by (auto simp: write_single_def dest: execute_write_Interrupted split: if_splits)
  then have "x \<noteq> Interrupted" using one by (auto simp: replay_write_def split: ending.splits prod.splits)
  with 1 one rest show ?case by (auto simp: Let_def)
qed simp_all

text \<open>One record: the replay and the end of its delivery against the single-record path.\<close>

lemma replay_write_singly:
  assumes "enricher (be_single B)" and "replay_write B r ds st g = (x, st1, g1)"
  shows "write_and_finish (be_driver B) (be_single B) r ds st g = (fst (finish_submitted x st1), snd (finish_submitted x st1), g1)"
proof (cases "write_single (be_driver B) (be_single B) r ds zero_stats g")
  case (Returned y)
  obtain l h where y: "y = ((), l, h)" by (cases y) auto
  have "be_single B r (zero_stats, g) = Inr (l, h)" using write_single_Returned Returned y by blast
  from counted_once_from_zero [OF enricher.counts [OF assms(1) this]]
  have "merge_global_stats True (submit_stats (entities_enriched l > 0) zero_stats) (merge_global_stats False l st) = merge_global_stats True l st"
    unfolding merge_submit_stats by (intro merge_by_parts) auto
  with assms(2) Returned y show ?thesis
    by (auto simp: replay_write_def write_and_finish_def finish_submitted_Returned acknowledged_def finish_def)
qed (use assms(2) in \<open>auto simp: replay_write_def write_and_finish_def finish_submitted_def finish_def\<close>)

lemma finish_submitted_cases:
  "(\<forall>st. snd (finish_submitted x st) = st) \<or> (\<exists>l. \<forall>st. snd (finish_submitted x st) = merge_global_stats True l st)"
  by (cases x) (auto simp: finish_submitted_def finish_def)

lemma finish_submitted_fst: "fst (finish_submitted x st) = fst (finish_submitted x st')"
  by (cases x) (simp_all add: finish_submitted_def finish_def)

lemma replay_all_singly:
  assumes single: "enricher (be_single B)"
  shows "replay_all B rs dss st g = (xs, st2, g2) \<Longrightarrow>
    deliver_singly B rs dss st g = (fst (finish_all xs st2), snd (finish_all xs st2), g2)"
proof (induction rs arbitrary: dss st g xs st2 g2)
  case (Cons r rs)
  show ?case
  proof (cases dss)
    case dss: (Cons ds dss')
    obtain x st1 g1 where one: "replay_write B r ds st g = (x, st1, g1)" by (metis prod_cases3)
    obtain ys st3 g3 where rest: "replay_all B rs dss' st1 g1 = (ys, st3, g3)" by (metis prod_cases3)
    have all: "xs = x # ys" "st2 = st3" "g2 = g3" using Cons.prems one rest by (simp_all add: dss)
    define A where "A st = snd (finish_submitted x st)" for st
    have "replay_all B rs dss' (A st1) g1 = (ys, A st3, g3)"
      using finish_submitted_cases [of x] rest replay_all_merge [OF rest] by (auto simp: A_def)
    note rest' = Cons.IH [OF this]
    have "finish_submitted x st3 = (fst (finish_submitted x st1), A st3)"
      using finish_submitted_fst [of x st3 st1] by (simp add: A_def prod_eq_iff)
    then have "finish_all (x # ys) st3 =
        (fst (finish_submitted x st1) # fst (finish_all ys (A st3)), snd (finish_all ys (A st3)))"
      by (simp add: case_prod_unfold Let_def)
    then show ?thesis using replay_write_singly [OF single one] rest' by (simp add: dss all A_def)
  qed (use Cons.prems in simp)
qed simp

text \<open>The run of the flush task computes \<open>replay_all\<close> and settles its members with the results.\<close>

lemma settle_all_commute:
  "settle_all rs (b\<lparr>b_stats := st, b_graph := g\<rparr>) = (settle_all rs b)\<lparr>b_stats := st, b_graph := g\<rparr>"
  "settle_all rs (set_phase fl p b) = set_phase fl p (settle_all rs b)"
  by (simp_all add: settle_all_eq settled_futures_def waiting_def set_phase_def fun_eq_iff)

lemma end_flush_set_phase: "end_flush fl (set_phase fl p b) = end_flush fl b"
  by (simp add: end_flush_def set_phase_def filter_map comp_def) (rule arg_cong [of _ _ "\<lambda>x. b_flushes_update (\<lambda>_. x) b"],
    rule map_idI, auto)

lemma replay_run_all:
  assumes "fl_phase fl = Replaying members" and "members \<noteq> []" and "length dss = length members"
    and "replay_all B (map snd members) dss (b_stats b) (b_graph b) = (rs, st, g)" and "Interrupted \<notin> set rs"
  shows "replay_run B fl dss b = end_flush fl (settle_all (zip (map fst members) rs) (b\<lparr>b_stats := st, b_graph := g\<rparr>)) \<and>
    length rs = length members"
  using assms
proof (induction members arbitrary: fl dss b rs st g)
  case (Cons m members)
  obtain i r where m: "m = (i, r)" by (cases m)
  obtain ds dss' where dss: "dss = ds # dss'" using Cons.prems(3) by (cases dss) auto
  obtain x st1 g1 where one: "replay_write B r ds (b_stats b) (b_graph b) = (x, st1, g1)" by (metis prod_cases3)
  obtain ys st3 g3 where rest: "replay_all B (map snd members) dss' st1 g1 = (ys, st3, g3)" by (metis prod_cases3)
  have all: "rs = x # ys" "st = st3" "g = g3" using Cons.prems(4) one rest by (simp_all add: dss m)
  have x: "x \<noteq> Interrupted" using Cons.prems(5) by (auto simp: all)
  let ?fl = "fl\<lparr>fl_phase := Replaying members\<rparr>"
  let ?b = "settle i x (b\<lparr>b_stats := st1, b_graph := g1\<rparr>)"
  have next': "replay_next B fl ds b = (if members = [] then end_flush fl ?b else set_phase fl (Replaying members) ?b)"
    using x Cons.prems(1) by (cases x) (simp_all add: replay_next_def m one)
  have tl: "fl\<lparr>fl_phase := Replaying (tl (remaining fl))\<rparr> = ?fl" using Cons.prems(1) by (simp add: remaining_def)
  have same: "end_flush ?fl = end_flush fl" by (simp add: end_flush_def fun_eq_iff)
  show ?case
  proof (cases "members = []")
    case True
    with next' Cons.prems(3) rest show ?thesis
      by (simp add: dss all m settle_all_def)
  next
    case False
    let ?c = "set_phase fl (Replaying members) ?b"
    have "b_stats ?c = st1" "b_graph ?c = g1" by (simp_all add: set_phase_def settle_def)
    then have IH: "replay_run B ?fl dss' ?c =
        end_flush ?fl (settle_all (zip (map fst members) ys) (?c\<lparr>b_stats := st3, b_graph := g3\<rparr>)) \<and> length ys = length members"
      using Cons.prems(3,5) False rest by (intro Cons.IH) (simp_all add: dss all)
    have run: "replay_run B fl dss b = replay_run B ?fl dss' ?c" using next' False by (simp add: dss tl)
    have "?c\<lparr>b_stats := st3, b_graph := g3\<rparr> = set_phase fl (Replaying members) (?b\<lparr>b_stats := st3, b_graph := g3\<rparr>)"
      by (simp add: set_phase_def)
    then have "end_flush fl (settle_all (zip (map fst members) ys) (?c\<lparr>b_stats := st3, b_graph := g3\<rparr>)) =
        end_flush fl (settle_all (zip (map fst members) ys) (?b\<lparr>b_stats := st3, b_graph := g3\<rparr>))"
      by (simp only: settle_all_commute(2) end_flush_set_phase)
    also have "?b\<lparr>b_stats := st3, b_graph := g3\<rparr> = settle i x (b\<lparr>b_stats := st3, b_graph := g3\<rparr>)"
      by (simp add: settle_def)
    finally have "replay_run B fl dss b =
        end_flush fl (settle_all (zip (map fst members) ys) (settle i x (b\<lparr>b_stats := st3, b_graph := g3\<rparr>)))"
      using IH by (simp only: run same)
    with IH show ?thesis by (simp add: settle_all_def all m)
  qed
qed simp



section \<open>Acknowledged deliveries\<close>

lemma receive_record:
  assumes "receive S data_type parsed s = (Inr body, s1)" shows "parsed = Inr (JObj body)"
  using assms by (auto simp: receive_def Let_def split: sum.splits json.splits prod.splits bool.splits if_splits)

lemma finish_submitted_ACK:
  assumes "fst (finish_submitted r st) = Returned result" and "dr_settlement result = ACK"
  shows "\<exists>matched. r = Returned matched \<and> dr_outcome result = (if matched then ''processed'' else ''skipped'')"
  using assms by (cases r) (auto simp: finish_submitted_def finish_def fail_with_def submit_stats_def zero_stats_def split: if_splits)

text \<open>C6: What is acknowledged in batch mode has been committed. When a delivery was submitted to the batcher and, after any
  further steps of it, its future makes the handler acknowledge, then one of these steps was the commit of that very
  record: the transaction of a flush it was a member of, or its own when it was replayed, returned with this record's
  flag and left the graph of that moment; the outcome that is reported is that flag.\<close>

theorem acknowledged_batch_delivery_was_committed:
  assumes "reach batcher_start (batch_step B loop cancels) b"
    and "operation_batched S B loop data_type parsed (s, b) = (Inr i, s1, b1)"
    and "(batch_step B loop cancels)\<^sup>*\<^sup>* b1 b'" and "b_futures b' i = Some (Done r)"
    and "fst (finish_submitted r st) = Returned result" and "dr_settlement result = ACK"
  shows "\<exists>body matched b2 b3. parsed = Inr (JObj body) \<and>
    (batch_step B loop cancels)\<^sup>*\<^sup>* b1 b2 \<and> batch_step B loop cancels b2 b3 \<and> (batch_step B loop cancels)\<^sup>*\<^sup>* b3 b' \<and>
    commits_entry B i body matched b2 b3 \<and> dr_outcome result = (if matched then ''processed'' else ''skipped'')"
proof -
  from assms(2) obtain body where rec: "receive S data_type parsed s = (Inr body, s1)" and i: "i = b_next b"
    and b1: "b1 = submit B loop body b"
    by (auto simp: operation_batched_def split: prod.splits sum.splits)
  from finish_submitted_ACK [OF assms(5,6)] obtain matched where m: "r = Returned matched"
    "dr_outcome result = (if matched then ''processed'' else ''skipped'')" by blast
  have "resolved_by B loop cancels i body b1 b'"
    using submitted_history [OF assms(1)] assms(3) by (simp add: i b1)
  then have "\<exists>b2 b3. (batch_step B loop cancels)\<^sup>*\<^sup>* b1 b2 \<and> batch_step B loop cancels b2 b3 \<and>
      (batch_step B loop cancels)\<^sup>*\<^sup>* b3 b' \<and> commits_entry B i body matched b2 b3"
    using assms(4) m(1) by (auto simp: resolved_by_def waiting_def)
  with receive_record [OF rec] m(2) show ?thesis by blast
qed

lemma acknowledged_batch_delivery_was_committed_witness:
  "\<exists>(b' :: batcher) matched b2 b3. b_futures b' 0 = Some (Done (Returned True)) \<and> batch_step sample_batching 0 False b2 b3 \<and>
     commits_entry sample_batching 0 sample_label matched b2 b3 \<and> matched"
proof -
  let ?step = "batch_step sample_batching 0 False"
  let ?queued = "\<lparr>fl_id = 2, fl_batch = [(0, sample_label)], fl_phase = Queued\<rparr>"
  define b0 where "b0 = initial_batcher zero_stats sample_graph"
  define l where "l = linger_expires sample_batching 1 sample_submitted"
  define c where "c = begin_commit sample_batching ?queued l"
  define b' where "b' = end_commit sample_batching sample_flush [] c"
  have l: "b_flushes l = [?queued]" "\<not> b_locked l" "b_graph l = sample_graph" "b_futures l = [0 \<mapsto> Waiting]"
    by (simp_all add: l_def linger_expires_def flush_now_def stop_timer_def sample_submitted_eq sample_batching_def waiting_def Let_def)
  have c: "b_flushes c = [sample_flush]" "b_graph c = sample_graph" "b_futures c = [0 \<mapsto> Waiting]"
    by (simp_all add: c_def begin_commit_def set_phase_def l sample_flush_def)
  have "?step sample_submitted l" unfolding l_def by (rule lingered) (simp add: sample_submitted_eq)
  moreover have "?step l c" unfolding c_def by (rule begins) (simp_all add: l)
  moreover have "?step c b'" unfolding b'_def by (rule commits) (simp_all add: c sample_flush_def)
  ultimately have steps: "?step\<^sup>*\<^sup>* sample_submitted b'" by (meson converse_rtranclp_into_rtranclp rtranclp.rtrancl_refl)
  obtain k g where run: "enrich_labels_batch sample_env ''t'' [sample_label] (zero_stats, sample_graph) = Inr ([True], k, g)"
    using sample_label_batch_runs by blast
  have "commit sample_batching [(0, sample_label)] [] sample_graph = Returned ([True], k, g)"
    by (simp add: commit_def sample_batching_def batch_tx_def run)
  then have fut: "b_futures b' 0 = Some (Done (Returned True))"
    by (simp add: b'_def end_commit_def c sample_flush_def end_flush_def resolve_batch_def settle_def waiting_def)
  have op: "operation_batched sample_settings sample_batching 0 ''labels'' (Inr (JObj sample_label)) (sample_svc, b0) =
      (Inr 0, rearm ''labels'' sample_svc, sample_submitted)"
    using receive_data [OF sample_label_message(1)] sample_label_message
    by (simp add: operation_batched_def b0_def sample_submitted_def initial_batcher_def)
  have start: "reach batcher_start ?step b0" unfolding b0_def by (intro reach_start batcher_start.intros)
  let ?r = "\<lparr>dr_settlement = ACK, dr_outcome = ''processed'', dr_error_type = None\<rparr>"
  have "fst (finish_submitted (Returned True) zero_stats) = Returned ?r"
    by (simp add: finish_submitted_def finish_def submit_stats_def zero_stats_def)
  from acknowledged_batch_delivery_was_committed [OF start op steps fut this] obtain matched b2 b3 where
    "?step b2 b3" "commits_entry sample_batching 0 sample_label matched b2 b3"
    "''processed'' = (if matched then ''processed'' else ''skipped'')" by auto
  then have "matched" "commits_entry sample_batching 0 sample_label matched b2 b3" "?step b2 b3" by (simp_all split: if_splits)
  with fut show ?thesis by blast
qed

end
