(* ===== verification/Config.thy ===== *)
theory Config
  imports Json
begin

text \<open>
  Service configuration (\<^verbatim>\<open>config.py\<close>). The environment is a partial map; \<open>get_secret\<close> and the two
  URL builders belong to the shared runtime package and are parameters.
\<close>

type_synonym environ = "string \<rightharpoonup> string"

definition DEFAULT_HEALTH_PORT :: int where "DEFAULT_HEALTH_PORT = 8001"

section \<open>Python's \<open>int(text)\<close>\<close>

text \<open>On ASCII text: surrounding white space, one sign, digits with single underscores between them.\<close>

definition is_space :: "char \<Rightarrow> bool" where
  "is_space c \<longleftrightarrow> (let n = (of_char c :: nat) in n = 32 \<or> (9 \<le> n \<and> n \<le> 13) \<or> (28 \<le> n \<and> n \<le> 31))"

definition strip :: "string \<Rightarrow> string" where
  "strip s = rev (dropWhile is_space (rev (dropWhile is_space s)))"

fun int_digits :: "bool \<Rightarrow> nat \<Rightarrow> string \<Rightarrow> nat option" where
  "int_digits prev acc [] = (if prev then Some acc else None)"
| "int_digits prev acc (c # cs) =
     (let n = of_char c in
      if 48 \<le> n \<and> n \<le> 57 then int_digits True (10 * acc + (n - 48)) cs
      else if n = 95 \<and> prev then int_digits False acc cs else None)"

definition py_int :: "string \<Rightarrow> int option" where
  "py_int s = (case strip s of
      [] \<Rightarrow> None
    | c # cs \<Rightarrow>
        (if c = CHR ''-'' then map_option (\<lambda>n. - int n) (int_digits False 0 cs)
         else if c = CHR ''+'' then map_option int (int_digits False 0 cs)
         else map_option int (int_digits False 0 (c # cs))))"

section \<open>The health port\<close>

definition bad_port :: "string \<Rightarrow> pyerr" where
  "bad_port raw = ValueError (''Invalid HEALTH_PORT '' @ repr_str raw @ '': must be an integer between 1 and 65535'')"

definition health_port_from_env :: "environ \<Rightarrow> int res" where
  "health_port_from_env env = (case env ''HEALTH_PORT'' of
      None \<Rightarrow> Inr DEFAULT_HEALTH_PORT
    | Some raw \<Rightarrow> (case py_int raw of
        None \<Rightarrow> Inl (bad_port raw)
      | Some port \<Rightarrow> if \<not> (1 \<le> port \<and> port \<le> 65535) then Inl (bad_port raw) else Inr port))"

section \<open>The configuration\<close>

record service_config =
  amqp_connection :: string
  neo4j_host :: string
  neo4j_username :: string
  neo4j_password :: string
  health_port :: int

definition missing_vars :: "environ \<Rightarrow> (string \<Rightarrow> string option) \<Rightarrow> string list" where
  "missing_vars env get_secret =
     map fst (filter (\<lambda>(name, value). value = None \<or> value = Some [])
       [(''NEO4J_HOST'', env ''NEO4J_HOST''), (''NEO4J_USERNAME'', get_secret ''NEO4J_USERNAME''),
        (''NEO4J_PASSWORD'', get_secret ''NEO4J_PASSWORD'')])"

definition from_env ::
    "(string \<Rightarrow> string option) \<Rightarrow> string res \<Rightarrow> string res \<Rightarrow> environ \<Rightarrow> service_config res" where
  "from_env get_secret build_amqp_url build_neo4j_uri env =
     (let missing = missing_vars env get_secret in
      if missing \<noteq> []
      then Inl (ValueError (''Missing required environment variables: '' @ join '', '' missing))
      else rbind (health_port_from_env env) (\<lambda>port.
           rbind build_amqp_url (\<lambda>amqp. rbind build_neo4j_uri (\<lambda>uri.
             Inr \<lparr>amqp_connection = amqp, neo4j_host = uri,
                  neo4j_username = the (get_secret ''NEO4J_USERNAME''),
                  neo4j_password = the (get_secret ''NEO4J_PASSWORD''), health_port = port\<rparr>))))"

section \<open>Lemmas\<close>

lemma digit_code: "n < 10 \<Longrightarrow> of_char (char_of (48 + n) :: char) = (48 + n :: nat)"
  by (simp add: of_char_of)

lemma int_digits_nat_digits:
  "int_digits p a (nat_digits n @ s) = int_digits True (10 ^ length (nat_digits n) * a + n) s"
proof (induction n arbitrary: s rule: nat_digits.induct)
  case (1 n)
  show ?case
  proof (cases "n < 10")
    case True
    then have "nat_digits n = [char_of (48 + n)]" by (subst nat_digits.simps) simp
    with True show ?thesis by (simp add: digit_code Let_def)
  next
    case False
    then have nd: "nat_digits n = nat_digits (n div 10) @ [char_of (48 + n mod 10)]"
      by (subst nat_digits.simps) simp
    have "10 * (n div 10) + n mod 10 = n" "n mod 10 \<le> 9" by simp_all
    with 1 [OF False] show ?thesis by (simp add: nd digit_code Let_def algebra_simps)
  qed
qed

lemma nat_digits_range: "c \<in> set (nat_digits n) \<Longrightarrow> 48 \<le> (of_char c :: nat) \<and> (of_char c :: nat) \<le> 57"
proof (induction n rule: nat_digits.induct)
  case (1 n)
  then show ?case
    by (cases "n < 10") (auto simp: nat_digits.simps [of n] digit_code)
qed

lemma strip_nat_digits: "strip (nat_digits n) = nat_digits n"
proof -
  have "\<not> is_space c" if "c \<in> set (nat_digits n)" for c
    using nat_digits_range [OF that] by (auto simp: is_space_def Let_def)
  then have "dropWhile is_space xs = xs" if "set xs \<subseteq> set (nat_digits n)" for xs
    using that by (cases xs) auto
  then show ?thesis by (simp add: strip_def)
qed

lemma py_int_nat_digits: "py_int (nat_digits n) = Some (int n)"
proof -
  obtain c cs where nd: "nat_digits n = c # cs" by (cases "nat_digits n") auto
  then have "48 \<le> (of_char c :: nat)" using nat_digits_range [of c n] by simp
  then have "c \<noteq> CHR ''-''" "c \<noteq> CHR ''+''" by auto
  then show ?thesis
    using int_digits_nat_digits [of False 0 n "[]"] nd strip_nat_digits [of n] by (simp add: py_int_def)
qed

end
