(* ===== verification/Startup.thy ===== *)
theory Startup
  imports Config Lifecycle
begin

text \<open>
  The process around the service (\<^verbatim>\<open>main\<close> in \<^verbatim>\<open>brainzgraphinator.py\<close>): configuration, the Neo4j check,
  the connection attempts, the declaration and registration of the consumers, and the teardown. What
  the environment answers is the record \<open>startup_env\<close>; logging, the health server and telemetry are
  not modelled.
\<close>

section \<open>Connecting\<close>

definition EXIT_OK :: int where
  "EXIT_OK = 0"

definition EXIT_STARTUP_FAILED :: int where
  "EXIT_STARTUP_FAILED = 1"

definition MAX_STARTUP_RETRIES :: nat where
  "MAX_STARTUP_RETRIES = 5"

text \<open>
  The retry loop: \<open>signalled i\<close> is the shutdown flag when the loop condition is tested for attempt \<open>i\<close>,
  \<open>connects i\<close> says whether that attempt connects. Without a connection the loop ends with the flag as
  it is then. The second component lists the waits in seconds.
\<close>

datatype connect_end = Connected | AttemptsExhausted | NoConnection bool

function connect_loop :: "(nat \<Rightarrow> bool) \<Rightarrow> (nat \<Rightarrow> bool) \<Rightarrow> nat \<Rightarrow> connect_end \<times> nat list" where
  "connect_loop signalled connects startup_retry =
     (if startup_retry < MAX_STARTUP_RETRIES \<and> \<not> signalled startup_retry
      then if connects startup_retry then (Connected, [])
           else let retry = startup_retry + 1 in
             if retry < MAX_STARTUP_RETRIES
             then let (r, waits) = connect_loop signalled connects retry in (r, min 30 (5 * retry) # waits)
             else (AttemptsExhausted, [])
      else (NoConnection (signalled startup_retry), []))"
  by pat_completeness auto

termination
  by (relation "measure (\<lambda>(_, _, retry). MAX_STARTUP_RETRIES - retry)") auto

declare connect_loop.simps [simp del]

section \<open>Startup\<close>

text \<open>
  \<open>se_env\<close>, \<open>se_secret\<close>, \<open>se_amqp_url\<close>, \<open>se_neo4j_uri\<close>: what the configuration reads;
  \<open>se_neo4j\<close>: whether the test query succeeds; \<open>se_channel\<close>: opening the channel and setting its prefetch; \<open>se_consume\<close>: the tag each consume call
  returns; \<open>se_prefix\<close> and \<open>se_broker\<close>: the exchange prefix and the broker as it is found.
\<close>

record startup_env =
  se_env :: environ
  se_secret :: "string \<Rightarrow> string option"
  se_amqp_url :: "string res"
  se_neo4j_uri :: "string res"
  se_neo4j :: bool
  se_signalled :: "nat \<Rightarrow> bool"
  se_connects :: "nat \<Rightarrow> bool"
  se_channel :: "unit res"
  se_prefix :: string
  se_broker :: broker
  se_consume :: "string \<Rightarrow> string res"
  se_now :: int

text \<open>The seconds slept before anything else; a value that is not a number is not caught.\<close>

definition startup_delay :: "environ \<Rightarrow> int res" where
  "startup_delay env = (case env ''STARTUP_DELAY'' of
      None \<Rightarrow> Inr 5
    | Some raw \<Rightarrow> (case py_int raw of
        None \<Rightarrow> Inl (ValueError (''invalid literal for int() with base 10: '' @ repr_str raw))
      | Some n \<Rightarrow> Inr n))"

definition startup_config :: "startup_env \<Rightarrow> service_config res" where
  "startup_config U = from_env (se_secret U) (se_amqp_url U) (se_neo4j_uri U) (se_env U)"

text \<open>From the opened connection to the last registration.\<close>

definition open_consumers :: "startup_env \<Rightarrow> svc \<Rightarrow> (svc \<times> broker) res" where
  "open_consumers U s =
     rbind (se_channel U) (\<lambda>_.
     rbind (declare_streams (se_prefix U) (se_broker U)) (\<lambda>(qs, b).
     rbind (rfold (\<lambda>e u. rbind (se_consume U e) (\<lambda>tag. Inr (register_consumer e tag u))) ENTITY_TYPES
         (s\<lparr>active_connection := True, active_channel := True, queues := qs,
            connection_consumer_tags := [], consumer_watch_started_at := se_now U\<rparr>)) (\<lambda>u.
     Inr (u, b))))"

text \<open>How \<open>main\<close> ends: with an exit status, or with an exception that escapes from it.\<close>

datatype main_end = Exited int | Crashed pyerr

fun is_value_error :: "pyerr \<Rightarrow> bool" where
  "is_value_error (ValueError _) = True"
| "is_value_error _ = False"

text \<open>\<open>main\<close> up to the moment the service is consuming.\<close>

definition startup :: "startup_env \<Rightarrow> main_end + svc \<times> broker" where
  "startup U = (case startup_delay (se_env U) of
      Inl e \<Rightarrow> Inl (Crashed e)
    | Inr _ \<Rightarrow>
     (case startup_config U of
        Inl e \<Rightarrow> Inl (if is_value_error e then Exited EXIT_STARTUP_FAILED else Crashed e)
      | Inr config \<Rightarrow>
          if \<not> se_neo4j U then Inl (Exited EXIT_STARTUP_FAILED)
          else (case fst (connect_loop (se_signalled U) (se_connects U) 0) of
              AttemptsExhausted \<Rightarrow> Inl (Exited EXIT_STARTUP_FAILED)
            | NoConnection shutdown \<Rightarrow> Inl (Exited (if shutdown then EXIT_OK else EXIT_STARTUP_FAILED))
            | Connected \<Rightarrow>
                (case open_consumers U (initial_svc\<lparr>graph_driver := True\<rparr>) of
                   Inl e \<Rightarrow> Inl (Crashed e)
                 | Inr x \<Rightarrow> Inr x))))"

section \<open>Teardown\<close>

text \<open>The \<open>finally\<close> block: consumers first, then the transport.\<close>

definition teardown :: "(string \<Rightarrow> cancel_result) \<Rightarrow> bool \<Rightarrow> bool \<Rightarrow> svc \<Rightarrow> svc" where
  "teardown answers channel_ok connection_ok s =
     close_rabbitmq_connection channel_ok connection_ok (cancel_all_consumers answers s)"

section \<open>Facts\<close>

text \<open>When each outcome of the loop happens, for the attempts from \<open>n\<close> on.\<close>

definition failed_until :: "(nat \<Rightarrow> bool) \<Rightarrow> (nat \<Rightarrow> bool) \<Rightarrow> nat \<Rightarrow> nat \<Rightarrow> bool" where
  "failed_until sig con n i \<longleftrightarrow> (\<forall>j \<in> {n..<i}. \<not> sig j \<and> \<not> con j)"

lemma failed_until_Suc: "n < i \<Longrightarrow> failed_until sig con n i \<longleftrightarrow> \<not> sig n \<and> \<not> con n \<and> failed_until sig con (Suc n) i"
proof -
  assume "n < i"
  then have "{n..<i} = insert n {Suc n..<i}" by auto
  then show ?thesis by (simp add: failed_until_def)
qed

definition loop_outcome :: "(nat \<Rightarrow> bool) \<Rightarrow> (nat \<Rightarrow> bool) \<Rightarrow> nat \<Rightarrow> connect_end \<Rightarrow> bool" where
  "loop_outcome sig con n r = (case r of
      Connected \<Rightarrow> \<exists>i \<in> {n..<MAX_STARTUP_RETRIES}. failed_until sig con n i \<and> \<not> sig i \<and> con i
    | AttemptsExhausted \<Rightarrow> failed_until sig con n MAX_STARTUP_RETRIES
    | NoConnection shutdown \<Rightarrow> shutdown \<and> (\<exists>i \<in> {n..<MAX_STARTUP_RETRIES}. failed_until sig con n i \<and> sig i))"

lemma loop_outcome_Suc:
  assumes "\<not> sig n" "\<not> con n" and "Suc n < MAX_STARTUP_RETRIES" and "loop_outcome sig con (Suc n) r"
  shows "loop_outcome sig con n r"
proof -
  have ex: "\<exists>i \<in> {n..<MAX_STARTUP_RETRIES}. failed_until sig con n i \<and> Q i"
    if "\<exists>i \<in> {Suc n..<MAX_STARTUP_RETRIES}. failed_until sig con (Suc n) i \<and> Q i" for Q
  proof -
    from that obtain i where "i \<in> {Suc n..<MAX_STARTUP_RETRIES}" "failed_until sig con (Suc n) i" "Q i" by blast
    with assms(1,2) show ?thesis by (intro bexI [of _ i]) (simp_all add: failed_until_Suc)
  qed
  show ?thesis
    using assms ex [of "\<lambda>i. \<not> sig i \<and> con i"] ex [of sig]
    by (cases r) (simp_all add: loop_outcome_def failed_until_Suc)
qed

lemma connect_loop_outcome:
  "n < MAX_STARTUP_RETRIES \<Longrightarrow> loop_outcome sig con n (fst (connect_loop sig con n))"
proof (induction sig con n rule: connect_loop.induct)
  case (1 sig con n)
  show ?case
  proof (cases "\<not> sig n \<and> \<not> con n \<and> Suc n < MAX_STARTUP_RETRIES")
    case True
    have "fst (connect_loop sig con n) = fst (connect_loop sig con (Suc n))"
      using True by (subst connect_loop.simps) (simp add: case_prod_unfold Let_def)
    moreover have "loop_outcome sig con (Suc n) (fst (connect_loop sig con (Suc n)))"
      using True "1.IH" [OF _ _ refl] by simp
    ultimately show ?thesis
      using True loop_outcome_Suc [of sig n con] by simp
  next
    case False
    with "1.prems" have "sig n \<or> con n \<or> Suc n = MAX_STARTUP_RETRIES" by linarith
    moreover have "failed_until sig con n n" by (simp add: failed_until_def)
    moreover have "failed_until sig con n MAX_STARTUP_RETRIES \<longleftrightarrow> \<not> sig n \<and> \<not> con n" if "Suc n = MAX_STARTUP_RETRIES"
      unfolding that [symmetric] by (simp add: failed_until_Suc failed_until_def)
    ultimately show ?thesis using "1.prems"
      by (subst connect_loop.simps) (auto simp: loop_outcome_def intro: bexI [of _ n])
  qed
qed

lemma connect_loop_waits:
  "sum_list (snd (connect_loop sig con n)) \<le> 5 * sum_list [Suc n..<MAX_STARTUP_RETRIES]"
proof (induction sig con n rule: connect_loop.induct)
  case (1 sig con n)
  show ?case
  proof (cases "\<not> sig n \<and> \<not> con n \<and> Suc n < MAX_STARTUP_RETRIES")
    case True
    then have "snd (connect_loop sig con n) = min 30 (5 * Suc n) # snd (connect_loop sig con (Suc n))"
      by (subst connect_loop.simps) (simp add: case_prod_unfold Let_def)
    moreover have "sum_list (snd (connect_loop sig con (Suc n))) \<le> 5 * sum_list [Suc (Suc n)..<MAX_STARTUP_RETRIES]"
      using True "1.IH" [OF _ _ refl] by simp
    ultimately show ?thesis using True by (simp add: upt_conv_Cons)
  next
    case False
    then show ?thesis by (subst connect_loop.simps) auto
  qed
qed

text \<open>A successful startup ends in a start state of the lifecycle.\<close>

lemma register_all:
  assumes "rfold (\<lambda>e u. rbind (consume e) (\<lambda>tag. Inr (register_consumer e tag u))) es u = Inr u'"
  shows "\<exists>tag_of. (\<forall>e \<in> set es. consume e = Inr (tag_of e)) \<and> u' = fold (\<lambda>e. register_consumer e (tag_of e)) es u"
proof (intro exI conjI)
  let ?tag = "\<lambda>e. case consume e of Inr tag \<Rightarrow> tag | Inl _ \<Rightarrow> []"
  show "\<forall>e \<in> set es. consume e = Inr (?tag e)"
    using assms by (induction es arbitrary: u) (auto simp: res_simps)
  show "u' = fold (\<lambda>e. register_consumer e (?tag e)) es u"
    using assms by (induction es arbitrary: u) (auto simp: res_simps)
qed

lemma open_consumers_start:
  assumes "open_consumers U (initial_svc\<lparr>graph_driver := True\<rparr>) = Inr (s, b)"
  shows "svc_start s \<and> (\<exists>qs. declare_streams (se_prefix U) (se_broker U) = Inr (qs, b) \<and> queues s = qs) \<and>
    (\<forall>e \<in> set ENTITY_TYPES. \<exists>tag. se_consume U e = Inr tag \<and> map_of (consumer_tags s) e = Some tag)"
proof -
  let ?s = "initial_svc\<lparr>graph_driver := True\<rparr>"
  from assms obtain qs where decl: "declare_streams (se_prefix U) (se_broker U) = Inr (qs, b)"
    and reg: "rfold (\<lambda>e u. rbind (se_consume U e) (\<lambda>tag. Inr (register_consumer e tag u))) ENTITY_TYPES
      (?s\<lparr>active_connection := True, active_channel := True, queues := qs,
          connection_consumer_tags := [], consumer_watch_started_at := se_now U\<rparr>) = Inr s"
    by (auto simp: open_consumers_def res_simps)
  from register_all [OF reg] obtain tag_of where tags: "\<forall>e \<in> set ENTITY_TYPES. se_consume U e = Inr (tag_of e)"
    and s: "s = fold (\<lambda>e. register_consumer e (tag_of e)) ENTITY_TYPES
      (?s\<lparr>active_connection := True, active_channel := True, queues := qs,
          connection_consumer_tags := [], consumer_watch_started_at := se_now U\<rparr>)" by blast
  have qs: "qs = map (\<lambda>e. (e, stream_queue (se_prefix U) e)) ENTITY_TYPES" by (rule declare_streams_Inr(1) [OF decl])
  have start: "s = start_service (stream_queue (se_prefix U)) tag_of (se_now U) ?s"
    by (simp add: start_service_def s qs)
  have "queues s = qs" by (simp add: s ENTITY_TYPES_def register_consumer_def)
  moreover have "map_of (consumer_tags s) e = Some (tag_of e)" if "e \<in> set ENTITY_TYPES" for e
    using that by (auto simp: s ENTITY_TYPES_def register_consumer_def initial_svc_def)
  ultimately show ?thesis using decl tags svc_start.intros start by metis
qed

end
