(* ===== verification/WireProperties.thy ===== *)
theory WireProperties
  imports Catalog Config
begin

text \<open>
  Properties of the wire contract and the configuration: names that tell streams apart, the
  topology a consumer declares and its idempotence, the accepted health ports and what a
  constructed configuration guarantees.
\<close>

section \<open>Names and topology\<close>

lemma entity_cases: "e \<in> set ENTITY_TYPES \<Longrightarrow>
    e = ''artists'' \<or> e = ''labels'' \<or> e = ''release-groups'' \<or> e = ''releases''"
  by (auto simp: ENTITY_TYPES_def)

lemma consumer_cases: "c \<in> set CONSUMERS \<Longrightarrow> c = ''brainzgraphinator'' \<or> c = ''brainztableinator''"
  by (auto simp: CONSUMERS_def)

text \<open>The wire names tell streams apart: two streams of a source share a queue name only when they have the same
  consumer and entity, a dead-letter queue is never the queue of a stream, and a dead-letter exchange is never the
  exchange a stream is published to.\<close>

theorem wire_names_distinguish_streams:
  assumes "queue_name prefix c e = Inr q" and "queue_name prefix c' e' = Inr q'"
    and "dead_letter_queue_name prefix c e = Inr dlq" and "dead_letter_exchange_name prefix c e = Inr dlx"
    and "exchange_name prefix e'' = Inr x"
  shows "(q = q' \<longleftrightarrow> c = c' \<and> e = e') \<and> dlq \<noteq> q' \<and> dlx \<noteq> x"
proof -
  have known: "c \<in> set CONSUMERS" "e \<in> set ENTITY_TYPES" "c' \<in> set CONSUMERS" "e' \<in> set ENTITY_TYPES" "e'' \<in> set ENTITY_TYPES"
    and names: "q = prefix @ ''-'' @ c @ ''-'' @ e" "q' = prefix @ ''-'' @ c' @ ''-'' @ e'"
      "dlq = prefix @ ''-'' @ c @ ''-'' @ e @ ''.dlq''" "dlx = prefix @ ''-'' @ c @ ''-'' @ e @ ''.dlx''" "x = prefix @ ''-'' @ e''"
    using assms by (simp_all add: queue_name_Inr dead_letter_Inr exchange_name_Inr)
  show ?thesis
    using consumer_cases [OF known(1)] consumer_cases [OF known(3)] entity_cases [OF known(2)] entity_cases [OF known(4)]
      entity_cases [OF known(5)]
    unfolding names by (elim disjE) simp_all
qed

lemma wire_names_distinguish_streams_witness:
  "queue_name ''mb'' ''brainzgraphinator'' ''artists'' \<noteq> queue_name ''mb'' ''brainztableinator'' ''artists''"
proof -
  have "queue_name ''mb'' ''brainzgraphinator'' ''artists'' = Inr ''mb-brainzgraphinator-artists''"
    "queue_name ''mb'' ''brainztableinator'' ''artists'' = Inr ''mb-brainztableinator-artists''"
    "dead_letter_queue_name ''mb'' ''brainzgraphinator'' ''artists'' = Inr ''mb-brainzgraphinator-artists.dlq''"
    "dead_letter_exchange_name ''mb'' ''brainzgraphinator'' ''artists'' = Inr ''mb-brainzgraphinator-artists.dlx''"
    "exchange_name ''mb'' ''labels'' = Inr ''mb-labels''"
    by (simp_all add: queue_name_def dead_letter_queue_name_def dead_letter_exchange_name_def exchange_name_def
      CONSUMERS_def ENTITY_TYPES_def)
  from wire_names_distinguish_streams [OF this] this show ?thesis by auto
qed

text \<open>Declaring a stream that shares no name with the broker succeeds.\<close>

definition fresh_stream :: "string \<Rightarrow> string \<Rightarrow> broker \<Rightarrow> bool" where
  "fresh_stream prefix e b \<longleftrightarrow> b_exchanges b (prefix @ ''-'' @ e) = None \<and>
     b_exchanges b (stream_queue prefix e @ ''.dlx'') = None \<and> b_queues b (stream_queue prefix e) = None \<and>
     b_queues b (stream_queue prefix e @ ''.dlq'') = None"

lemma declare_fresh_stream:
  assumes "fresh_stream prefix e b" and "e \<in> set ENTITY_TYPES"
  shows "\<exists>b'. declare_stream prefix e (qs, b) = Inr (AList.update e (stream_queue prefix e) qs, b') \<and>
    (\<forall>e' \<in> set ENTITY_TYPES. e' \<noteq> e \<longrightarrow> fresh_stream prefix e' b \<longrightarrow> fresh_stream prefix e' b')"
proof -
  have x: "exchange_name prefix e = Inr (prefix @ ''-'' @ e)"
    "queue_name prefix WIRE_CONSUMER_NAME e = Inr (stream_queue prefix e)"
    "dead_letter_exchange_name prefix WIRE_CONSUMER_NAME e = Inr (stream_queue prefix e @ ''.dlx'')"
    "dead_letter_queue_name prefix WIRE_CONSUMER_NAME e = Inr (stream_queue prefix e @ ''.dlq'')"
    using assms(2) consumer_known
    by (simp_all add: exchange_name_Inr queue_name_Inr dead_letter_Inr stream_queue_def)
  have ne: "prefix @ ''-'' @ e \<noteq> stream_queue prefix e @ ''.dlx''"
    using entity_cases [OF assms(2)] by (auto simp: stream_queue_def WIRE_CONSUMER_NAME_def)
  have other: "e' \<in> set ENTITY_TYPES \<Longrightarrow> e' \<noteq> e \<Longrightarrow>
      prefix @ ''-'' @ e' \<noteq> prefix @ ''-'' @ e \<and> prefix @ ''-'' @ e' \<noteq> stream_queue prefix e @ ''.dlx'' \<and>
      stream_queue prefix e' @ ''.dlx'' \<noteq> prefix @ ''-'' @ e \<and> stream_queue prefix e' @ ''.dlx'' \<noteq> stream_queue prefix e @ ''.dlx'' \<and>
      stream_queue prefix e' \<noteq> stream_queue prefix e \<and> stream_queue prefix e' \<noteq> stream_queue prefix e @ ''.dlq'' \<and>
      stream_queue prefix e' @ ''.dlq'' \<noteq> stream_queue prefix e \<and> stream_queue prefix e' @ ''.dlq'' \<noteq> stream_queue prefix e @ ''.dlq''"
    for e'
    using entity_cases [OF assms(2)] entity_cases [of e']
    by (auto simp: stream_queue_def WIRE_CONSUMER_NAME_def)
  show ?thesis
    using assms(1) ne other
    by (auto simp: fresh_stream_def declare_stream_def declare_stream_queue_def x declare_exchange_def declare_queue_def
      bind_queue_def Let_def)
qed

lemma declare_streams_fresh:
  assumes "distinct es" and "set es \<subseteq> set ENTITY_TYPES" and "\<forall>e \<in> set es. fresh_stream prefix e b"
  shows "\<exists>s. rfold (declare_stream prefix) es (qs, b) = Inr s"
  using assms
proof (induction es arbitrary: qs b)
  case (Cons e es)
  then obtain b' where "declare_stream prefix e (qs, b) = Inr (AList.update e (stream_queue prefix e) qs, b')"
    and "\<forall>e' \<in> set ENTITY_TYPES. e' \<noteq> e \<longrightarrow> fresh_stream prefix e' b \<longrightarrow> fresh_stream prefix e' b'"
    using declare_fresh_stream [of prefix e b qs] by auto
  with Cons show ?case by (simp, metis Cons.IH subsetD)
qed simp

lemma declare_streams_empty: "\<exists>qs b. declare_streams prefix empty_broker = Inr (qs, b)"
proof -
  have "distinct ENTITY_TYPES" by (simp add: ENTITY_TYPES_def)
  moreover have "\<forall>e \<in> set ENTITY_TYPES. fresh_stream prefix e empty_broker"
    by (simp add: fresh_stream_def empty_broker_def)
  ultimately show ?thesis
    using declare_streams_fresh [of ENTITY_TYPES prefix empty_broker "[]"] by (auto simp: declare_streams_def)
qed

text \<open>C30: On a fresh broker the service declares its whole topology: every entity's exchange delivers to exactly its
  own queue, a quorum queue whose rejected messages go to its own dead-letter exchange, which delivers to exactly its
  own dead-letter queue; the returned handles name the queue of each entity.\<close>

theorem declared_streams_route:
  "\<exists>qs b. declare_streams prefix empty_broker = Inr (qs, b) \<and> map fst qs = ENTITY_TYPES \<and>
    (\<forall>e \<in> set ENTITY_TYPES. \<exists>x q dlx dlq args. exchange_name prefix e = Inr x \<and> queue_name prefix WIRE_CONSUMER_NAME e = Inr q \<and>
       dead_letter_exchange_name prefix WIRE_CONSUMER_NAME e = Inr dlx \<and>
       dead_letter_queue_name prefix WIRE_CONSUMER_NAME e = Inr dlq \<and> map_of qs e = Some q \<and>
       routed b x = {q} \<and> routed b dlx = {dlq} \<and> b_queues b q = Some args \<and> x_queue_type args = ''quorum'' \<and>
       x_dead_letter_exchange args = Some dlx \<and> x_delivery_limit args = Some 20)"
proof -
  obtain qs b where run: "declare_streams prefix empty_broker = Inr (qs, b)" using declare_streams_empty by blast
  note facts = declare_streams_Inr [OF run]
  note bind = declare_streams_bindings [OF run]
  have "\<exists>x q dlx dlq args. exchange_name prefix e = Inr x \<and> queue_name prefix WIRE_CONSUMER_NAME e = Inr q \<and>
       dead_letter_exchange_name prefix WIRE_CONSUMER_NAME e = Inr dlx \<and>
       dead_letter_queue_name prefix WIRE_CONSUMER_NAME e = Inr dlq \<and> map_of qs e = Some q \<and>
       routed b x = {q} \<and> routed b dlx = {dlq} \<and> b_queues b q = Some args \<and> x_queue_type args = ''quorum'' \<and>
       x_dead_letter_exchange args = Some dlx \<and> x_delivery_limit args = Some 20" if e: "e \<in> set ENTITY_TYPES" for e
  proof -
    have x: "exchange_name prefix e = Inr (prefix @ ''-'' @ e)"
      "queue_name prefix WIRE_CONSUMER_NAME e = Inr (stream_queue prefix e)"
      "dead_letter_exchange_name prefix WIRE_CONSUMER_NAME e = Inr (stream_queue prefix e @ ''.dlx'')"
      "dead_letter_queue_name prefix WIRE_CONSUMER_NAME e = Inr (stream_queue prefix e @ ''.dlq'')"
      using e consumer_known by (simp_all add: exchange_name_Inr queue_name_Inr dead_letter_Inr stream_queue_def)
    have "map_of qs e = Some (stream_queue prefix e)" using e by (auto simp: facts(1) ENTITY_TYPES_def)
    moreover have "routed b (prefix @ ''-'' @ e) = {stream_queue prefix e}"
      and "routed b (stream_queue prefix e @ ''.dlx'') = {stream_queue prefix e @ ''.dlq''}"
      using entity_cases [OF e]
      by (elim disjE; simp add: routed_def bind empty_broker_def ENTITY_TYPES_def stream_queue_def WIRE_CONSUMER_NAME_def;
        fastforce)+
    moreover have "b_queues b (stream_queue prefix e) = Some \<lparr>x_queue_type = ''quorum'',
        x_dead_letter_exchange = Some (stream_queue prefix e @ ''.dlx''), x_delivery_limit = Some 20\<rparr>"
      using facts(3) [OF e] by (simp add: stream_declared_def Let_def stream_queue_def)
    ultimately show ?thesis using x by force
  qed
  moreover have "map fst qs = ENTITY_TYPES" by (simp add: facts(1) comp_def)
  ultimately show ?thesis using run by blast
qed

lemma declared_streams_route_witness:
  "\<exists>qs b. declare_streams ''mb'' empty_broker = Inr (qs, b) \<and> map fst qs = ENTITY_TYPES \<and>
     map_of qs ''labels'' = Some (stream_queue ''mb'' ''labels'') \<and> routed b ''mb-labels'' = {stream_queue ''mb'' ''labels''}"
proof -
  have e: "''labels'' \<in> set ENTITY_TYPES" by (simp add: ENTITY_TYPES_def)
  have q: "queue_name ''mb'' WIRE_CONSUMER_NAME ''labels'' = Inr (stream_queue ''mb'' ''labels'')"
    and x: "exchange_name ''mb'' ''labels'' = Inr ''mb-labels''"
    using e consumer_known by (simp_all add: queue_name_Inr exchange_name_Inr stream_queue_def)
  note route = declared_streams_route [of "''mb''"]
  then obtain qs b where run: "declare_streams ''mb'' empty_broker = Inr (qs, b)" "map fst qs = ENTITY_TYPES"
    and each: "\<forall>e \<in> set ENTITY_TYPES. \<exists>x q. exchange_name ''mb'' e = Inr x \<and>
      queue_name ''mb'' WIRE_CONSUMER_NAME e = Inr q \<and> map_of qs e = Some q \<and> routed b x = {q}"
    apply (elim exE conjE)
    subgoal premises prems for qs b
      by (rule prems(1) [OF prems(2,3)], rule ballI, drule bspec [OF prems(4)], elim exE conjE, intro exI conjI, assumption+)
    done
  from bspec [OF each e] q x have "map_of qs ''labels'' = Some (stream_queue ''mb'' ''labels'') \<and>
      routed b ''mb-labels'' = {stream_queue ''mb'' ''labels''}"
    by (elim exE conjE) simp
  with run show ?thesis by (elim conjE, intro exI conjI)
qed

text \<open>Declaring the topology is idempotent and additive: it never alters or removes an exchange, queue or binding of
  the broker, and declaring it again (a restart, a recovery) succeeds with the same handles and changes nothing.\<close>

theorem declaring_streams_is_idempotent:
  assumes "declare_streams prefix b = Inr (qs, b')"
  shows "broker_grows b b' \<and> declare_streams prefix b' = Inr (qs, b')"
  using declare_streams_Inr(2) [OF assms] redeclare_streams [OF assms] by blast

lemma declaring_streams_is_idempotent_witness:
  "\<exists>qs b. declare_streams ''mb'' empty_broker = Inr (qs, b) \<and> declare_streams ''mb'' b = Inr (qs, b)"
proof -
  obtain qs b where run: "declare_streams ''mb'' empty_broker = Inr (qs, b)" using declare_streams_empty by blast
  from declaring_streams_is_idempotent [OF run] run show ?thesis by blast
qed

section \<open>Configuration\<close>

text \<open>The health port is the default 8001 when the variable is unset and otherwise the value Python reads from the text,
  accepted exactly from 1 to 65535; every other text, the empty one included, is rejected, so the service never starts
  with an unusable port.\<close>

lemma health_port_in_range:
  "health_port_from_env env = Inr p \<longleftrightarrow>
     (case env ''HEALTH_PORT'' of None \<Rightarrow> p = 8001 | Some raw \<Rightarrow> py_int raw = Some p \<and> 1 \<le> p \<and> p \<le> 65535)"
  by (auto simp: health_port_from_env_def DEFAULT_HEALTH_PORT_def split: option.splits if_splits)

text \<open>C40: Round trip: the decimal text of a valid port is read back as that port.\<close>

theorem health_port_round_trip:
  assumes "1 \<le> n" and "n \<le> 65535"
  shows "health_port_from_env (env(''HEALTH_PORT'' \<mapsto> int_str n)) = Inr n"
proof -
  have "py_int (int_str n) = Some n" using assms by (simp add: int_str_def py_int_nat_digits)
  then show ?thesis using assms by (simp add: health_port_from_env_def)
qed

lemma health_port_round_trip_witness: "health_port_from_env (Map.empty(''HEALTH_PORT'' \<mapsto> int_str 65535)) = Inr 65535"
  using health_port_round_trip [of 65535 Map.empty] by simp

text \<open>C31: A configuration is built only from a complete environment: the Neo4j host, user and password are present and not
  empty, the configuration carries exactly those credentials and the URLs of the runtime, and its health port is from
  1 to 65535.\<close>

theorem configuration_is_complete:
  assumes "from_env get_secret amqp uri env = Inr c"
  shows "(\<exists>h. env ''NEO4J_HOST'' = Some h \<and> h \<noteq> []) \<and>
    get_secret ''NEO4J_USERNAME'' = Some (neo4j_username c) \<and> neo4j_username c \<noteq> [] \<and>
    get_secret ''NEO4J_PASSWORD'' = Some (neo4j_password c) \<and> neo4j_password c \<noteq> [] \<and>
    amqp = Inr (amqp_connection c) \<and> uri = Inr (neo4j_host c) \<and> 1 \<le> health_port c \<and> health_port c \<le> 65535"
  using assms
  by (auto simp: from_env_def missing_vars_def health_port_from_env_def DEFAULT_HEALTH_PORT_def res_simps
    split: if_splits option.splits)

lemma configuration_is_complete_witness:
  "\<exists>c. from_env (\<lambda>_. Some ''s'') (Inr ''amqp'') (Inr ''bolt'') [''NEO4J_HOST'' \<mapsto> ''h''] = Inr c \<and>
     neo4j_username c = ''s'' \<and> health_port c \<le> 65535"
proof -
  have "\<exists>c. from_env (\<lambda>_. Some ''s'') (Inr ''amqp'') (Inr ''bolt'') [''NEO4J_HOST'' \<mapsto> ''h''] = Inr c"
    by (simp add: from_env_def missing_vars_def health_port_from_env_def)
  then obtain c where run: "from_env (\<lambda>_. Some ''s'') (Inr ''amqp'') (Inr ''bolt'') [''NEO4J_HOST'' \<mapsto> ''h''] = Inr c" by blast
  from configuration_is_complete [OF run] run show ?thesis by auto
qed

text \<open>An incomplete environment is reported completely: when the host, user or password is unset or empty the error
  lists every missing name, in order, whatever the other variables hold.\<close>

theorem missing_variables_are_reported:
  assumes "\<not> (\<exists>h u p. env ''NEO4J_HOST'' = Some h \<and> h \<noteq> [] \<and> get_secret ''NEO4J_USERNAME'' = Some u \<and> u \<noteq> [] \<and>
      get_secret ''NEO4J_PASSWORD'' = Some p \<and> p \<noteq> [])"
  shows "\<exists>names. from_env get_secret amqp uri env =
      Inl (ValueError (''Missing required environment variables: '' @ join '', '' names)) \<and>
    (\<forall>n. n \<in> set names \<longleftrightarrow> n = ''NEO4J_HOST'' \<and> (env n = None \<or> env n = Some []) \<or>
       n \<in> {''NEO4J_USERNAME'', ''NEO4J_PASSWORD''} \<and> (get_secret n = None \<or> get_secret n = Some []))"
proof -
  have names: "n \<in> set (missing_vars env get_secret) \<longleftrightarrow> n = ''NEO4J_HOST'' \<and> (env n = None \<or> env n = Some []) \<or>
       n \<in> {''NEO4J_USERNAME'', ''NEO4J_PASSWORD''} \<and> (get_secret n = None \<or> get_secret n = Some [])" for n
    by (cases "n = ''NEO4J_HOST''"; cases "n = ''NEO4J_USERNAME''"; cases "n = ''NEO4J_PASSWORD''")
      (simp_all add: missing_vars_def image_iff)
  have "missing_vars env get_secret \<noteq> []"
    using assms by (cases "env ''NEO4J_HOST''") (auto simp: missing_vars_def)
  then have "from_env get_secret amqp uri env =
      Inl (ValueError (''Missing required environment variables: '' @ join '', '' (missing_vars env get_secret)))"
    unfolding from_env_def Let_def by (simp only: if_True not_False_eq_True)
  with names show ?thesis by blast
qed

lemma missing_variables_are_reported_witness:
  "\<exists>names. from_env (\<lambda>_. None) (Inr ''amqp'') (Inr ''bolt'') Map.empty =
      Inl (ValueError (''Missing required environment variables: '' @ join '', '' names)) \<and> ''NEO4J_HOST'' \<in> set names"
proof -
  have unset: "\<not> (\<exists>h u p. Map.empty ''NEO4J_HOST'' = Some h \<and> h \<noteq> [] \<and> (\<lambda>_. None) ''NEO4J_USERNAME'' = Some u \<and> u \<noteq> [] \<and>
      (\<lambda>_. None) ''NEO4J_PASSWORD'' = Some p \<and> p \<noteq> [])"
    by simp
  from missing_variables_are_reported [of Map.empty "\<lambda>_. None" "Inr ''amqp''" "Inr ''bolt''", OF unset]
  show ?thesis by (elim exE conjE) (intro exI conjI, assumption, simp)
qed

end
