(* ===== verification/StartupProperties.thy ===== *)
theory StartupProperties
  imports Startup ServiceProperties WireProperties
begin

text \<open>
  Properties of the process around the service: with which status it gives up, what holds once it has
  started, how long it waits, and what its teardown releases.
\<close>

section \<open>Startup\<close>

text \<open>The checks before the first connection attempt.\<close>

definition prepared :: "startup_env \<Rightarrow> bool" where
  "prepared U \<longleftrightarrow> (\<exists>n. startup_delay (se_env U) = Inr n) \<and> (\<exists>c. startup_config U = Inr c) \<and> se_neo4j U"

lemma startup_prepared:
  "prepared U \<Longrightarrow> startup U = (case fst (connect_loop (se_signalled U) (se_connects U) 0) of
      AttemptsExhausted \<Rightarrow> Inl (Exited EXIT_STARTUP_FAILED)
    | NoConnection shutdown \<Rightarrow> Inl (Exited (if shutdown then EXIT_OK else EXIT_STARTUP_FAILED))
    | Connected \<Rightarrow> (case open_consumers U (initial_svc\<lparr>graph_driver := True\<rparr>) of Inl e \<Rightarrow> Inl (Crashed e) | Inr x \<Rightarrow> Inr x))"
  by (auto simp: prepared_def startup_def)

lemma startup_unprepared:
  "\<not> prepared U \<Longrightarrow> (\<exists>e. startup U = Inl (Crashed e)) \<and> (\<exists>e. startup_delay (se_env U) = Inl e) \<or>
     startup U = Inl (Exited EXIT_STARTUP_FAILED) \<and> (\<exists>n. startup_delay (se_env U) = Inr n) \<and>
       ((\<exists>e. startup_config U = Inl (ValueError e)) \<or> (\<exists>c. startup_config U = Inr c) \<and> \<not> se_neo4j U) \<or>
     (\<exists>e. startup U = Inl (Crashed e) \<and> startup_config U = Inl e \<and> \<not> is_value_error e)"
  by (cases "startup_delay (se_env U)"; cases "startup_config U")
    (auto simp: prepared_def startup_def elim: is_value_error.elims)

text \<open>Whether the signal or the connection comes first, among the five attempts.\<close>

lemma first_attempt_unique:
  assumes "failed_until sig con 0 i" "sig i \<or> con i" "failed_until sig con 0 j" "sig j \<or> con j" shows "i = j"
  using assms by (cases i j rule: linorder_cases) (auto simp: failed_until_def)

lemma connect_loop_cases:
  fixes sig con
  defines "r \<equiv> fst (connect_loop sig con 0)"
  shows "r = Connected \<longleftrightarrow> (\<exists>i < MAX_STARTUP_RETRIES. failed_until sig con 0 i \<and> \<not> sig i \<and> con i)"
    and "r = AttemptsExhausted \<longleftrightarrow> failed_until sig con 0 MAX_STARTUP_RETRIES"
    and "r = NoConnection True \<longleftrightarrow> (\<exists>i < MAX_STARTUP_RETRIES. failed_until sig con 0 i \<and> sig i)"
    and "r \<noteq> NoConnection False"
proof -
  have out: "loop_outcome sig con 0 r"
    unfolding r_def by (rule connect_loop_outcome) (simp add: MAX_STARTUP_RETRIES_def)
  let ?C = "\<exists>i < MAX_STARTUP_RETRIES. failed_until sig con 0 i \<and> \<not> sig i \<and> con i"
  let ?S = "\<exists>i < MAX_STARTUP_RETRIES. failed_until sig con 0 i \<and> sig i"
  let ?X = "failed_until sig con 0 MAX_STARTUP_RETRIES"
  have "\<not> ?X" if "i < MAX_STARTUP_RETRIES" "sig i \<or> con i" for i
    using that by (auto simp: failed_until_def)
  then have excl: "?C \<longrightarrow> \<not> ?X" "?S \<longrightarrow> \<not> ?X" by blast+
  have excl': "?C \<longrightarrow> \<not> ?S"
  proof (intro impI notI)
    assume ?C ?S
    then obtain i j where i: "failed_until sig con 0 i" "\<not> sig i" "con i" and j: "failed_until sig con 0 j" "sig j" by blast
    with first_attempt_unique [of sig con i j] show False by simp
  qed
  have "(case r of Connected \<Rightarrow> ?C | AttemptsExhausted \<Rightarrow> ?X | NoConnection b \<Rightarrow> b \<and> ?S)"
    using out by (cases r) (simp_all add: loop_outcome_def Bex_def)
  then show "r = Connected \<longleftrightarrow> ?C" "r = AttemptsExhausted \<longleftrightarrow> ?X" "r = NoConnection True \<longleftrightarrow> ?S" "r \<noteq> NoConnection False"
    using excl excl' by (cases r; simp)+
qed

text \<open>C32: The exit status tells why startup gave up. It is 0 exactly when everything before the broker was fine and a signal
  arrived before a connection was made; it is 1 exactly when the configuration is invalid, Neo4j does not answer, or all
  five connection attempts failed without a signal. Nothing else makes the process exit by itself before it consumes.\<close>

theorem startup_exit_status:
  "startup U = Inl (Exited n) \<longleftrightarrow>
     n = 0 \<and> prepared U \<and> (\<exists>i < 5. failed_until (se_signalled U) (se_connects U) 0 i \<and> se_signalled U i) \<or>
     n = 1 \<and> (\<exists>d. startup_delay (se_env U) = Inr d) \<and>
       ((\<exists>e. startup_config U = Inl (ValueError e)) \<or> (\<exists>c. startup_config U = Inr c) \<and> \<not> se_neo4j U \<or>
        prepared U \<and> failed_until (se_signalled U) (se_connects U) 0 5)"
proof (cases "prepared U")
  case True
  note loop = connect_loop_cases [of "se_signalled U" "se_connects U"]
  have facts: "(\<exists>d. startup_delay (se_env U) = Inr d)" "\<not> (\<exists>e. startup_config U = Inl (ValueError e))" "se_neo4j U"
    using True by (auto simp: prepared_def)
  show ?thesis
  proof (cases "fst (connect_loop (se_signalled U) (se_connects U) 0)")
    case Connected
    with loop(2,3) True facts show ?thesis
      unfolding startup_prepared [OF True] Connected by (auto simp: MAX_STARTUP_RETRIES_def split: sum.splits)
  next
    case AttemptsExhausted
    with loop(2,3) True facts show ?thesis
      unfolding startup_prepared [OF True] AttemptsExhausted by (auto simp: MAX_STARTUP_RETRIES_def EXIT_STARTUP_FAILED_def)
  next
    case (NoConnection b)
    with loop(4) have b: b by (cases b) auto
    with loop(2,3) True facts NoConnection show ?thesis
      unfolding startup_prepared [OF True] NoConnection by (auto simp: MAX_STARTUP_RETRIES_def EXIT_OK_def)
  qed
next
  case False
  with startup_unprepared [OF this] show ?thesis by (auto simp: EXIT_STARTUP_FAILED_def)
qed

text \<open>Every step of opening the consumers has to succeed, and nothing else.\<close>

lemma register_all_runs:
  "\<forall>e \<in> set es. \<exists>tag. consume e = Inr tag \<Longrightarrow>
     \<exists>u'. rfold (\<lambda>e u. rbind (consume e) (\<lambda>tag. Inr (register_consumer e tag u))) es u = Inr u'"
  by (induction es arbitrary: u) (auto simp: res_simps)

lemma open_consumers_runs:
  "(\<exists>s b. open_consumers U s0 = Inr (s, b)) \<longleftrightarrow>
     se_channel U = Inr () \<and> (\<exists>qs b. declare_streams (se_prefix U) (se_broker U) = Inr (qs, b)) \<and>
     (\<forall>e \<in> set ENTITY_TYPES. \<exists>tag. se_consume U e = Inr tag)"
proof
  assume "\<exists>s b. open_consumers U s0 = Inr (s, b)"
  then obtain qs b u u' where x: "se_channel U = Inr ()" "declare_streams (se_prefix U) (se_broker U) = Inr (qs, b)"
    and reg: "rfold (\<lambda>e u. rbind (se_consume U e) (\<lambda>tag. Inr (register_consumer e tag u))) ENTITY_TYPES u = Inr u'"
    by (auto simp: open_consumers_def res_simps)
  with register_all [OF reg] show "se_channel U = Inr () \<and> (\<exists>qs b. declare_streams (se_prefix U) (se_broker U) = Inr (qs, b)) \<and>
     (\<forall>e \<in> set ENTITY_TYPES. \<exists>tag. se_consume U e = Inr tag)" by blast
next
  assume x: "se_channel U = Inr () \<and> (\<exists>qs b. declare_streams (se_prefix U) (se_broker U) = Inr (qs, b)) \<and>
     (\<forall>e \<in> set ENTITY_TYPES. \<exists>tag. se_consume U e = Inr tag)"
  then obtain qs b where "se_channel U = Inr ()" "declare_streams (se_prefix U) (se_broker U) = Inr (qs, b)" by blast
  moreover from x have "\<forall>e \<in> set ENTITY_TYPES. \<exists>tag. se_consume U e = Inr tag" by blast
  note register_all_runs [OF this, of "s0\<lparr>active_connection := True, active_channel := True, queues := qs,
      connection_consumer_tags := [], consumer_watch_started_at := se_now U\<rparr>"]
  ultimately show "\<exists>s b. open_consumers U s0 = Inr (s, b)" by (auto simp: open_consumers_def)
qed

lemma startup_Inr:
  "startup U = Inr x \<longleftrightarrow> prepared U \<and> (\<exists>i < MAX_STARTUP_RETRIES. failed_until (se_signalled U) (se_connects U) 0 i \<and>
     \<not> se_signalled U i \<and> se_connects U i) \<and> open_consumers U (initial_svc\<lparr>graph_driver := True\<rparr>) = Inr x"
proof (cases "prepared U")
  case True
  note loop = connect_loop_cases(1) [of "se_signalled U" "se_connects U"]
  show ?thesis
  proof (cases "fst (connect_loop (se_signalled U) (se_connects U) 0) = Connected")
    case con: True
    with loop have "\<exists>i < MAX_STARTUP_RETRIES. failed_until (se_signalled U) (se_connects U) 0 i \<and>
       \<not> se_signalled U i \<and> se_connects U i" by simp
    with True con show ?thesis unfolding startup_prepared [OF True] con by (auto split: sum.splits)
  next
    case False
    with loop have "\<not> (\<exists>i < MAX_STARTUP_RETRIES. failed_until (se_signalled U) (se_connects U) 0 i \<and>
       \<not> se_signalled U i \<and> se_connects U i)" by simp
    with False show ?thesis
      unfolding startup_prepared [OF True] by (cases "fst (connect_loop (se_signalled U) (se_connects U) 0)") auto
  qed
next
  case False
  with startup_unprepared [OF False] show ?thesis by auto
qed

text \<open>C23: The service starts exactly when its preparation succeeds, one of the five attempts connects before any signal, and
  the channel, the declaration of the four streams and the four consume calls succeed. It has then waited at most fifty
  seconds between attempts, is in a start state of its lifecycle, and every data type is subscribed under the tag the
  broker gave it, on the queue declared for it.\<close>

theorem startup_consumes_every_stream:
  "((\<exists>x. startup U = Inr x) \<longleftrightarrow> prepared U \<and>
      (\<exists>i < 5. failed_until (se_signalled U) (se_connects U) 0 i \<and> \<not> se_signalled U i \<and> se_connects U i) \<and>
      se_channel U = Inr () \<and> (\<exists>x. declare_streams (se_prefix U) (se_broker U) = Inr x) \<and>
      (\<forall>e \<in> set ENTITY_TYPES. \<exists>tag. se_consume U e = Inr tag)) \<and>
   (\<forall>s b. startup U = Inr (s, b) \<longrightarrow> svc_start s \<and>
      (\<forall>e \<in> set ENTITY_TYPES. \<exists>tag. se_consume U e = Inr tag \<and> map_of (consumer_tags s) e = Some tag) \<and>
      (\<exists>qs. declare_streams (se_prefix U) (se_broker U) = Inr (qs, b) \<and> queues s = qs)) \<and>
   sum_list (snd (connect_loop (se_signalled U) (se_connects U) 0)) \<le> 50"
proof (intro conjI allI impI)
  show "(\<exists>x. startup U = Inr x) \<longleftrightarrow> prepared U \<and>
      (\<exists>i < 5. failed_until (se_signalled U) (se_connects U) 0 i \<and> \<not> se_signalled U i \<and> se_connects U i) \<and>
      se_channel U = Inr () \<and> (\<exists>x. declare_streams (se_prefix U) (se_broker U) = Inr x) \<and>
      (\<forall>e \<in> set ENTITY_TYPES. \<exists>tag. se_consume U e = Inr tag)"
    using open_consumers_runs [of U "initial_svc\<lparr>graph_driver := True\<rparr>"]
    by (auto simp: startup_Inr MAX_STARTUP_RETRIES_def)
  show "sum_list (snd (connect_loop (se_signalled U) (se_connects U) 0)) \<le> 50"
    using connect_loop_waits [of "se_signalled U" "se_connects U" 0] by (simp add: MAX_STARTUP_RETRIES_def upt_rec)
  fix s b assume "startup U = Inr (s, b)"
  then have "open_consumers U (initial_svc\<lparr>graph_driver := True\<rparr>) = Inr (s, b)" by (simp add: startup_Inr)
  note start = open_consumers_start [OF this]
  from start show "svc_start s" by blast
  from start show "\<exists>qs. declare_streams (se_prefix U) (se_broker U) = Inr (qs, b) \<and> queues s = qs" by blast
  from start show "\<forall>e \<in> set ENTITY_TYPES. \<exists>tag. se_consume U e = Inr tag \<and> map_of (consumer_tags s) e = Some tag" by blast
qed

definition sample_startup :: startup_env where
  "sample_startup = \<lparr>se_env = [''NEO4J_HOST'' \<mapsto> ''neo4j''], se_secret = (\<lambda>_. Some ''secret''), se_amqp_url = Inr ''amqp'',
     se_neo4j_uri = Inr ''bolt'', se_neo4j = True, se_signalled = (\<lambda>_. False), se_connects = (\<lambda>i. 2 \<le> i),
     se_channel = Inr (), se_prefix = ''mb'', se_broker = empty_broker, se_consume = (\<lambda>e. Inr ''tag''), se_now = 100\<rparr>"

lemma sample_startup_prepared: "prepared sample_startup"
  by (simp add: prepared_def sample_startup_def startup_delay_def startup_config_def from_env_def missing_vars_def
    health_port_from_env_def)

lemma startup_exit_status_witness:
  "startup (sample_startup\<lparr>se_signalled := \<lambda>i. 2 \<le> i, se_connects := \<lambda>_. False\<rparr>) = Inl (Exited 0) \<and>
   startup (sample_startup\<lparr>se_connects := \<lambda>_. False\<rparr>) = Inl (Exited 1)"
proof -
  have "prepared (sample_startup\<lparr>se_signalled := \<lambda>i. 2 \<le> i, se_connects := \<lambda>_. False\<rparr>)"
    "prepared (sample_startup\<lparr>se_connects := \<lambda>_. False\<rparr>)"
    using sample_startup_prepared by (simp_all add: prepared_def startup_config_def)
  moreover have "\<exists>i < (5 :: nat). (\<forall>j \<in> {0..<i}. \<not> 2 \<le> j) \<and> 2 \<le> i" by (intro exI [of _ 2]) simp
  ultimately show ?thesis
    unfolding startup_exit_status by (auto simp: failed_until_def sample_startup_def startup_delay_def)
qed

lemma startup_consumes_every_stream_witness:
  "\<exists>s b. startup sample_startup = Inr (s, b) \<and> map_of (consumer_tags s) ''labels'' = Some ''tag''"
proof -
  have "\<exists>i < 5. failed_until (se_signalled sample_startup) (se_connects sample_startup) 0 i \<and>
      \<not> se_signalled sample_startup i \<and> se_connects sample_startup i"
    by (intro exI [of _ 2]) (simp add: failed_until_def sample_startup_def)
  moreover have "\<exists>x. declare_streams (se_prefix sample_startup) (se_broker sample_startup) = Inr x"
    using declare_streams_empty by (auto simp: sample_startup_def)
  ultimately obtain s b where "startup sample_startup = Inr (s, b)"
    using startup_consumes_every_stream [of sample_startup] sample_startup_prepared by (auto simp: sample_startup_def)
  moreover have "''labels'' \<in> set ENTITY_TYPES" by (simp add: ENTITY_TYPES_def)
  ultimately show ?thesis
    using startup_consumes_every_stream [of sample_startup] by (auto simp: sample_startup_def)
qed

section \<open>Teardown\<close>

lemma cancel_all_frame:
  "active_connection (cancel_all_consumers answers s) = active_connection s"
proof -
  have one: "active_connection (timer_cancelled t u) = active_connection u" for t u
    by (simp add: timer_cancelled_def cancel_consumer_def end_task_def Let_def split: phase.split)
  have "active_connection (fold timer_cancelled ts u) = active_connection u" for ts u
    by (induction ts arbitrary: u) (simp_all add: one)
  then have int: "active_connection (interrupt_timers s) = active_connection s" by (simp add: interrupt_timers_def Let_def)
  have cancel: "active_connection (snd (cancel_consumer e tag q answer u)) = active_connection u" for e tag q answer and u :: svc
    by (simp add: cancel_consumer_def)
  have "active_connection (fold (\<lambda>(e, tag) u. snd (cancel_consumer e tag (q e u) (answers e) u)) d u) = active_connection u"
    for d q and u :: svc
    by (induction d arbitrary: u) (simp_all add: cancel split: prod.split)
  then show ?thesis unfolding cancel_all_consumers_def Let_def int [symmetric] .
qed

lemma cancel_all_timers:
  assumes "svc_ok s"
  shows "consumer_cancel_tasks (cancel_all_consumers answers s) = []"
    and "t \<in> set (tasks (cancel_all_consumers answers s)) \<Longrightarrow> t_cancelled t"
proof -
  have "consumer_cancel_tasks (fold (\<lambda>(e, tag) u. snd (cancel_consumer e tag (q e u) (answers e) u)) d u) = consumer_cancel_tasks u \<and>
      tasks (fold (\<lambda>(e, tag) u. snd (cancel_consumer e tag (q e u) (answers e) u)) d u) = tasks u" for d q and u :: svc
    by (induction d arbitrary: u) (auto simp: cancel_consumer_frame)
  then have "consumer_cancel_tasks (cancel_all_consumers answers s) = consumer_cancel_tasks (interrupt_timers s)"
    "tasks (cancel_all_consumers answers s) = tasks (interrupt_timers s)"
    by (simp_all add: cancel_all_consumers_def Let_def)
  with svc_ok_interrupt_timers [OF assms] show "consumer_cancel_tasks (cancel_all_consumers answers s) = []"
    "t \<in> set (tasks (cancel_all_consumers answers s)) \<Longrightarrow> t_cancelled t" by simp_all
qed

lemma close_released:
  assumes "s' = close_rabbitmq_connection channel_ok connection_ok s" and "connection_ok \<and> (channel_ok \<or> active_connection s)"
  shows "\<not> active_connection s' \<and> \<not> active_channel s'"
  unfolding assms(1) using assms(2) by (cases "active_channel s"; cases "active_connection s") (auto simp: close_rabbitmq_connection_def Let_def)

text \<open>C29: Teardown releases everything: from any reachable state it leaves no cancellation timer registered or live, and when
  the connection closes (and the channel, where only that is open) no transport, no subscription and an active-consumer
  gauge of zero; a transport it could not close is kept with a recovery request, the gauge still counting exactly the
  subscriptions that may live on.\<close>

theorem shutdown_releases_everything:
  assumes "reach svc_start (svc_step S) s" and "s' = teardown answers channel_ok connection_ok s"
  shows "consumer_cancel_tasks s' = [] \<and> (\<forall>t \<in> set (tasks s'). t_cancelled t) \<and>
    consumer_gauge s' = int (length (consumer_tags s')) \<and>
    (connection_ok \<and> (channel_ok \<or> active_connection s) \<longrightarrow> \<not> active_connection s' \<and> \<not> active_channel s') \<and>
    (\<not> active_connection s' \<and> \<not> active_channel s' \<longrightarrow> consumer_tags s' = [] \<and> consumer_gauge s' = 0) \<and>
    (active_connection s' \<or> active_channel s' \<longrightarrow> consumer_recovery_requested s')"
proof -
  let ?u = "cancel_all_consumers answers s"
  have s': "s' = close_rabbitmq_connection channel_ok connection_ok ?u" by (simp add: assms(2) teardown_def)
  have ok: "svc_ok s" by (rule service.reachable_inv [OF assms(1)])
  then have "svc_ok s'" unfolding s' by (intro svc_ok_building(4) svc_ok_cancel_all)
  then have tags: "consumer_gauge s' = int (length (consumer_tags s'))"
    "consumer_tags s' \<noteq> [] \<longrightarrow> active_connection s' \<or> active_channel s'" by (simp_all add: svc_ok_def tags_ok_def)
  have "active_connection s' \<or> active_channel s' \<longrightarrow> consumer_recovery_requested s'"
    unfolding s' by (simp add: close_rabbitmq_connection_def Let_def)
  moreover have "connection_ok \<and> (channel_ok \<or> active_connection s) \<longrightarrow> \<not> active_connection s' \<and> \<not> active_channel s'"
    using close_released [OF s'] by (simp add: cancel_all_frame)
  moreover have "consumer_cancel_tasks s' = []" "\<forall>t \<in> set (tasks s'). t_cancelled t"
    using cancel_all_timers [OF ok, where answers = answers] by (simp_all add: s' close_frame)
  ultimately show ?thesis using tags by auto
qed

lemma shutdown_releases_everything_witness:
  "consumer_tags (teardown (\<lambda>_. CancelFailed) False True sample_done) = [] \<and>
     consumer_gauge (teardown (\<lambda>_. CancelFailed) False True sample_done) = 0"
proof -
  have "active_connection sample_done" by (simp add: sample_done_eq sample_svc_eq)
  with shutdown_releases_everything [OF sample_done_reachable refl, of "\<lambda>_. CancelFailed" False True] show ?thesis by blast
qed

end
