(* ===== verification/Telemetry.thy ===== *)
theory Telemetry
  imports Delivery
begin

text \<open>
  Telemetry of the service (\<^verbatim>\<open>brainzgraphinator.py\<close>): the instrument cache that follows the installed
  provider, the measurements of messages, flushes and consumers, and the spans around a delivery. The
  OpenTelemetry library is the record \<open>otel\<close>: what it is asked to create or to record may fail, which
  the service swallows. Times are of an arbitrary type.
\<close>

section \<open>Names\<close>

definition PIPELINE_SOURCE :: string where "PIPELINE_SOURCE = ''musicbrainz''"
definition PIPELINE_STORE :: string where "PIPELINE_STORE = ''neo4j''"
definition PIPELINE_MESSAGES :: string where "PIPELINE_MESSAGES = ''groovemap.pipeline.messages''"
definition PIPELINE_MESSAGE_DURATION :: string where "PIPELINE_MESSAGE_DURATION = ''groovemap.pipeline.message.duration''"
definition PIPELINE_BATCH_SIZE :: string where "PIPELINE_BATCH_SIZE = ''groovemap.pipeline.batch.size''"
definition PIPELINE_BATCH_FLUSH_DURATION :: string where
  "PIPELINE_BATCH_FLUSH_DURATION = ''groovemap.pipeline.batch.flush.duration''"
definition PIPELINE_CONSUMERS_ACTIVE :: string where "PIPELINE_CONSUMERS_ACTIVE = ''groovemap.pipeline.consumers.active''"
definition MESSAGING_CONSUMED_MESSAGES :: string where "MESSAGING_CONSUMED_MESSAGES = ''messaging.client.consumed.messages''"
definition MESSAGING_OPERATION_DURATION :: string where "MESSAGING_OPERATION_DURATION = ''messaging.client.operation.duration''"
definition MESSAGING_SYSTEM :: string where "MESSAGING_SYSTEM = ''rabbitmq''"
definition MAX_FLUSH_LINKS :: nat where "MAX_FLUSH_LINKS = 64"

lemmas telemetry_names = PIPELINE_SOURCE_def PIPELINE_STORE_def PIPELINE_MESSAGES_def PIPELINE_MESSAGE_DURATION_def
  PIPELINE_BATCH_SIZE_def PIPELINE_BATCH_FLUSH_DURATION_def PIPELINE_CONSUMERS_ACTIVE_def MESSAGING_CONSUMED_MESSAGES_def
  MESSAGING_OPERATION_DURATION_def

section \<open>The instrument cache\<close>

datatype instrument_kind = Counter | Histogram | UpDownCounter

record instrument =
  ins_name :: string
  ins_kind :: instrument_kind
  ins_unit :: "string option"
  ins_generation :: int

text \<open>The provider in force: its generation, and whether creating and using instruments and spans works.\<close>

record otel =
  ot_generation :: int
  ot_builds :: bool
  ot_accepts :: "instrument \<Rightarrow> bool"
  ot_starts :: bool
  ot_installed :: bool
  ot_span_works :: bool
  ot_extract :: "string \<Rightarrow> string option"

datatype 'd amount = Items int | Seconds 'd

type_synonym attributes = "(string \<times> string) list"

record 'd point =
  po_instrument :: instrument
  po_amount :: "'d amount"
  po_attributes :: attributes

record 'd telemetry =
  te_generation :: int
  te_instruments :: "(string \<times> instrument) list"
  te_points :: "'d point list"

definition initial_telemetry :: "'d telemetry" where
  "initial_telemetry = \<lparr>te_generation = -1, te_instruments = [], te_points = []\<rparr>"

definition build_instruments :: "int \<Rightarrow> (string \<times> instrument) list" where
  "build_instruments generation =
     map (\<lambda>(name, kind, u). (name, \<lparr>ins_name = name, ins_kind = kind, ins_unit = u, ins_generation = generation\<rparr>))
       [(PIPELINE_MESSAGES, Counter, None), (PIPELINE_MESSAGE_DURATION, Histogram, Some ''s''),
        (PIPELINE_BATCH_SIZE, Histogram, Some ''{items}''), (PIPELINE_BATCH_FLUSH_DURATION, Histogram, Some ''s''),
        (PIPELINE_CONSUMERS_ACTIVE, UpDownCounter, None), (MESSAGING_CONSUMED_MESSAGES, Counter, None),
        (MESSAGING_OPERATION_DURATION, Histogram, Some ''s'')]"

text \<open>\<open>_instrument\<close>; None stands for an exception. A failed rebuild leaves the cache empty.\<close>

definition find_instrument :: "otel \<Rightarrow> string \<Rightarrow> 'd telemetry \<Rightarrow> instrument option \<times> 'd telemetry" where
  "find_instrument ot name t =
     (if te_generation t \<noteq> ot_generation ot \<or> te_instruments t = []
      then if \<not> ot_builds ot then (None, t\<lparr>te_instruments := []\<rparr>)
           else let t1 = t\<lparr>te_instruments := build_instruments (ot_generation ot), te_generation := ot_generation ot\<rparr>
                in (map_of (te_instruments t1) name, t1)
      else (map_of (te_instruments t) name, t))"

definition reset_telemetry_instruments :: "'d telemetry \<Rightarrow> 'd telemetry" where
  "reset_telemetry_instruments t = t\<lparr>te_instruments := [], te_generation := -1\<rparr>"

section \<open>Measurements\<close>

text \<open>The body of one \<open>try\<close> block: the measurements in order, up to the first that raises.\<close>

fun record_points :: "otel \<Rightarrow> (string \<times> 'd amount \<times> attributes) list \<Rightarrow> 'd telemetry \<Rightarrow> 'd telemetry" where
  "record_points ot [] t = t"
| "record_points ot ((name, amount, attrs) # ms) t = (case find_instrument ot name t of
      (None, t1) \<Rightarrow> t1
    | (Some i, t1) \<Rightarrow>
        if \<not> ot_accepts ot i then t1
        else record_points ot ms
          (t1\<lparr>te_points := te_points t1 @ [\<lparr>po_instrument = i, po_amount = amount, po_attributes = attrs\<rparr>]\<rparr>))"

definition record_pipeline_message :: "otel \<Rightarrow> string \<Rightarrow> string \<Rightarrow> 'd telemetry \<Rightarrow> 'd telemetry" where
  "record_pipeline_message ot entity outcome =
     record_points ot [(PIPELINE_MESSAGES, Items 1,
       [(''source'', PIPELINE_SOURCE), (''entity'', entity), (''outcome'', outcome)])]"

definition record_message_duration :: "otel \<Rightarrow> string \<Rightarrow> 'd \<Rightarrow> 'd telemetry \<Rightarrow> 'd telemetry" where
  "record_message_duration ot entity duration =
     record_points ot [(PIPELINE_MESSAGE_DURATION, Seconds duration, [(''source'', PIPELINE_SOURCE), (''entity'', entity)])]"

definition record_batch_flush :: "otel \<Rightarrow> string \<Rightarrow> int \<Rightarrow> 'd \<Rightarrow> string \<Rightarrow> 'd telemetry \<Rightarrow> 'd telemetry" where
  "record_batch_flush ot entity rows duration outcome =
     record_points ot [(PIPELINE_BATCH_SIZE, Items rows, [(''store'', PIPELINE_STORE), (''entity'', entity)]),
       (PIPELINE_BATCH_FLUSH_DURATION, Seconds duration,
          [(''store'', PIPELINE_STORE), (''entity'', entity), (''outcome'', outcome)])]"

definition record_consumer_delta :: "otel \<Rightarrow> int \<Rightarrow> 'd telemetry \<Rightarrow> 'd telemetry" where
  "record_consumer_delta ot delta =
     record_points ot [(PIPELINE_CONSUMERS_ACTIVE, Items delta, [(''source'', PIPELINE_SOURCE)])]"

definition consumed_attributes :: "string \<Rightarrow> string option \<Rightarrow> attributes" where
  "consumed_attributes destination error_type =
     [(''messaging.system'', ''rabbitmq''), (''messaging.destination.name'', destination), (''messaging.operation.name'', ''process'')] @
     (case error_type of None \<Rightarrow> [] | Some e \<Rightarrow> [(''error.type'', e)])"

definition record_consumed_message :: "otel \<Rightarrow> string \<Rightarrow> 'd \<Rightarrow> string option \<Rightarrow> 'd telemetry \<Rightarrow> 'd telemetry" where
  "record_consumed_message ot destination duration error_type =
     record_points ot [(MESSAGING_CONSUMED_MESSAGES, Items 1, consumed_attributes destination error_type),
       (MESSAGING_OPERATION_DURATION, Seconds duration, consumed_attributes destination error_type)]"

section \<open>Spans\<close>

record span =
  sp_name :: string
  sp_kind :: "string option"
  sp_parent :: "string option"
  sp_attributes :: attributes
  sp_failed :: bool

definition span_kind :: "otel \<Rightarrow> string \<Rightarrow> string option" where
  "span_kind ot name = (if ot_installed ot then Some name else None)"

text \<open>\<open>headers\<close> is None where Python's \<open>headers\<close> is falsy.\<close>

definition consume_span :: "otel \<Rightarrow> string \<Rightarrow> string option \<Rightarrow> span option" where
  "consume_span ot destination headers =
     (if \<not> ot_starts ot then None
      else Some \<lparr>sp_name = ''process '' @ destination, sp_kind = span_kind ot ''CONSUMER'',
        sp_parent = (case headers of None \<Rightarrow> None | Some h \<Rightarrow> ot_extract ot h),
        sp_attributes = [(''messaging.system'', MESSAGING_SYSTEM), (''messaging.destination.name'', destination),
          (''messaging.operation.name'', ''process'')],
        sp_failed = False\<rparr>)"

definition mark_span_failed :: "otel \<Rightarrow> span option \<Rightarrow> string \<Rightarrow> span option" where
  "mark_span_failed ot sp error_type = (case sp of
      None \<Rightarrow> None
    | Some x \<Rightarrow> Some (if ot_installed ot \<and> ot_span_works ot
        then x\<lparr>sp_attributes := AList.update ''error.type'' error_type (sp_attributes x), sp_failed := True\<rparr> else x))"

definition set_span_attribute :: "otel \<Rightarrow> span option \<Rightarrow> string \<Rightarrow> string \<Rightarrow> span option" where
  "set_span_attribute ot sp key v = (case sp of
      None \<Rightarrow> None
    | Some x \<Rightarrow> Some (if ot_span_works ot then x\<lparr>sp_attributes := AList.update key v (sp_attributes x)\<rparr> else x))"

text \<open>The contexts of the member spans: a span may be missing, may fail to give its context, or give none.\<close>

datatype 'c member_span = NoSpan | Unreadable | ContextOf "'c option"

fun span_context :: "'c member_span \<Rightarrow> 'c list" where
  "span_context NoSpan = []"
| "span_context Unreadable = []"
| "span_context (ContextOf None) = []"
| "span_context (ContextOf (Some c)) = [c]"

definition flush_links :: "'c member_span list \<Rightarrow> 'c list" where
  "flush_links spans = take MAX_FLUSH_LINKS (concat (map span_context spans))"

section \<open>A settled delivery\<close>

text \<open>The telemetry of \<open>settled\<close>; its counters are \<open>settled_delivery\<close>.\<close>

definition settled_telemetry :: "otel \<Rightarrow> string \<Rightarrow> string \<Rightarrow> delivery_result \<Rightarrow> 'd \<Rightarrow> 'd telemetry \<times> span option \<Rightarrow>
    ('d telemetry \<times> span option) res" where
  "settled_telemetry ot prefix entity result duration x = (case x of (t, sp) \<Rightarrow>
     let t1 = (if dr_outcome result \<noteq> ''control''
               then record_pipeline_message ot entity
                 (if dr_outcome result \<in> {''processed'', ''skipped''} then dr_outcome result else ''failed'') t
               else t);
         t2 = record_message_duration ot entity duration t1
     in rbind (queue_name prefix WIRE_CONSUMER_NAME entity) (\<lambda>destination.
        let t3 = record_consumed_message ot destination duration (dr_error_type result) t2
        in Inr (t3, case dr_error_type result of None \<Rightarrow> sp | Some e \<Rightarrow> mark_span_failed ot sp e)))"

section \<open>Facts\<close>

text \<open>Cached instruments belong to the generation the cache was built for.\<close>

definition cache_ok :: "'d telemetry \<Rightarrow> bool" where
  "cache_ok t \<longleftrightarrow> te_instruments t = [] \<or> te_instruments t = build_instruments (te_generation t)"

lemma cache_ok_initial: "cache_ok initial_telemetry" and cache_ok_reset: "cache_ok (reset_telemetry_instruments t)"
  by (simp_all add: cache_ok_def initial_telemetry_def reset_telemetry_instruments_def)

lemma build_lookup: "map_of (build_instruments g) name = Some i \<Longrightarrow> ins_generation i = g \<and> ins_name i = name"
  by (auto simp: build_instruments_def split: if_splits)

lemma find_instrument_ok:
  assumes "find_instrument ot name t = (r, t')" and "cache_ok t"
  shows "cache_ok t' \<and> te_points t' = te_points t \<and> (\<forall>i. r = Some i \<longrightarrow> ins_generation i = ot_generation ot \<and> ins_name i = name)"
  using assms by (auto simp: find_instrument_def cache_ok_def Let_def dest: build_lookup split: if_splits)

lemma record_points_ok:
  "cache_ok t \<Longrightarrow> cache_ok (record_points ot ms t) \<and>
     (\<exists>ps. te_points (record_points ot ms t) = te_points t @ ps \<and> length ps \<le> length ms \<and>
        (\<forall>(p, m) \<in> set (zip ps ms). ins_name (po_instrument p) = fst m \<and> ins_generation (po_instrument p) = ot_generation ot \<and>
           po_amount p = fst (snd m) \<and> po_attributes p = snd (snd m)))"
proof (induction ms arbitrary: t)
  case Nil
  then show ?case by simp
next
  case (Cons m ms)
  obtain name amount attrs where m: "m = (name, amount, attrs)" by (cases m)
  obtain r t1 where find: "find_instrument ot name t = (r, t1)" by fastforce
  note ok = find_instrument_ok [OF find Cons.prems]
  show ?case
  proof (cases "\<exists>i. r = Some i \<and> ot_accepts ot i")
    case False
    then have "record_points ot (m # ms) t = t1" by (auto simp: m find split: option.splits)
    with ok show ?thesis by simp
  next
    case True
    then obtain i where i: "r = Some i" "ot_accepts ot i" by blast
    let ?p = "\<lparr>po_instrument = i, po_amount = amount, po_attributes = attrs\<rparr>"
    let ?t = "t1\<lparr>te_points := te_points t1 @ [?p]\<rparr>"
    have run: "record_points ot (m # ms) t = record_points ot ms ?t" using i by (simp add: m find)
    have "cache_ok ?t" using ok by (simp add: cache_ok_def)
    from Cons.IH [OF this] obtain ps where ps: "cache_ok (record_points ot ms ?t)"
      "te_points (record_points ot ms ?t) = te_points ?t @ ps" "length ps \<le> length ms"
      "\<forall>(p, m) \<in> set (zip ps ms). ins_name (po_instrument p) = fst m \<and> ins_generation (po_instrument p) = ot_generation ot \<and>
           po_amount p = fst (snd m) \<and> po_attributes p = snd (snd m)" by blast
    show ?thesis
      unfolding run using ps ok i by (intro conjI exI [of _ "?p # ps"]) (simp_all add: m)
  qed
qed

text \<open>A provider that works records every measurement.\<close>

definition working :: "otel \<Rightarrow> bool" where
  "working ot \<longleftrightarrow> ot_builds ot \<and> (\<forall>i. ot_accepts ot i)"

definition known_instrument :: "string \<Rightarrow> bool" where
  "known_instrument name \<longleftrightarrow> map_of (build_instruments 0) name \<noteq> None"

lemma build_known: "known_instrument name \<Longrightarrow> \<exists>i. map_of (build_instruments g) name = Some i"
  unfolding known_instrument_def build_instruments_def by (simp only: list.map prod.case map_of.simps) (auto split: if_splits)

lemma find_working:
  "working ot \<Longrightarrow> cache_ok t \<Longrightarrow> known_instrument name \<Longrightarrow> \<exists>i t'. find_instrument ot name t = (Some i, t')"
  using build_known [of name "ot_generation ot"]
  by (auto simp: find_instrument_def working_def cache_ok_def Let_def)

lemma record_points_working:
  "working ot \<Longrightarrow> cache_ok t \<Longrightarrow> (\<forall>m \<in> set ms. known_instrument (fst m)) \<Longrightarrow>
     length (te_points (record_points ot ms t)) = length (te_points t) + length ms"
proof (induction ms arbitrary: t)
  case (Cons m ms)
  obtain name amount attrs where m: "m = (name, amount, attrs)" by (cases m)
  with Cons.prems find_working obtain i t1 where find: "find_instrument ot name t = (Some i, t1)" by fastforce
  note ok = find_instrument_ok [OF find Cons.prems(2)]
  let ?t = "t1\<lparr>te_points := te_points t1 @ [\<lparr>po_instrument = i, po_amount = amount, po_attributes = attrs\<rparr>]\<rparr>"
  have "cache_ok ?t" using ok by (simp add: cache_ok_def)
  with Cons.IH [of ?t] Cons.prems ok show ?case by (simp add: m find working_def)
qed simp

lemma flush_links_capped: "length (flush_links spans) \<le> 64"
  by (simp add: flush_links_def MAX_FLUSH_LINKS_def)

text \<open>A full batch of a hundred delivered messages reaches the cap.\<close>

lemma full_batch_links: "length (flush_links (map (\<lambda>i. ContextOf (Some i)) [0..<100])) = 64"
proof -
  have "concat (map span_context (map (\<lambda>i. ContextOf (Some i)) xs)) = xs" for xs :: "nat list"
    by (induction xs) auto
  from this [of "[0..<100]"] show ?thesis unfolding flush_links_def by (simp only:) (simp add: MAX_FLUSH_LINKS_def)
qed

text \<open>
  What settling a delivery reports: whatever the provider does, the measurements go to instruments of the
  provider in force, and a provider that works gets all of them, three for a control message and four
  for any other. The span is touched for a failure only.
\<close>

lemma record_points_step:
  assumes "cache_ok t" and "t' = record_points ot ms t"
  obtains ps where "cache_ok t'" "te_points t' = te_points t @ ps" "\<forall>p \<in> set ps. ins_generation (po_instrument p) = ot_generation ot"
    "working ot \<Longrightarrow> \<forall>m \<in> set ms. known_instrument (fst m) \<Longrightarrow> length ps = length ms"
proof -
  from record_points_ok [OF assms(1), of ot ms] obtain ps where ps: "cache_ok t'" "te_points t' = te_points t @ ps" "length ps \<le> length ms"
    "\<forall>(p, m) \<in> set (zip ps ms). ins_name (po_instrument p) = fst m \<and> ins_generation (po_instrument p) = ot_generation ot \<and>
           po_amount p = fst (snd m) \<and> po_attributes p = snd (snd m)" unfolding assms(2) by blast
  have "ins_generation (po_instrument p) = ot_generation ot" if "p \<in> set ps" for p
  proof -
    from that obtain i where i: "i < length ps" "p = ps ! i" by (auto simp: in_set_conv_nth)
    with ps(3) have "(p, ms ! i) \<in> set (zip ps ms)" by (auto simp: in_set_zip)
    with ps(4) show ?thesis by auto
  qed
  moreover have "length ps = length ms" if "working ot" "\<forall>m \<in> set ms. known_instrument (fst m)"
    using record_points_working [OF that(1) assms(1) that(2)] ps(2) by (simp add: assms(2))
  ultimately show ?thesis using that ps(1,2) by blast
qed

lemma known_instruments:
  "known_instrument PIPELINE_MESSAGES" "known_instrument PIPELINE_MESSAGE_DURATION" "known_instrument PIPELINE_BATCH_SIZE"
  "known_instrument PIPELINE_BATCH_FLUSH_DURATION" "known_instrument PIPELINE_CONSUMERS_ACTIVE"
  "known_instrument MESSAGING_CONSUMED_MESSAGES" "known_instrument MESSAGING_OPERATION_DURATION"
  by (simp_all add: known_instrument_def build_instruments_def)

theorem settled_deliveries_are_reported:
  assumes "cache_ok t" and "entity \<in> set ENTITY_TYPES"
  shows "\<exists>t' sp' ps. settled_telemetry ot prefix entity result duration (t, sp) = Inr (t', sp') \<and> cache_ok t' \<and>
    te_points t' = te_points t @ ps \<and> (\<forall>p \<in> set ps. ins_generation (po_instrument p) = ot_generation ot) \<and>
    (working ot \<longrightarrow> length ps = (if dr_outcome result = ''control'' then 3 else 4)) \<and>
    (dr_error_type result = None \<longrightarrow> sp' = sp)"
proof -
  define t1 where "t1 = (if dr_outcome result \<noteq> ''control''
      then record_pipeline_message ot entity (if dr_outcome result \<in> {''processed'', ''skipped''} then dr_outcome result else ''failed'') t else t)"
  have q: "queue_name prefix WIRE_CONSUMER_NAME entity = Inr (prefix @ ''-'' @ WIRE_CONSUMER_NAME @ ''-'' @ entity)"
    using assms(2) consumer_known by (simp add: queue_name_Inr)
  let ?dest = "prefix @ ''-'' @ WIRE_CONSUMER_NAME @ ''-'' @ entity"
  obtain p1 where p1: "cache_ok t1" "te_points t1 = te_points t @ p1" "\<forall>p \<in> set p1. ins_generation (po_instrument p) = ot_generation ot"
    "working ot \<Longrightarrow> length p1 = (if dr_outcome result = ''control'' then 0 else 1)"
  proof (cases "dr_outcome result = ''control''")
    case True
    then show ?thesis using assms(1) by (intro that [of "[]"]) (simp_all add: t1_def)
  next
    case False
    then have "t1 = record_points ot [(PIPELINE_MESSAGES, Items 1, [(''source'', PIPELINE_SOURCE), (''entity'', entity),
        (''outcome'', if dr_outcome result \<in> {''processed'', ''skipped''} then dr_outcome result else ''failed'')])] t"
      by (simp add: t1_def record_pipeline_message_def)
    from record_points_step [OF assms(1) this] obtain ps where "cache_ok t1" "te_points t1 = te_points t @ ps"
      "\<forall>p \<in> set ps. ins_generation (po_instrument p) = ot_generation ot" "working ot \<Longrightarrow> length ps = 1"
      using known_instruments(1) by (metis (no_types, lifting) One_nat_def empty_iff fst_conv length_Cons list.set(1) list.size(3) set_ConsD)
    with False show ?thesis by (intro that [of ps]) simp_all
  qed
  define t2 where "t2 = record_message_duration ot entity duration t1"
  from record_points_step [OF p1(1) t2_def [unfolded record_message_duration_def]] known_instruments(2) obtain p2 where
    p2: "cache_ok t2" "te_points t2 = te_points t1 @ p2" "\<forall>p \<in> set p2. ins_generation (po_instrument p) = ot_generation ot"
    "working ot \<Longrightarrow> length p2 = 1" by auto
  define t3 where "t3 = record_consumed_message ot ?dest duration (dr_error_type result) t2"
  from record_points_step [OF p2(1) t3_def [unfolded record_consumed_message_def]] known_instruments(6,7) obtain p3 where
    p3: "cache_ok t3" "te_points t3 = te_points t2 @ p3" "\<forall>p \<in> set p3. ins_generation (po_instrument p) = ot_generation ot"
    "working ot \<Longrightarrow> length p3 = Suc (Suc 0)" by auto
  define sp' where "sp' = (case dr_error_type result of None \<Rightarrow> sp | Some e \<Rightarrow> mark_span_failed ot sp e)"
  have run: "settled_telemetry ot prefix entity result duration (t, sp) = Inr (t3, sp')"
    unfolding settled_telemetry_def t3_def t2_def t1_def sp'_def by (simp add: q Let_def)
  show ?thesis
    using run p1 p2 p3 by (intro exI [of _ t3] exI [of _ sp'] exI [of _ "p1 @ p2 @ p3"]) (auto simp: sp'_def)
qed

end
