(* ===== verification/Text.thy ===== *)
theory Text
  imports Json
begin

text \<open>
  The text operations of the scripts on the UTF-8 encoding: blank text, \<open>strip\<close>, \<open>splitlines\<close>,
  \<open>partition\<close> and \<open>in\<close>. White space and line breaks of Python are one to three bytes long.
\<close>

section \<open>Blank text\<close>

text \<open>\<open>not s.strip()\<close>: every character is white space, on the UTF-8 encoding.\<close>

definition ascii_space :: "nat \<Rightarrow> bool" where
  "ascii_space n \<longleftrightarrow> n = 32 \<or> (9 \<le> n \<and> n \<le> 13) \<or> (28 \<le> n \<and> n \<le> 31)"

definition space2 :: "nat \<Rightarrow> nat \<Rightarrow> bool" where
  "space2 a b \<longleftrightarrow> a = 0xC2 \<and> (b = 0x85 \<or> b = 0xA0)"

definition space3 :: "nat \<Rightarrow> nat \<Rightarrow> nat \<Rightarrow> bool" where
  "space3 a b c \<longleftrightarrow> (a, b, c) = (0xE1, 0x9A, 0x80) \<or> (a, b, c) = (0xE2, 0x81, 0x9F) \<or> (a, b, c) = (0xE3, 0x80, 0x80) \<or>
     (a, b) = (0xE2, 0x80) \<and> ((0x80 \<le> c \<and> c \<le> 0x8A) \<or> c = 0xA8 \<or> c = 0xA9 \<or> c = 0xAF)"

fun blank_bytes :: "nat list \<Rightarrow> bool" where
  "blank_bytes [] = True"
| "blank_bytes [a] = ascii_space a"
| "blank_bytes [a, b] = (if ascii_space a then blank_bytes [b] else space2 a b)"
| "blank_bytes (a # b # c # ns) =
     (if ascii_space a then blank_bytes (b # c # ns)
      else if space2 a b then blank_bytes (c # ns)
      else space3 a b c \<and> blank_bytes ns)"

definition blank :: "string \<Rightarrow> bool" where
  "blank s = blank_bytes (map of_char s)"

section \<open>\<open>strip\<close>\<close>

text \<open>The length of the white space character a text starts with (ends with, on the reversed text), or 0.\<close>

fun space_width :: "string \<Rightarrow> nat" where
  "space_width [] = 0"
| "space_width [a] = (if ascii_space (of_char a) then 1 else 0)"
| "space_width [a, b] = (if ascii_space (of_char a) then 1 else if space2 (of_char a) (of_char b) then 2 else 0)"
| "space_width (a # b # c # s) =
     (if ascii_space (of_char a) then 1
      else if space2 (of_char a) (of_char b) then 2
      else if space3 (of_char a) (of_char b) (of_char c) then 3 else 0)"

fun space_width_rev :: "string \<Rightarrow> nat" where
  "space_width_rev [] = 0"
| "space_width_rev [a] = (if ascii_space (of_char a) then 1 else 0)"
| "space_width_rev [b, a] = (if ascii_space (of_char b) then 1 else if space2 (of_char a) (of_char b) then 2 else 0)"
| "space_width_rev (c # b # a # s) =
     (if ascii_space (of_char c) then 1
      else if space2 (of_char b) (of_char c) then 2
      else if space3 (of_char a) (of_char b) (of_char c) then 3 else 0)"

function drop_spaces :: "(string \<Rightarrow> nat) \<Rightarrow> string \<Rightarrow> string" where
  "drop_spaces w s = (if s = [] \<or> w s = 0 then s else drop_spaces w (drop (w s) s))"
  by pat_completeness auto

termination
  by (relation "measure (\<lambda>(w, s). length s)") auto

declare drop_spaces.simps [simp del]

lemma drop_spaces_Nil [simp]: "drop_spaces w [] = []"
  by (simp add: drop_spaces.simps [of w "[]"])

definition py_strip :: "string \<Rightarrow> string" where
  "py_strip s = rev (drop_spaces space_width_rev (rev (drop_spaces space_width s)))"

section \<open>\<open>splitlines\<close> and \<open>partition\<close>\<close>

text \<open>The length of the line break a text starts with, or 0.\<close>

fun line_break :: "nat list \<Rightarrow> nat" where
  "line_break [] = 0"
| "line_break (a # ns) =
     (if a = 13 \<and> take 1 ns = [10] then 2
      else if a = 13 \<or> (10 \<le> a \<and> a \<le> 12) \<or> (28 \<le> a \<and> a \<le> 30) then 1
      else if a = 0xC2 \<and> take 1 ns = [0x85] then 2
      else if a = 0xE2 \<and> (take 2 ns = [0x80, 0xA8] \<or> take 2 ns = [0x80, 0xA9]) then 3 else 0)"

fun first_line :: "string \<Rightarrow> string \<times> string" where
  "first_line [] = ([], [])"
| "first_line (c # s) =
     (let w = line_break (map of_char (c # s)) in
      if 0 < w then ([], drop w (c # s)) else (let (line, rest) = first_line s in (c # line, rest)))"

lemma first_line_shorter: "length (snd (first_line s)) \<le> length s" "s \<noteq> [] \<Longrightarrow> length (snd (first_line s)) < length s"
proof (induction s)
  case (Cons c s)
  {
    case 1
    show ?case using Cons(1) by (auto simp: Let_def case_prod_beta simp del: line_break.simps)
  next
    case 2
    show ?case using Cons(1) by (auto simp: Let_def case_prod_beta simp del: line_break.simps)
  }
qed simp_all

function splitlines :: "string \<Rightarrow> string list" where
  "splitlines s = (if s = [] then [] else fst (first_line s) # splitlines (snd (first_line s)))"
  by pat_completeness auto

termination
  by (relation "measure length") (auto intro: first_line_shorter)

declare splitlines.simps [simp del]

text \<open>\<open>text.partition(sep)\<close> without the separator: the parts before and after its first occurrence.\<close>

definition partition_at :: "char \<Rightarrow> string \<Rightarrow> string \<times> string" where
  "partition_at c s = (takeWhile (\<lambda>x. x \<noteq> c) s, tl (dropWhile (\<lambda>x. x \<noteq> c) s))"

section \<open>\<open>in\<close>\<close>

fun contains :: "string \<Rightarrow> string \<Rightarrow> bool" where
  "contains m [] \<longleftrightarrow> m = []"
| "contains m (c # s) \<longleftrightarrow> take (length m) (c # s) = m \<or> contains m s"

lemma contains_iff: "contains m s \<longleftrightarrow> (\<exists>u v. s = u @ m @ v)"
proof (induction s)
  case (Cons c s)
  have "take (length m) (c # s) = m \<longleftrightarrow> (\<exists>v. c # s = m @ v)"
    by (metis append_eq_conv_conj)
  moreover have "(\<exists>u v. c # s = u @ m @ v) \<longleftrightarrow> (\<exists>v. c # s = m @ v) \<or> (\<exists>u v. s = u @ m @ v)"
    by (metis append_Cons append_Nil list.exhaust list.inject)
  ultimately show ?case using Cons.IH by simp
qed simp

text \<open>A text that avoids a character is found on one side of it.\<close>

lemma contains_separated:
  assumes "c \<notin> set m" shows "contains m (s @ c # t) \<longleftrightarrow> contains m s \<or> contains m t"
proof
  assume "contains m (s @ c # t)"
  then obtain u v where eq: "s @ c # t = u @ m @ v" by (auto simp: contains_iff)
  from eq [folded append.assoc] consider (left) w where "s = (u @ m) @ w" | (over) w where "s @ w = u @ m" "c # t = w @ v"
    unfolding append_eq_append_conv2 by metis
  then show "contains m s \<or> contains m t"
  proof cases
    case left
    then show ?thesis unfolding contains_iff by (metis append.assoc)
  next
    case over
    show ?thesis
    proof (cases w)
      case Nil
      with over(1) show ?thesis unfolding contains_iff by (metis append.right_neutral)
    next
      case (Cons x w')
      with over have t: "t = w' @ v" and sw: "s @ c # w' = u @ m" by auto
      from sw consider (inside) y where "y @ c # w' = m" | (right) y where "c # w' = y @ m"
        unfolding append_eq_append_conv2 by metis
      then show ?thesis
      proof cases
        case inside
        then show ?thesis using assms(1) by auto
      next
        case right
        with assms(1) obtain z where "w' = z @ m" by (cases y) auto
        with t have "t = z @ m @ v" by simp
        then show ?thesis unfolding contains_iff by blast
      qed
    qed
  qed
qed (metis contains_iff append.assoc append_Cons)

section \<open>Facts\<close>

lemma space_width_append: "space_width s \<noteq> 0 \<Longrightarrow> space_width (s @ t) \<noteq> 0"
  by (cases s rule: space_width.cases; cases t rule: space_width.cases) (auto split: if_splits)

lemma space_width_bound: "space_width s \<le> length s"
  by (cases s rule: space_width.cases) auto

lemma blank_width: "s \<noteq> [] \<Longrightarrow> blank s \<longleftrightarrow> space_width s \<noteq> 0 \<and> blank (drop (space_width s) s)"
  by (cases s rule: space_width.cases) (auto simp: blank_def)

lemma drop_spaces_blank: "drop_spaces space_width s = [] \<longleftrightarrow> blank s"
proof (induction "space_width" s rule: drop_spaces.induct)
  case (1 s)
  show ?case
  proof (cases "s = [] \<or> space_width s = 0")
    case True
    then show ?thesis using blank_width [of s]
      by (cases "s = []") (auto simp: drop_spaces.simps [of _ s] blank_def)
  next
    case False
    then show ?thesis using 1 blank_width [of s] by (simp add: drop_spaces.simps [of _ s])
  qed
qed

lemma drop_spaces_starts: "drop_spaces w s = [] \<or> w (drop_spaces w s) = 0"
proof (induction w s rule: drop_spaces.induct)
  case (1 w s)
  then show ?case by (cases "s = [] \<or> w s = 0") (auto simp: drop_spaces.simps [of w s])
qed

lemma space_width_whole:
  "space_width_rev r \<noteq> 0 \<Longrightarrow> drop (space_width_rev r) r = [] \<Longrightarrow> space_width (rev r) \<noteq> 0"
  by (cases r rule: space_width_rev.cases) (auto split: if_splits)

lemma drop_spaces_rev_starts:
  "drop_spaces space_width_rev r = [] \<Longrightarrow> r \<noteq> [] \<Longrightarrow> space_width (rev r) \<noteq> 0"
proof (induction "space_width_rev" r rule: drop_spaces.induct)
  case (1 r)
  let ?n = "space_width_rev r"
  have n: "?n \<noteq> 0" and rest: "drop_spaces space_width_rev (drop ?n r) = []"
    using "1.prems" by (auto simp: drop_spaces.simps [of _ r] split: if_splits)
  show ?case
  proof (cases "drop ?n r = []")
    case True
    with n show ?thesis by (rule space_width_whole)
  next
    case False
    have "rev r = rev (drop ?n r) @ rev (take ?n r)" by (metis append_take_drop_id rev_append)
    moreover have "space_width (rev (drop ?n r)) \<noteq> 0" using "1.hyps" "1.prems" n rest False by blast
    ultimately show ?thesis using space_width_append by metis
  qed
qed

text \<open>\<open>not s.strip()\<close> is blank text.\<close>

lemma py_strip_blank: "py_strip s = [] \<longleftrightarrow> blank s"
proof -
  let ?t = "drop_spaces space_width s"
  have "drop_spaces space_width_rev (rev ?t) = [] \<longleftrightarrow> ?t = []"
    using drop_spaces_rev_starts [of "rev ?t"] drop_spaces_starts [of space_width s] by (cases "?t = []") auto
  then show ?thesis by (simp add: py_strip_def drop_spaces_blank)
qed

end
