(* ===== verification/Taxonomy.thy ===== *)
theory Taxonomy
  imports Text "HOL-Library.Product_Lexorder"
begin

text \<open>
  The taxonomy export of \<^verbatim>\<open>spike_taxonomy_export.py\<close>: the validation of one genre/style row and the
  comparison of the observed pairs with the PART_OF pairs. Rows are JSON values; the theory
  \<open>Commands\<close> reads them from the lines of the files. A Python tuple of two strings is a pair.
\<close>

section \<open>One row\<close>

definition RESERVED :: "string list" where
  "RESERVED = [''__NONE__'', ''__GENRE_ONLY__'']"

definition PROVENANCE_FIELDS :: "string list" where
  "PROVENANCE_FIELDS = [''source'', ''snapshot_id'', ''exported_at'']"

type_synonym name_pair = "string \<times> string"

fun valid_name :: "json \<Rightarrow> string option" where
  "valid_name (JStr s) = (if blank s \<or> s \<in> set RESERVED then None else Some s)"
| "valid_name _ = None"

definition pair_field :: "obj \<Rightarrow> string \<Rightarrow> string \<Rightarrow> string res" where
  "pair_field d loc field = (case valid_name (dget d field) of
      None \<Rightarrow> Inl (ValueError (loc @ '': '' @ field @ '' must be a nonempty, non-reserved string''))
    | Some s \<Rightarrow> Inr s)"

fun pair_of :: "json \<Rightarrow> string \<Rightarrow> name_pair res" where
  "pair_of (JObj d) loc =
     rbind (pair_field d loc ''genre'') (\<lambda>g. rbind (pair_field d loc ''style'') (\<lambda>s. Inr (g, s)))"
| "pair_of _ loc = Inl (ValueError (loc @ '': row must be an object''))"

text \<open>\<open>str\<close> of a pair of strings.\<close>

definition pair_repr :: "name_pair \<Rightarrow> string" where
  "pair_repr k = ''('' @ repr_str (fst k) @ '', '' @ repr_str (snd k) @ '')''"

section \<open>The two inputs\<close>

fun positive_count :: "json \<Rightarrow> int option" where
  "positive_count (JInt n) = (if n < 1 then None else Some n)"
| "positive_count _ = None"

text \<open>\<open>row.get("count")\<close>; the row is known to be an object by then.\<close>

fun row_count :: "json \<Rightarrow> int option" where
  "row_count (JObj d) = positive_count (dget d ''count'')"
| "row_count _ = None"

definition observed_loc :: "nat \<Rightarrow> string" where
  "observed_loc i = ''observed row '' @ int_str (int i)"

definition part_of_loc :: "nat \<Rightarrow> string" where
  "part_of_loc i = ''part_of row '' @ int_str (int i)"

definition observe :: "nat \<times> json \<Rightarrow> (name_pair \<times> int) list \<Rightarrow> (name_pair \<times> int) list res" where
  "observe x observed = (case x of (i, row) \<Rightarrow>
     rbind (pair_of row (observed_loc i)) (\<lambda>key.
       case row_count row of
         None \<Rightarrow> Inl (ValueError (observed_loc i @ '': count must be a positive integer''))
       | Some n \<Rightarrow>
           if key \<in> set (map fst observed) then Inl (ValueError (observed_loc i @ '': duplicate pair '' @ pair_repr key))
           else Inr (AList.update key n observed)))"

text \<open>The set of PART_OF pairs, as the list of its members in the order they were added.\<close>

definition add_part_of :: "nat \<times> json \<Rightarrow> name_pair list \<Rightarrow> name_pair list res" where
  "add_part_of x part_of = (case x of (i, row) \<Rightarrow>
     rbind (pair_of row (part_of_loc i)) (\<lambda>key.
       if key \<in> set part_of then Inl (ValueError (part_of_loc i @ '': duplicate pair '' @ pair_repr key))
       else Inr (part_of @ [key])))"

section \<open>The report\<close>

record taxonomy_export =
  ex_provenance :: json
  ex_synthetic :: bool
  ex_observed_pairs :: "(name_pair \<times> int) list"
  ex_part_of_pairs :: "name_pair list"
  ex_observed_count :: nat
  ex_part_of_count :: nat
  ex_in_both :: nat
  ex_missing_from_part_of :: "(name_pair \<times> int) list"
  ex_part_of_not_observed :: "name_pair list"
  ex_shared_styles :: "(string \<times> string list) list"

definition provenance_ok :: "json \<Rightarrow> bool" where
  "provenance_ok p = (case p of JObj d \<Rightarrow> (\<forall>f \<in> set PROVENANCE_FIELDS. truthy (dget d f)) | _ \<Rightarrow> False)"

text \<open>The genres under which each style was observed, styles and genres in order of appearance.\<close>

definition style_parents :: "(name_pair \<times> int) list \<Rightarrow> (string \<times> string list) list" where
  "style_parents observed =
     fold (\<lambda>(genre, style) d. AList.update style ((case map_of d style of None \<Rightarrow> [] | Some gs \<Rightarrow> gs) @ [genre]) d)
       (map fst observed) []"

definition shared_styles :: "(name_pair \<times> int) list \<Rightarrow> (string \<times> string list) list" where
  "shared_styles observed =
     map (\<lambda>(style, genres). (style, sort genres)) (filter (\<lambda>(style, genres). 1 < length genres) (sort (style_parents observed)))"

definition build_taxonomy :: "json \<Rightarrow> json list \<Rightarrow> json list \<Rightarrow> taxonomy_export res" where
  "build_taxonomy provenance observed_rows part_of_rows =
     (if \<not> provenance_ok provenance
      then Inl (ValueError (''provenance requires '' @ join '', '' PROVENANCE_FIELDS))
      else rbind (rfold observe (enumerate 0 observed_rows) []) (\<lambda>observed.
           rbind (rfold add_part_of (enumerate 0 part_of_rows) []) (\<lambda>part_of.
           Inr \<lparr>ex_provenance = provenance,
                ex_synthetic = (case provenance of JObj d \<Rightarrow> truthy (dget d ''synthetic'') | _ \<Rightarrow> False),
                ex_observed_pairs = sort observed,
                ex_part_of_pairs = sort part_of,
                ex_observed_count = length observed,
                ex_part_of_count = length part_of,
                ex_in_both = length (filter (\<lambda>k. k \<in> set part_of) (map fst observed)),
                ex_missing_from_part_of =
                  map (\<lambda>k. (k, the (map_of observed k))) (sort (filter (\<lambda>k. k \<notin> set part_of) (map fst observed))),
                ex_part_of_not_observed = sort (filter (\<lambda>k. k \<notin> set (map fst observed)) part_of),
                ex_shared_styles = shared_styles observed\<rparr>)))"

section \<open>What the rows say\<close>

text \<open>The pair and the count of an observed row, when it is well formed.\<close>

fun row_pair :: "json \<Rightarrow> name_pair option" where
  "row_pair (JObj d) = (case (valid_name (dget d ''genre''), valid_name (dget d ''style'')) of
      (Some g, Some s) \<Rightarrow> Some (g, s) | _ \<Rightarrow> None)"
| "row_pair _ = None"

lemma pair_of_row: "pair_of row w = Inr k \<longleftrightarrow> row_pair row = Some k"
  by (cases row) (auto simp: pair_field_def split: option.splits)

lemma pair_of_error: "pair_of row w = Inl e \<Longrightarrow> row_pair row = None \<and> (\<exists>t. e = ValueError t)"
  by (cases row) (auto simp: pair_field_def split: option.splits)

lemma observe_Inr: "observe (i, row) obs = Inr obs' \<longleftrightarrow>
    (\<exists>k n. row_pair row = Some k \<and> row_count row = Some n \<and> k \<notin> fst ` set obs \<and> obs' = obs @ [(k, n)])"
proof (cases "pair_of row (observed_loc i)")
  case (Inl e)
  then show ?thesis using pair_of_error [OF Inl] by (simp add: observe_def)
next
  case (Inr k)
  then have "row_pair row = Some k" by (simp add: pair_of_row)
  with Inr show ?thesis by (cases "row_count row") (auto simp: observe_def AList_update_new)
qed

lemma add_part_of_Inr: "add_part_of (i, row) ps = Inr ps' \<longleftrightarrow>
    (\<exists>k. row_pair row = Some k \<and> k \<notin> set ps \<and> ps' = ps @ [k])"
  by (auto simp: add_part_of_def res_simps pair_of_row)

lemma taxonomy_errors:
  "observe x obs = Inl e \<Longrightarrow> \<exists>t. e = ValueError t"
  "add_part_of x ps = Inl e \<Longrightarrow> \<exists>t. e = ValueError t"
  by (auto simp: observe_def add_part_of_def res_simps dest: pair_of_error split: prod.splits option.splits if_splits)

lemma rfold_value_error:
  "(\<And>x s e. f x s = Inl e \<Longrightarrow> \<exists>t. e = ValueError t) \<Longrightarrow> rfold f xs s = Inl e \<Longrightarrow> \<exists>t. e = ValueError t"
  by (induction xs arbitrary: s) (auto simp: res_simps)

lemma observed_rows_run:
  "rfold observe (enumerate i rows) obs = Inr obs' \<longleftrightarrow>
     (\<exists>new. list_all2 (\<lambda>row x. row_pair row = Some (fst x) \<and> row_count row = Some (snd x)) rows new \<and>
        obs' = obs @ new \<and> distinct (map fst new) \<and> fst ` set new \<inter> fst ` set obs = {})"
proof (induction rows arbitrary: i obs)
  case (Cons row rows)
  show ?case
    by (auto simp: res_simps observe_Inr Cons.IH list_all2_Cons1)
qed auto

lemma part_of_rows_run:
  "rfold add_part_of (enumerate i rows) ps = Inr ps' \<longleftrightarrow>
     (\<exists>new. list_all2 (\<lambda>row k. row_pair row = Some k) rows new \<and> ps' = ps @ new \<and> distinct new \<and> set new \<inter> set ps = {})"
proof (induction rows arbitrary: i ps)
  case (Cons row rows)
  show ?case
    by (auto simp: res_simps add_part_of_Inr Cons.IH list_all2_Cons1)
qed auto

text \<open>The report, from the pairs of the two inputs.\<close>

lemma style_parents_append:
  "style_parents (obs @ [((g, s), n)]) =
     AList.update s ((case map_of (style_parents obs) s of None \<Rightarrow> [] | Some gs \<Rightarrow> gs) @ [g]) (style_parents obs)"
  by (simp add: style_parents_def)

definition genres_of :: "(name_pair \<times> int) list \<Rightarrow> string \<Rightarrow> string list" where
  "genres_of obs s = map fst (filter (\<lambda>k. snd k = s) (map fst obs))"

lemma style_parents_lookup:
  "distinct (map fst (style_parents obs)) \<and>
     map_of (style_parents obs) s = (if genres_of obs s = [] then None else Some (genres_of obs s))"
proof (induction obs arbitrary: s rule: rev_induct)
  case Nil
  show ?case by (simp add: style_parents_def genres_of_def)
next
  case (snoc x obs)
  obtain g t n where x: "x = ((g, t), n)" by (metis prod.collapse)
  have "map_of (style_parents obs) t = (if genres_of obs t = [] then None else Some (genres_of obs t))" using snoc by blast
  then have "(case map_of (style_parents obs) t of None \<Rightarrow> [] | Some gs \<Rightarrow> gs) = genres_of obs t" by simp
  moreover have "genres_of (obs @ [x]) s = genres_of obs s @ (if t = s then [g] else [])" by (simp add: genres_of_def x)
  ultimately show ?case
    using snoc [of s] by (auto simp: style_parents_append x update_conv' distinct_update)
qed

lemma genres_of_set: "set (genres_of obs s) = {g. (g, s) \<in> fst ` set obs}"
  by (force simp: genres_of_def)

lemma genres_of_distinct: "distinct (map fst obs) \<Longrightarrow> distinct (genres_of obs s)"
  by (auto simp: genres_of_def distinct_map distinct_filter inj_on_def filter_map prod_eq_iff)

lemma shared_styles_exact:
  assumes "distinct (map fst obs)"
  shows "(s, gs) \<in> set (shared_styles obs) \<longleftrightarrow>
    gs = sorted_list_of_set {g. (g, s) \<in> fst ` set obs} \<and> 2 \<le> card {g. (g, s) \<in> fst ` set obs}"
proof -
  let ?G = "{g. (g, s) \<in> fst ` set obs}"
  note lookup = style_parents_lookup [of obs s]
  have d: "distinct (genres_of obs s)" by (rule genres_of_distinct [OF assms])
  have sorted: "sort (genres_of obs s) = sorted_list_of_set ?G"
    using sorted_list_of_set_sort_remdups [of "genres_of obs s"] d by (simp add: genres_of_set distinct_remdups_id)
  have len: "length (genres_of obs s) = card ?G" using distinct_card [OF d] by (simp add: genres_of_set)
  have mem: "(s, x) \<in> set (style_parents obs) \<longleftrightarrow> x = genres_of obs s \<and> genres_of obs s \<noteq> []" for x
    using lookup by (auto simp flip: map_of_eq_Some_iff split: if_splits)
  show ?thesis
    using len by (force simp: shared_styles_def mem sorted)
qed

lemma style_keys_sorted: "sorted (map fst (shared_styles obs)) \<and> distinct (map fst (shared_styles obs))"
proof -
  let ?f = "filter (\<lambda>(style, genres). 1 < length genres) (sort (style_parents obs))"
  have keys: "map fst (shared_styles obs) = map fst ?f" by (simp add: shared_styles_def case_prod_beta comp_def)
  have fst_mono: "sorted xs \<Longrightarrow> sorted (map fst xs)" for xs :: "(string \<times> string list) list"
    by (induction xs) (auto simp: less_eq_prod_def)
  have "sorted (map fst ?f)" by (intro sorted_filter fst_mono) simp
  moreover have "distinct (map fst (sort (style_parents obs)))"
    using style_parents_lookup [of obs] by (simp add: distinct_map)
  then have "distinct (map fst ?f)" by (rule distinct_map_filter)
  ultimately show ?thesis unfolding keys by blast
qed

end
