(* ===== verification/Inventory.thy ===== *)
theory Inventory
  imports Taxonomy
begin

text \<open>
  The bounded inventory of a corpus (\<^verbatim>\<open>inventory\<close> in \<^verbatim>\<open>spike_tag_mapping.py\<close>) on the lines of its
  file. \<open>loads\<close> parses one line and is a parameter; the three shares of the report are given by their
  numerators, the denominator being the number of tag occurrences.
\<close>

section \<open>Counting\<close>

record tally =
  tl_vocabulary :: "(string \<times> nat) list"
  tl_records :: nat
  tl_fields :: nat
  tl_tagged :: nat
  tl_votes :: int
  tl_invalid :: nat

definition empty_tally :: tally where
  "empty_tally = \<lparr>tl_vocabulary = [], tl_records = 0, tl_fields = 0, tl_tagged = 0, tl_votes = 0, tl_invalid = 0\<rparr>"

definition count_name :: "string \<Rightarrow> (string \<times> nat) list \<Rightarrow> (string \<times> nat) list" where
  "count_name s v = AList.update s ((case map_of v s of None \<Rightarrow> 0 | Some n \<Rightarrow> n) + 1) v"

fun tag_name :: "json \<Rightarrow> string option" where
  "tag_name (JObj d) = (case dget d ''name'' of JStr s \<Rightarrow> if blank s then None else Some s | _ \<Rightarrow> None)"
| "tag_name _ = None"

fun tag_votes :: "json \<Rightarrow> int" where
  "tag_votes (JObj d) = (case dget d ''count'' of JInt n \<Rightarrow> if 0 \<le> n then n else 0 | _ \<Rightarrow> 0)"
| "tag_votes _ = 0"

definition count_tag :: "json \<Rightarrow> tally \<Rightarrow> tally" where
  "count_tag tag t = (case tag_name tag of
      None \<Rightarrow> t\<lparr>tl_invalid := tl_invalid t + 1\<rparr>
    | Some s \<Rightarrow> t\<lparr>tl_vocabulary := count_name s (tl_vocabulary t), tl_votes := tl_votes t + tag_votes tag\<rparr>)"

text \<open>One row; \<open>"tags" in row\<close> and \<open>row.get\<close> raise for a row that is no object.\<close>

fun count_row :: "json \<Rightarrow> tally \<Rightarrow> tally res" where
  "count_row (JObj d) t =
     (let t = t\<lparr>tl_records := tl_records t + 1, tl_fields := tl_fields t + (if map_of d ''tags'' = None then 0 else 1)\<rparr> in
      case py_or (dget d ''tags'') (JArr []) of
        JArr tags \<Rightarrow> Inr (fold count_tag tags (t\<lparr>tl_tagged := tl_tagged t + (if tags = [] then 0 else 1)\<rparr>))
      | _ \<Rightarrow> Inr (t\<lparr>tl_invalid := tl_invalid t + 1\<rparr>))"
| "count_row (JArr _) t = Inl AttributeError"
| "count_row (JStr _) t = Inl AttributeError"
| "count_row _ t = Inl TypeError"

section \<open>The report\<close>

record inventory_report =
  iv_records :: nat
  iv_truncated :: bool
  iv_records_with_tags_field :: nat
  iv_tagged_records :: nat
  iv_invalid_tag_entries :: nat
  iv_distinct_tags :: nat
  iv_tag_occurrences :: nat
  iv_nonnegative_vote_sum :: int
  iv_coverage_by_top_n :: "(nat \<times> nat) list option"

definition most_common_sum :: "nat \<Rightarrow> (string \<times> nat) list \<Rightarrow> nat" where
  "most_common_sum n v = sum_list (take n (rev (sort (map snd v))))"

definition inventory :: "(string \<Rightarrow> json res) \<Rightarrow> int \<Rightarrow> string list \<Rightarrow> inventory_report res" where
  "inventory loads limit lines =
     (if limit < 1 then Inl (ValueError ''a positive bounded record limit is required'')
      else rbind (rfold (\<lambda>line t. rbind (loads line) (\<lambda>row. count_row row t)) (take (nat limit) lines) empty_tally) (\<lambda>t.
        let v = tl_vocabulary t; uses = sum_list (map snd v) in
        Inr \<lparr>iv_records = tl_records t, iv_truncated = (nat limit < length lines),
             iv_records_with_tags_field = tl_fields t, iv_tagged_records = tl_tagged t,
             iv_invalid_tag_entries = tl_invalid t, iv_distinct_tags = length v, iv_tag_occurrences = uses,
             iv_nonnegative_vote_sum = tl_votes t,
             iv_coverage_by_top_n = (if uses = 0 then None else Some (map (\<lambda>n. (n, most_common_sum n v)) [10, 100, 1000]))\<rparr>))"

section \<open>Facts\<close>

text \<open>The tag entries of a row, and whether the row itself is an invalid entry.\<close>

fun row_tags :: "json \<Rightarrow> json list" where
  "row_tags (JObj d) = (case py_or (dget d ''tags'') (JArr []) of JArr tags \<Rightarrow> tags | _ \<Rightarrow> [])"
| "row_tags _ = []"

fun bad_tags :: "json \<Rightarrow> bool" where
  "bad_tags (JObj d) = (case py_or (dget d ''tags'') (JArr []) of JArr tags \<Rightarrow> False | _ \<Rightarrow> True)"
| "bad_tags _ = False"

definition names :: "json list \<Rightarrow> string list" where
  "names tags = concat (map (\<lambda>tag. case tag_name tag of None \<Rightarrow> [] | Some s \<Rightarrow> [s]) tags)"

definition votes :: "json list \<Rightarrow> int" where
  "votes tags = sum_list (map tag_votes (filter (\<lambda>tag. tag_name tag \<noteq> None) tags))"

text \<open>A vocabulary counts a list of names.\<close>

definition counts :: "(string \<times> nat) list \<Rightarrow> string list \<Rightarrow> bool" where
  "counts v ns \<longleftrightarrow> distinct (map fst v) \<and> fst ` set v = set ns \<and> (\<forall>s n. (s, n) \<in> set v \<longrightarrow> n = count_list ns s) \<and>
     sum_list (map snd v) = length ns"

lemma sum_list_update:
  "distinct (map fst v) \<Longrightarrow> map_of v s = Some n \<Longrightarrow> sum_list (map snd (AList.update s m v)) + n = sum_list (map snd v) + (m :: nat)"
proof (induction v)
  case (Cons x v)
  then show ?case by (cases x) (auto split: if_splits)
qed simp

lemma counts_count_name:
  assumes "counts v ns" shows "counts (count_name s v) (ns @ [s])"
proof -
  have d: "distinct (map fst v)" and keys: "fst ` set v = set ns" and cnt: "\<forall>s n. (s, n) \<in> set v \<longrightarrow> n = count_list ns s"
    and total: "sum_list (map snd v) = length ns" using assms by (simp_all add: counts_def)
  have d': "distinct (map fst (count_name s v))" using d by (simp add: count_name_def distinct_update)
  have look: "map_of v x = (if x \<in> set ns then Some (count_list ns x) else None)" for x
  proof (cases "map_of v x")
    case None
    then show ?thesis using keys by (simp add: map_of_eq_None_iff)
  next
    case (Some n)
    from map_of_SomeD [OF this] cnt keys show ?thesis using Some by force
  qed
  have zero: "s \<notin> set ns \<Longrightarrow> count_list ns s = 0" by simp
  have now: "map_of (count_name s v) x = (if x \<in> set (ns @ [s]) then Some (count_list (ns @ [s]) x) else None)" for x
    by (auto simp: count_name_def update_conv' look zero)
  have "fst ` set (count_name s v) = set (ns @ [s])"
    using now by (auto simp flip: dom_map_of_conv_image_fst split: if_splits)
  moreover have "n = count_list (ns @ [s]) x" if "(x, n) \<in> set (count_name s v)" for x n
    using now [of x] map_of_is_SomeI [OF d' that] by (auto split: if_splits)
  moreover have "sum_list (map snd (count_name s v)) = length (ns @ [s])"
  proof (cases "s \<in> set ns")
    case True
    then have "map_of v s = Some (count_list ns s)" by (simp add: look)
    from sum_list_update [OF d this, of "count_list ns s + 1"] show ?thesis
      using True total by (simp add: count_name_def look)
  next
    case False
    then have "s \<notin> fst ` set v" using keys by simp
    with False total show ?thesis by (simp add: count_name_def look AList_update_new)
  qed
  ultimately show ?thesis using d' by (simp add: counts_def)
qed

lemma count_tags:
  "counts (tl_vocabulary t) ns \<Longrightarrow> counts (tl_vocabulary (fold count_tag tags t)) (ns @ names tags) \<and>
     tl_invalid (fold count_tag tags t) = tl_invalid t + (length tags - length (names tags)) \<and> length (names tags) \<le> length tags \<and>
     tl_votes (fold count_tag tags t) = tl_votes t + votes tags \<and> tl_records (fold count_tag tags t) = tl_records t \<and>
     tl_tagged (fold count_tag tags t) = tl_tagged t \<and> tl_fields (fold count_tag tags t) = tl_fields t"
proof (induction tags arbitrary: t ns)
  case Nil
  then show ?case by (simp add: names_def votes_def)
next
  case (Cons tag tags)
  show ?case
  proof (cases "tag_name tag")
    case None
    have "counts (tl_vocabulary (count_tag tag t)) ns" using Cons.prems by (simp add: count_tag_def None)
    from Cons.IH [OF this] show ?thesis by (auto simp: count_tag_def None names_def votes_def)
  next
    case (Some s)
    have "counts (tl_vocabulary (count_tag tag t)) (ns @ [s])"
      using counts_count_name [OF Cons.prems] by (simp add: count_tag_def Some)
    from Cons.IH [OF this] show ?thesis by (auto simp: count_tag_def Some names_def votes_def)
  qed
qed

lemma count_row_run:
  assumes "count_row row t = Inr t'" and "counts (tl_vocabulary t) ns"
  shows "counts (tl_vocabulary t') (ns @ names (row_tags row)) \<and>
    tl_invalid t' = tl_invalid t + (length (row_tags row) - length (names (row_tags row))) + (if bad_tags row then 1 else 0) \<and>
    tl_votes t' = tl_votes t + votes (row_tags row) \<and> tl_records t' = tl_records t + 1"
proof -
  obtain d where row: "row = JObj d" using assms(1) by (cases row) auto
  show ?thesis
  proof (cases "py_or (dget d ''tags'') (JArr [])")
    case (JArr tags)
    let ?t = "t\<lparr>tl_records := tl_records t + 1, tl_fields := tl_fields t + (if map_of d ''tags'' = None then 0 else 1),
      tl_tagged := tl_tagged t + (if tags = [] then 0 else 1)\<rparr>"
    have "t' = fold count_tag tags ?t" using assms(1) by (simp add: row JArr Let_def)
    with count_tags [of ?t ns tags] assms(2) show ?thesis by (simp add: row JArr)
  qed (use assms in \<open>auto simp: row Let_def names_def votes_def\<close>)
qed

end
