(* ===== verification/TaxonomyProperties.thy ===== *)
theory TaxonomyProperties
  imports Inventory
begin

text \<open>Properties of the taxonomy export (what a report says of its two inputs, and when there is one) and of the
  inventory of a corpus.\<close>

text \<open>What well-formed rows say: the observed pairs with their counts, and the PART_OF pairs.\<close>

definition observations :: "json list \<Rightarrow> (name_pair \<times> int) set" where
  "observations rows = {x. \<exists>row \<in> set rows. row_pair row = Some (fst x) \<and> row_count row = Some (snd x)}"

definition named_pairs :: "json list \<Rightarrow> name_pair set" where
  "named_pairs rows = {k. \<exists>row \<in> set rows. row_pair row = Some k}"

lemma observed_list:
  assumes "list_all2 (\<lambda>row x. row_pair row = Some (fst x) \<and> row_count row = Some (snd x)) rows obs"
  shows "set obs = observations rows" "length obs = length rows" "map row_pair rows = map (\<lambda>x. Some (fst x)) obs"
proof -
  have "set obs = observations rows \<and> length obs = length rows \<and> map row_pair rows = map (\<lambda>x. Some (fst x)) obs"
    using assms by (induction rule: list_all2_induct) (auto simp: observations_def)
  then show "set obs = observations rows" "length obs = length rows" "map row_pair rows = map (\<lambda>x. Some (fst x)) obs" by blast+
qed

lemma part_of_list:
  assumes "list_all2 (\<lambda>row k. row_pair row = Some k) rows ps"
  shows "set ps = named_pairs rows" "length ps = length rows" "map row_pair rows = map Some ps"
proof -
  have "set ps = named_pairs rows \<and> length ps = length rows \<and> map row_pair rows = map Some ps"
    using assms by (induction rule: list_all2_induct) (auto simp: named_pairs_def)
  then show "set ps = named_pairs rows" "length ps = length rows" "map row_pair rows = map Some ps" by blast+
qed

lemma build_cases:
  assumes "build_taxonomy p obs_rows part_rows = Inr x"
  obtains obs ps where "provenance_ok p" and "distinct (map fst obs)" and "distinct ps"
    and "list_all2 (\<lambda>row x. row_pair row = Some (fst x) \<and> row_count row = Some (snd x)) obs_rows obs"
    and "list_all2 (\<lambda>row k. row_pair row = Some k) part_rows ps"
    and "ex_observed_pairs x = sort obs" and "ex_part_of_pairs x = sort ps"
    and "ex_observed_count x = length obs" and "ex_part_of_count x = length ps"
    and "ex_in_both x = length (filter (\<lambda>k. k \<in> set ps) (map fst obs))"
    and "ex_missing_from_part_of x = map (\<lambda>k. (k, the (map_of obs k))) (sort (filter (\<lambda>k. k \<notin> set ps) (map fst obs)))"
    and "ex_part_of_not_observed x = sort (filter (\<lambda>k. k \<notin> set (map fst obs)) ps)"
    and "ex_shared_styles x = shared_styles obs"
  using assms by (auto simp: build_taxonomy_def res_simps observed_rows_run part_of_rows_run split: if_splits)

lemma distinct_the:
  "\<forall>x \<in> set xs. f x \<noteq> None \<Longrightarrow> distinct (map f xs) \<Longrightarrow> distinct (map (\<lambda>x. the (f x)) xs)"
proof (induction xs)
  case (Cons x xs)
  have "the (f x) \<noteq> the (f y)" if "y \<in> set xs" for y
  proof -
    from that Cons.prems have "f x \<noteq> f y" "f x \<noteq> None" "f y \<noteq> None" by (auto simp: image_iff)
    then show ?thesis by (auto dest: option.expand)
  qed
  with Cons show ?case by auto
qed simp

lemma missing_set:
  "distinct (map fst obs) \<Longrightarrow>
    set (map (\<lambda>k. (k, the (map_of obs k))) (filter (\<lambda>k. k \<notin> P) (map fst obs))) = {x \<in> set obs. fst x \<notin> P}"
  by (force simp: image_iff)

text \<open>C37: A report is exact. The observed pairs are those of the rows with their counts, sorted and one per row, and so are the
  PART_OF pairs; the two differences and the intersection are the set differences and the intersection of the inputs and
  account for every pair; a style is shared exactly when it was observed under two genres or more, which are all listed.\<close>

theorem taxonomy_report_is_exact:
  assumes "build_taxonomy p obs_rows part_rows = Inr x"
  defines "Obs \<equiv> observations obs_rows" and "P \<equiv> named_pairs part_rows"
  shows "sorted (ex_observed_pairs x) \<and> set (ex_observed_pairs x) = Obs \<and> length (ex_observed_pairs x) = length obs_rows \<and>
    sorted (ex_part_of_pairs x) \<and> set (ex_part_of_pairs x) = P \<and> length (ex_part_of_pairs x) = length part_rows \<and>
    ex_in_both x = card (fst ` Obs \<inter> P) \<and> set (ex_missing_from_part_of x) = {y \<in> Obs. fst y \<notin> P} \<and>
    set (ex_part_of_not_observed x) = P - fst ` Obs \<and>
    ex_observed_count x = ex_in_both x + length (ex_missing_from_part_of x) \<and>
    ex_part_of_count x = ex_in_both x + length (ex_part_of_not_observed x) \<and>
    (\<forall>style genres. (style, genres) \<in> set (ex_shared_styles x) \<longleftrightarrow>
       genres = sorted_list_of_set {g. (g, style) \<in> fst ` Obs} \<and> 2 \<le> card {g. (g, style) \<in> fst ` Obs})"
proof -
  from assms(1) obtain obs ps where d: "distinct (map fst obs)" "distinct ps"
    and rows: "list_all2 (\<lambda>row x. row_pair row = Some (fst x) \<and> row_count row = Some (snd x)) obs_rows obs"
      "list_all2 (\<lambda>row k. row_pair row = Some k) part_rows ps"
    and x: "ex_observed_pairs x = sort obs" "ex_part_of_pairs x = sort ps"
      "ex_observed_count x = length obs" "ex_part_of_count x = length ps"
      "ex_in_both x = length (filter (\<lambda>k. k \<in> set ps) (map fst obs))"
      "ex_missing_from_part_of x = map (\<lambda>k. (k, the (map_of obs k))) (sort (filter (\<lambda>k. k \<notin> set ps) (map fst obs)))"
      "ex_part_of_not_observed x = sort (filter (\<lambda>k. k \<notin> set (map fst obs)) ps)"
      "ex_shared_styles x = shared_styles obs"
    by (rule build_cases)
  have Obs: "set obs = Obs" "length obs = length obs_rows" and P: "set ps = P" "length ps = length part_rows"
    using observed_list [OF rows(1)] part_of_list [OF rows(2)] by (simp_all add: Obs_def P_def)
  have both: "ex_in_both x = card (fst ` Obs \<inter> P)"
    using distinct_card [OF distinct_filter [OF d(1), of "\<lambda>k. k \<in> P"]] by (simp add: x P Obs(1) [symmetric] Int_def)
  have both': "ex_in_both x = length (filter (\<lambda>k. k \<in> set (map fst obs)) ps)"
    using distinct_card [OF distinct_filter [OF d(2), of "\<lambda>k. k \<in> fst ` Obs"]]
    by (simp add: both Obs(1) P(1) Int_def conj_commute)
  have "set (ex_missing_from_part_of x) = {y \<in> Obs. fst y \<notin> P}"
    using missing_set [OF d(1), of P] by (simp add: x Obs(1) P(1))
  moreover have "set (ex_part_of_not_observed x) = P - fst ` Obs" by (auto simp: x Obs(1) [symmetric] P(1) [symmetric])
  moreover have "ex_observed_count x = ex_in_both x + length (ex_missing_from_part_of x)"
    using sum_length_filter_compl [of "\<lambda>k. k \<in> set ps" "map fst obs"] by (simp add: x)
  moreover have "ex_part_of_count x = ex_in_both x + length (ex_part_of_not_observed x)"
    unfolding both' using sum_length_filter_compl [of "\<lambda>k. k \<in> set (map fst obs)" ps] by (simp add: x)
  ultimately show ?thesis
    using both Obs P shared_styles_exact [OF d(1)] by (simp add: x)
qed

text \<open>There is a report exactly when the provenance is complete and every row is well formed (genre and style are
  nonempty names that are not reserved, an observed count is a positive integer) and no pair is repeated within an input;
  everything else is refused with a \<open>ValueError\<close>.\<close>

theorem taxonomy_input_is_validated:
  "(case build_taxonomy p obs_rows part_rows of
      Inr x \<Rightarrow> provenance_ok p \<and> (\<forall>row \<in> set obs_rows. row_pair row \<noteq> None \<and> row_count row \<noteq> None) \<and>
        (\<forall>row \<in> set part_rows. row_pair row \<noteq> None) \<and>
        distinct (map row_pair obs_rows) \<and> distinct (map row_pair part_rows)
    | Inl e \<Rightarrow> (\<exists>t. e = ValueError t) \<and>
        \<not> (provenance_ok p \<and> (\<forall>row \<in> set obs_rows. row_pair row \<noteq> None \<and> row_count row \<noteq> None) \<and>
          (\<forall>row \<in> set part_rows. row_pair row \<noteq> None) \<and>
          distinct (map row_pair obs_rows) \<and> distinct (map row_pair part_rows)))"
proof (cases "build_taxonomy p obs_rows part_rows")
  case (Inr x)
  from this obtain obs ps where d: "provenance_ok p" "distinct (map fst obs)" "distinct ps"
    and rows: "list_all2 (\<lambda>row x. row_pair row = Some (fst x) \<and> row_count row = Some (snd x)) obs_rows obs"
      "list_all2 (\<lambda>row k. row_pair row = Some k) part_rows ps"
    by (rule build_cases)
  have "distinct (map row_pair obs_rows)" "distinct (map row_pair part_rows)"
    unfolding observed_list(3) [OF rows(1)] part_of_list(3) [OF rows(2)]
    using d by (auto simp: distinct_map inj_on_def)
  moreover have "\<forall>row \<in> set obs_rows. row_pair row \<noteq> None \<and> row_count row \<noteq> None"
    using rows(1) by (induction rule: list_all2_induct) auto
  moreover have "\<forall>row \<in> set part_rows. row_pair row \<noteq> None"
    using rows(2) by (induction rule: list_all2_induct) auto
  ultimately show ?thesis using d(1) Inr by simp
next
  case (Inl e)
  have err: "\<exists>t. e = ValueError t"
    using Inl by (auto simp: build_taxonomy_def res_simps taxonomy_errors
      dest!: rfold_value_error [rotated] split: if_splits)
  have False if ok: "provenance_ok p" "\<forall>row \<in> set obs_rows. row_pair row \<noteq> None \<and> row_count row \<noteq> None"
    "\<forall>row \<in> set part_rows. row_pair row \<noteq> None" "distinct (map row_pair obs_rows)" "distinct (map row_pair part_rows)"
  proof -
    define obs where "obs = map (\<lambda>row. (the (row_pair row), the (row_count row))) obs_rows"
    define ps where "ps = map (\<lambda>row. the (row_pair row)) part_rows"
    have "list_all2 (\<lambda>row x. row_pair row = Some (fst x) \<and> row_count row = Some (snd x)) obs_rows obs"
      "list_all2 (\<lambda>row k. row_pair row = Some k) part_rows ps"
      using ok(2,3) by (auto simp: obs_def ps_def list_all2_conv_all_nth)
    moreover have "distinct (map fst obs)" "distinct ps"
      using ok(2-5) by (simp_all add: obs_def ps_def comp_def distinct_the)
    ultimately have "rfold observe (enumerate 0 obs_rows) [] = Inr obs" "rfold add_part_of (enumerate 0 part_rows) [] = Inr ps"
      by (simp_all add: observed_rows_run part_of_rows_run)
    with ok(1) Inl show False by (simp add: build_taxonomy_def)
  qed
  with err Inl show ?thesis by auto
qed

definition sample_row :: "string \<Rightarrow> string \<Rightarrow> int \<Rightarrow> json" where
  "sample_row g s n = JObj [(''genre'', JStr g), (''style'', JStr s), (''count'', JInt n)]"

definition sample_provenance :: json where
  "sample_provenance = JObj [(''source'', JStr ''export''), (''snapshot_id'', JInt 7), (''exported_at'', JStr ''today'')]"

lemma sample_report:
  "\<exists>x. build_taxonomy sample_provenance [sample_row ''Rock'' ''Indie'' 3, sample_row ''Pop'' ''Indie'' 2]
     [sample_row ''Rock'' ''Indie'' 1, sample_row ''Jazz'' ''Bop'' 1] = Inr x"
  by (simp add: build_taxonomy_def provenance_ok_def PROVENANCE_FIELDS_def sample_provenance_def sample_row_def
    observe_def add_part_of_def pair_field_def blank_def ascii_space_def space2_def space3_def RESERVED_def)

lemma taxonomy_report_is_exact_witness:
  "\<exists>x. build_taxonomy sample_provenance [sample_row ''Rock'' ''Indie'' 3, sample_row ''Pop'' ''Indie'' 2]
     [sample_row ''Rock'' ''Indie'' 1, sample_row ''Jazz'' ''Bop'' 1] = Inr x \<and>
   length (ex_observed_pairs x) = 2 \<and> ex_observed_count x = ex_in_both x + length (ex_missing_from_part_of x)"
proof -
  from sample_report obtain x where x: "build_taxonomy sample_provenance [sample_row ''Rock'' ''Indie'' 3, sample_row ''Pop'' ''Indie'' 2]
     [sample_row ''Rock'' ''Indie'' 1, sample_row ''Jazz'' ''Bop'' 1] = Inr x" by blast
  from taxonomy_report_is_exact [OF x] x show ?thesis by (intro exI [of _ x]) simp
qed

lemma taxonomy_input_is_validated_witness:
  "\<exists>t. build_taxonomy sample_provenance [sample_row ''Rock'' ''Indie'' 3, sample_row ''Rock'' ''Indie'' 2] [] = Inl (ValueError t)"
  using taxonomy_input_is_validated
    [of sample_provenance "[sample_row ''Rock'' ''Indie'' 3, sample_row ''Rock'' ''Indie'' 2]" "[]"]
  by (auto simp: sample_row_def split: sum.splits)

section \<open>The inventory\<close>

lemma names_append: "names (xs @ ys) = names xs @ names ys" and votes_append: "votes (xs @ ys) = votes xs + votes ys"
  by (simp_all add: names_def votes_def)

lemma names_length: "length (names tags) \<le> length tags"
  by (induction tags) (auto simp: names_def split: option.splits)

lemma count_rows_run:
  assumes "rfold (\<lambda>line t. rbind (loads line) (\<lambda>row. count_row row t)) lines t = Inr t'" and "counts (tl_vocabulary t) ns"
  shows "\<exists>rows. list_all2 (\<lambda>line row. loads line = Inr row) lines rows \<and>
    counts (tl_vocabulary t') (ns @ names (concat (map row_tags rows))) \<and>
    tl_invalid t' + length (names (concat (map row_tags rows))) =
      tl_invalid t + length (concat (map row_tags rows)) + length (filter bad_tags rows) \<and>
    tl_votes t' = tl_votes t + votes (concat (map row_tags rows)) \<and> tl_records t' = tl_records t + length rows"
  using assms
proof (induction lines arbitrary: t ns)
  case Nil
  then show ?case by (intro exI [of _ "[]"]) (simp add: names_def votes_def)
next
  case (Cons line lines)
  then obtain row t1 where row: "loads line = Inr row" "count_row row t = Inr t1"
    and rest: "rfold (\<lambda>line t. rbind (loads line) (\<lambda>row. count_row row t)) lines t1 = Inr t'"
    by (auto simp: res_simps)
  note one = count_row_run [OF row(2) Cons.prems(2)]
  from Cons.IH [OF rest, of "ns @ names (row_tags row)"] one obtain rows where
    IH: "list_all2 (\<lambda>line row. loads line = Inr row) lines rows"
      "counts (tl_vocabulary t') ((ns @ names (row_tags row)) @ names (concat (map row_tags rows)))"
      "tl_invalid t' + length (names (concat (map row_tags rows))) =
         tl_invalid t1 + length (concat (map row_tags rows)) + length (filter bad_tags rows)"
      "tl_votes t' = tl_votes t1 + votes (concat (map row_tags rows))" "tl_records t' = tl_records t1 + length rows"
    by blast
  have "counts (tl_vocabulary t') (ns @ names (concat (map row_tags (row # rows))))" using IH(2) by (simp add: names_append)
  moreover have "tl_invalid t' + length (names (concat (map row_tags (row # rows)))) =
      tl_invalid t + length (concat (map row_tags (row # rows))) + length (filter bad_tags (row # rows))"
    using IH(3) one [THEN conjunct2, THEN conjunct1] names_length [of "row_tags row"]
    by (cases "bad_tags row") (simp_all add: names_append)
  moreover have "tl_votes t' = tl_votes t + votes (concat (map row_tags (row # rows)))"
    using IH(4) one by (simp add: votes_append)
  moreover have "tl_records t' = tl_records t + length (row # rows)" using IH(5) one by simp
  moreover have "list_all2 (\<lambda>line row. loads line = Inr row) (line # lines) (row # rows)" using IH(1) row(1) by simp
  ultimately show ?case by blast
qed

lemma sum_list_sort: "sum_list (sort xs) = (sum_list xs :: nat)"
proof -
  have "sum_list (insort x ys) = x + sum_list ys" for x and ys :: "nat list"
    by (induction ys) auto
  then show ?thesis by (induction xs) simp_all
qed

lemma most_common_bounds:
  "most_common_sum n v \<le> sum_list (map snd v)" "length v \<le> n \<Longrightarrow> most_common_sum n v = sum_list (map snd v)"
proof -
  have total: "sum_list (rev (sort (map snd v))) = sum_list (map snd v)"
    by (simp add: sum_list_rev sum_list_sort)
  have "sum_list (take n xs) \<le> sum_list xs" for xs :: "nat list"
    using sum_list_append [of "take n xs" "drop n xs"] by simp
  from this [of "rev (sort (map snd v))"] total show "most_common_sum n v \<le> sum_list (map snd v)"
    unfolding most_common_sum_def by simp
  show "length v \<le> n \<Longrightarrow> most_common_sum n v = sum_list (map snd v)"
    using total by (simp add: most_common_sum_def)
qed

text \<open>The inventory counts exactly the tags of the rows it read. It reads the first \<open>limit\<close> lines and says whether there
  were more; every tag entry is an occurrence of its name or an invalid entry, as is a row whose tags are no list;
  votes are summed over the named tags only; and a coverage share never exceeds one and is one when the vocabulary
  fits.\<close>

theorem inventory_counts_every_tag:
  assumes "inventory loads limit lines = Inr r"
  shows "\<exists>rows. list_all2 (\<lambda>line row. loads line = Inr row) (take (nat limit) lines) rows \<and>
    (let tags = concat (map row_tags rows) in
       iv_records r = length rows \<and> iv_truncated r = (length rows < length lines) \<and>
       iv_tag_occurrences r = length (names tags) \<and> iv_distinct_tags r = card (set (names tags)) \<and>
       iv_invalid_tag_entries r + iv_tag_occurrences r = length tags + length (filter bad_tags rows) \<and>
       iv_nonnegative_vote_sum r = votes tags \<and>
       (case iv_coverage_by_top_n r of
          None \<Rightarrow> names tags = []
        | Some shares \<Rightarrow> \<forall>(n, k) \<in> set shares. k \<le> iv_tag_occurrences r \<and>
            (iv_distinct_tags r \<le> n \<longrightarrow> k = iv_tag_occurrences r)))"
proof -
  from assms obtain t where run: "rfold (\<lambda>line t. rbind (loads line) (\<lambda>row. count_row row t)) (take (nat limit) lines) empty_tally = Inr t"
    and r: "iv_records r = tl_records t" "iv_truncated r = (nat limit < length lines)" "iv_invalid_tag_entries r = tl_invalid t"
      "iv_distinct_tags r = length (tl_vocabulary t)" "iv_tag_occurrences r = sum_list (map snd (tl_vocabulary t))"
      "iv_nonnegative_vote_sum r = tl_votes t"
      "iv_coverage_by_top_n r = (if sum_list (map snd (tl_vocabulary t)) = 0 then None
         else Some (map (\<lambda>n. (n, most_common_sum n (tl_vocabulary t))) [10, 100, 1000]))"
    by (auto simp: inventory_def res_simps Let_def simp del: sum_list_eq_0_iff split: if_splits)
  have "counts (tl_vocabulary empty_tally) []" by (simp add: empty_tally_def counts_def)
  from count_rows_run [OF run this] obtain rows where
    rows: "list_all2 (\<lambda>line row. loads line = Inr row) (take (nat limit) lines) rows"
    and v: "counts (tl_vocabulary t) (names (concat (map row_tags rows)))"
    and n: "tl_invalid t + length (names (concat (map row_tags rows))) = length (concat (map row_tags rows)) + length (filter bad_tags rows)"
      "tl_votes t = votes (concat (map row_tags rows))" "tl_records t = length rows"
    by (auto simp: empty_tally_def)
  have uses: "sum_list (map snd (tl_vocabulary t)) = length (names (concat (map row_tags rows)))" using v by (simp add: counts_def)
  have "length (map fst (tl_vocabulary t)) = card (set (names (concat (map row_tags rows))))"
    using v distinct_card [of "map fst (tl_vocabulary t)"] by (simp add: counts_def)
  then have dist: "length (tl_vocabulary t) = card (set (names (concat (map row_tags rows))))" by simp
  have "length rows = length (take (nat limit) lines)" using list_all2_lengthD [OF rows] by simp
  then have trunc: "(nat limit < length lines) = (length rows < length lines)" by auto
  have cov: "case iv_coverage_by_top_n r of None \<Rightarrow> names (concat (map row_tags rows)) = []
      | Some shares \<Rightarrow> \<forall>(n, k) \<in> set shares. k \<le> iv_tag_occurrences r \<and> (iv_distinct_tags r \<le> n \<longrightarrow> k = iv_tag_occurrences r)"
    using most_common_bounds [where v = "tl_vocabulary t"] unfolding r(4,5,7) by (auto simp: uses)
  show ?thesis
    unfolding Let_def by (intro exI [of _ rows] conjI rows cov) (simp_all add: r n trunc uses dist flip: n(1))
qed

lemma inventory_counts_every_tag_witness:
  "\<exists>r. inventory (\<lambda>_. Inr (JObj [(''tags'', JArr [JObj [(''name'', JStr ''rock''), (''count'', JInt 2)], JNull])])) 1 [''a'', ''b''] = Inr r \<and>
     iv_truncated r \<and> iv_records r = 1"
proof -
  let ?loads = "\<lambda>_. Inr (JObj [(''tags'', JArr [JObj [(''name'', JStr ''rock''), (''count'', JInt 2)], JNull])])"
  have "\<exists>r. inventory ?loads 1 [''a'', ''b''] = Inr r" by (simp add: inventory_def py_or_def Let_def)
  then obtain r where run: "inventory ?loads 1 [''a'', ''b''] = Inr r" by blast
  from inventory_counts_every_tag [OF run] run show ?thesis by (auto simp: Let_def dest: list_all2_lengthD)
qed

end
