(* ===== verification/TagTree.thy ===== *)
theory TagTree
  imports Json "HOL-Library.Product_Lexorder"
begin

text \<open>
  The taxonomy walk of \<^verbatim>\<open>spike_tag_mapping.py\<close>: the direct children of a path, the identity of one
  request, and the greedy or beam-search descent over captured distributions. A taxonomy is a dict from
  genre to its list of styles. Floating-point arithmetic and the SHA-256 of a JSON value are parameters
  (\<open>float_ops\<close> and \<open>digest\<close>).
\<close>

section \<open>Programs with a state and an exception\<close>

datatype stop = CaptureFailure string | CaptureRefused string | BudgetExhausted | Raised pyerr

type_synonym ('s, 'a) prog = "'s \<Rightarrow> (stop + 'a) \<times> 's"

definition pbind :: "('s, 'a) prog \<Rightarrow> ('a \<Rightarrow> ('s, 'b) prog) \<Rightarrow> ('s, 'b) prog" where
  "pbind m f s = (case m s of (Inl e, s') \<Rightarrow> (Inl e, s') | (Inr x, s') \<Rightarrow> f x s')"

definition plift :: "'a res \<Rightarrow> ('s, 'a) prog" where
  "plift r s = (case r of Inl e \<Rightarrow> (Inl (Raised e), s) | Inr x \<Rightarrow> (Inr x, s))"

fun pconcat :: "('a \<Rightarrow> ('s, 'b list) prog) \<Rightarrow> 'a list \<Rightarrow> ('s, 'b list) prog" where
  "pconcat f [] s = (Inr [], s)"
| "pconcat f (x # xs) s = pbind (f x) (\<lambda>ys. pbind (pconcat f xs) (\<lambda>zs s. (Inr (ys @ zs), s))) s"

section \<open>The taxonomy\<close>

definition MODEL :: string where "MODEL = ''jev-1.12''"
definition NONE :: string where "NONE = ''__NONE__''"
definition GENRE_ONLY :: string where "GENRE_ONLY = ''__GENRE_ONLY__''"

definition INSTRUCTIONS :: string where
  "INSTRUCTIONS = ''Map the MusicBrainz tag to a direct child; choose NONE for non-genre tags and GENRE_ONLY when no style applies.''"

type_synonym tree = "(string \<times> string list) list"

fun children :: "tree \<Rightarrow> string list \<Rightarrow> string list res" where
  "children tree [] = Inr (sort (map fst tree) @ [NONE])"
| "children tree [g] = (if g = NONE then Inr []
     else (case map_of tree g of None \<Rightarrow> Inl KeyError | Some styles \<Rightarrow> Inr (sort styles @ [GENRE_ONLY])))"
| "children tree (g # s # path) = Inr []"

text \<open>\<open>digest ascii j\<close> is the SHA-256 of \<open>json.dumps(j, sort_keys=True, ensure_ascii=ascii)\<close>.\<close>

definition request_key :: "(bool \<Rightarrow> json \<Rightarrow> string) \<Rightarrow> string \<Rightarrow> string list \<Rightarrow> string \<Rightarrow> string list \<Rightarrow> string" where
  "request_key digest tag options taxonomy_sha parent =
     digest False (JObj [(''tag'', JStr tag), (''parent'', JArr (map JStr parent)), (''options'', JArr (map JStr options)),
       (''taxonomy_sha'', JStr taxonomy_sha), (''instructions'', JStr INSTRUCTIONS), (''model'', JStr MODEL)])"

definition leaf :: "string list \<Rightarrow> string list" where
  "leaf path = (if path = [NONE] then [] else filter (\<lambda>part. part \<noteq> GENRE_ONLY) path)"

section \<open>Captures\<close>

record capture =
  cap_model :: string
  cap_probabilities :: obj

type_synonym captures = "(string \<times> capture) list"

definition model_ok :: "string \<Rightarrow> bool" where
  "model_ok m \<longleftrightarrow> m = MODEL \<or> take (length MODEL + 1) m = MODEL @ ''.''"

text \<open>
  What the script uses of floating-point numbers. \<open>fp_unit p\<close> is \<open>math.isfinite(p) and 0 <= p <= 1\<close>,
  which raises for a value that is no number; \<open>fp_sum_is_one\<close> compares the sum of the values with one.
\<close>

record 'f float_ops =
  fp_unit :: "json \<Rightarrow> bool res"
  fp_sum_is_one :: "json list \<Rightarrow> bool"
  fp_is_zero :: "json \<Rightarrow> bool"
  fp_log :: "json \<Rightarrow> 'f"
  fp_zero :: 'f
  fp_one :: 'f
  fp_add :: "'f \<Rightarrow> 'f \<Rightarrow> 'f"
  fp_div :: "'f \<Rightarrow> nat \<Rightarrow> 'f"
  fp_neg :: "'f \<Rightarrow> 'f"
  fp_exp :: "'f \<Rightarrow> 'f"

text \<open>\<open>any(...)\<close> over the values stops at the first one outside the unit interval.\<close>

fun all_in_unit :: "('f, 'z) float_ops_scheme \<Rightarrow> json list \<Rightarrow> bool res" where
  "all_in_unit F [] = Inr True"
| "all_in_unit F (p # ps) = rbind (fp_unit F p) (\<lambda>ok. if ok then all_in_unit F ps else Inr False)"

definition check_capture :: "('f, 'z) float_ops_scheme \<Rightarrow> string list \<Rightarrow> capture \<Rightarrow> unit res" where
  "check_capture F options c =
     (if \<not> model_ok (cap_model c) then Inl (ValueError ''capture did not use the required Jev 1.12 model'')
      else let probabilities = cap_probabilities c in
        if set (dkeys probabilities) \<noteq> set options
        then Inl (ValueError ''capture must contain the complete valid child distribution'')
        else rbind (all_in_unit F (dvalues probabilities)) (\<lambda>ok.
          if \<not> ok then Inl (ValueError ''capture must contain the complete valid child distribution'')
          else if \<not> fp_sum_is_one F (dvalues probabilities) then Inl (ValueError ''probabilities must sum to one'')
          else Inr ()))"

section \<open>The descent\<close>

text \<open>A candidate: its path, the sum of the logarithms and the number of decisions.\<close>

type_synonym 'f candidate = "string list \<times> 'f \<times> nat"

type_synonym 's resolver = "string \<Rightarrow> string list \<Rightarrow> string list \<Rightarrow> string \<Rightarrow> ('s, capture) prog"

definition branch :: "('f, 'z) float_ops_scheme \<Rightarrow> string list \<Rightarrow> 'f candidate \<Rightarrow> capture \<Rightarrow> 'f candidate list" where
  "branch F options cand c = (case cand of (path, log_probability, decisions) \<Rightarrow>
     map (\<lambda>option. (path @ [option],
          fp_add F log_probability (fp_log F (dget (cap_probabilities c) option)), decisions + 1))
       (filter (\<lambda>option. \<not> fp_is_zero F (dget (cap_probabilities c) option)) options))"

definition expand :: "('f, 'z) float_ops_scheme \<Rightarrow> (string list \<Rightarrow> string list \<Rightarrow> string) \<Rightarrow> string \<Rightarrow> tree \<Rightarrow>
    's resolver \<Rightarrow> 'f candidate \<Rightarrow> ('s, 'f candidate list) prog" where
  "expand F key_of tag tree resolve cand = (case cand of (path, log_probability, decisions) \<Rightarrow>
     pbind (plift (children tree path)) (\<lambda>options.
       case options of
         [] \<Rightarrow> (\<lambda>s. (Inr [(path, log_probability, decisions)], s))
       | [option] \<Rightarrow> (\<lambda>s. (Inr [(path @ [option], log_probability, decisions)], s))
       | _ \<Rightarrow> pbind (resolve tag options path (key_of options path)) (\<lambda>c.
             pbind (plift (check_capture F options c)) (\<lambda>_ s. (Inr (branch F options cand c), s)))))"

definition rank :: "('f, 'z) float_ops_scheme \<Rightarrow> 'f candidate \<Rightarrow> 'f \<times> string list" where
  "rank F cand = (case cand of (path, log_probability, decisions) \<Rightarrow>
     (if decisions = 0 then fp_zero F else fp_neg F (fp_div F log_probability decisions), path))"

definition best :: "('f :: linorder, 'z) float_ops_scheme \<Rightarrow> nat \<Rightarrow> 'f candidate list \<Rightarrow> 'f candidate list" where
  "best F width expanded = take width (sort_key (rank F) expanded)"

definition level :: "('f :: linorder, 'z) float_ops_scheme \<Rightarrow> (string list \<Rightarrow> string list \<Rightarrow> string) \<Rightarrow> string \<Rightarrow> tree \<Rightarrow>
    nat \<Rightarrow> 's resolver \<Rightarrow> 'f candidate list \<Rightarrow> ('s, 'f candidate list) prog" where
  "level F key_of tag tree width resolve candidates =
     pbind (pconcat (expand F key_of tag tree resolve) candidates) (\<lambda>expanded s. (Inr (best F width expanded), s))"

definition score :: "('f, 'z) float_ops_scheme \<Rightarrow> 'f candidate \<Rightarrow> string list \<times> 'f" where
  "score F cand = (case cand of (path, logp, count) \<Rightarrow>
     (path, if count = 0 then fp_one F else fp_exp F (fp_div F logp count)))"

definition traverse :: "('f :: linorder, 'z) float_ops_scheme \<Rightarrow> (string list \<Rightarrow> string list \<Rightarrow> string) \<Rightarrow> string \<Rightarrow> tree \<Rightarrow>
    nat \<Rightarrow> 's resolver \<Rightarrow> ('s, (string list \<times> 'f) list) prog" where
  "traverse F key_of tag tree width resolve =
     (if width \<noteq> 1 \<and> width \<noteq> 3 then plift (Inl (ValueError ''only greedy and beam K=3 are prepared''))
      else pbind (level F key_of tag tree width resolve [([], fp_zero F, 0)]) (\<lambda>candidates.
           pbind (level F key_of tag tree width resolve candidates) (\<lambda>candidates s.
             (Inr (map (score F) candidates), s))))"

text \<open>Replay looks the captures up; missing evidence fails closed.\<close>

definition replay_lookup :: "captures \<Rightarrow> unit resolver" where
  "replay_lookup captures tag options path key s =
     (case map_of captures key of None \<Rightarrow> (Inl (Raised KeyError), s) | Some c \<Rightarrow> (Inr c, s))"

section \<open>Facts\<close>

lemma pbind_Inr: "pbind m f s = (Inr y, s'') \<longleftrightarrow> (\<exists>x s'. m s = (Inr x, s') \<and> f x s' = (Inr y, s''))"
  by (auto simp: pbind_def split: prod.splits sum.splits)

lemma plift_Inr: "plift r s = (Inr x, s') \<longleftrightarrow> r = Inr x \<and> s' = s"
  by (auto simp: plift_def split: sum.splits)

lemma plift_state: "snd (plift r s) = s"
  by (simp add: plift_def split: sum.splits)

lemma pbind_state: "snd (pbind m f s) = snd (m s) \<or> (\<exists>x s'. m s = (Inr x, s') \<and> snd (pbind m f s) = snd (f x s'))"
  by (auto simp: pbind_def split: prod.splits sum.splits)

text \<open>The contract between the descent and a resolver that keeps what it resolved in a cache.\<close>

locale evidence =
  fixes resolve :: "'s resolver" and cache :: "'s \<Rightarrow> captures"
  assumes resolved: "resolve tag options path key s = (Inr c, s') \<Longrightarrow> map_of (cache s') key = Some c"
    and grows: "resolve tag options path key s = (r, s') \<Longrightarrow> map_of (cache s) \<subseteq>\<^sub>m map_of (cache s')"
begin

lemma expand_grows: "expand F key_of tag tree resolve cand s = (r, s') \<Longrightarrow> map_of (cache s) \<subseteq>\<^sub>m map_of (cache s')"
  by (cases cand) (auto simp: expand_def pbind_def plift_def split: prod.splits sum.splits list.splits if_splits dest: grows)

lemma pconcat_grows:
  "pconcat (expand F key_of tag tree resolve) cands s = (r, s') \<Longrightarrow> map_of (cache s) \<subseteq>\<^sub>m map_of (cache s')"
proof (induction cands arbitrary: r s s')
  case (Cons cand cands)
  then show ?case
    by (auto simp: pbind_def split: prod.splits sum.splits dest!: expand_grows intro: map_le_trans)
qed simp

lemma expand_replays:
  assumes "expand F key_of tag tree resolve cand s = (Inr xs, s')" and "map_of (cache s') \<subseteq>\<^sub>m map_of m"
  shows "expand F key_of tag tree (replay_lookup m) cand u = (Inr xs, u)"
proof -
  obtain path l d where cand: "cand = (path, l, d)" by (cases cand)
  have hit: "replay_lookup m tag options path key u = (Inr c, u)"
    if "resolve tag options path key s = (Inr c, s')" for options key c
    using resolved [OF that] assms(2) by (auto simp: replay_lookup_def map_le_def dom_def)
  show ?thesis
    using assms(1) by (auto simp: cand expand_def pbind_def plift_def split: prod.splits sum.splits list.splits if_splits dest!: hit)
qed

lemma pconcat_replays:
  assumes "pconcat (expand F key_of tag tree resolve) cands s = (Inr xs, s')" and "map_of (cache s') \<subseteq>\<^sub>m map_of m"
  shows "pconcat (expand F key_of tag tree (replay_lookup m)) cands u = (Inr xs, u)"
  using assms
proof (induction cands arbitrary: xs s)
  case (Cons cand cands)
  then obtain ys s1 zs where one: "expand F key_of tag tree resolve cand s = (Inr ys, s1)"
    and rest: "pconcat (expand F key_of tag tree resolve) cands s1 = (Inr zs, s')" and xs: "xs = ys @ zs"
    by (auto simp: pbind_Inr)
  from pconcat_grows [OF rest] Cons.prems(2) have "map_of (cache s1) \<subseteq>\<^sub>m map_of m" by (rule map_le_trans)
  from expand_replays [OF one this] Cons.IH [OF rest Cons.prems(2)] xs show ?case by (simp add: pbind_def)
qed simp

text \<open>A descent that succeeded is reproduced, with the same result, from the captures it left.\<close>

lemma traverse_replays:
  assumes "traverse F key_of tag tree width resolve s = (Inr paths, s')" and "map_of (cache s') \<subseteq>\<^sub>m map_of m"
  shows "traverse F key_of tag tree width (replay_lookup m) u = (Inr paths, u)"
proof -
  have w: "\<not> (width \<noteq> 1 \<and> width \<noteq> 3)" using assms(1) by (auto simp: traverse_def plift_def split: if_splits)
  let ?E = "expand F key_of tag tree"
  from assms(1) w obtain c1 s1 c2 where c1: "pconcat (?E resolve) [([], fp_zero F, 0)] s = (Inr c1, s1)"
    and c2: "pconcat (?E resolve) (best F width c1) s1 = (Inr c2, s')"
    and paths: "paths = map (score F) (best F width c2)"
    by (auto simp: traverse_def level_def pbind_Inr simp del: pconcat.simps)
  have m1: "map_of (cache s1) \<subseteq>\<^sub>m map_of m" using pconcat_grows [OF c2] assms(2) by (rule map_le_trans)
  show ?thesis
    using pconcat_replays [OF c1 m1, of u] pconcat_replays [OF c2 assms(2), of u] paths
    unfolding traverse_def if_not_P [OF w] by (simp add: level_def pbind_def del: pconcat.simps)
qed

lemma traverse_grows:
  assumes "traverse F key_of tag tree width resolve s = (r, s')" shows "map_of (cache s) \<subseteq>\<^sub>m map_of (cache s')"
proof -
  have level: "map_of (cache s) \<subseteq>\<^sub>m map_of (cache s')"
    if "level F key_of tag tree width resolve cands s = (r, s')" for cands r s s'
    using that by (auto simp: level_def pbind_def split: prod.splits sum.splits dest!: pconcat_grows)
  show ?thesis
    using assms by (auto simp: traverse_def pbind_def plift_def split: prod.splits sum.splits if_splits
      dest!: level intro: map_le_trans)
qed

end

interpretation stored: evidence "replay_lookup m" "\<lambda>_. m" for m
  by unfold_locales (auto simp: replay_lookup_def split: option.splits)

text \<open>Evidence for the beam is evidence for the greedy descent.\<close>

lemma pconcat_take:
  "pconcat f xs s = (Inr ys, s) \<Longrightarrow> (\<And>x. snd (f x s) = s) \<Longrightarrow> \<exists>zs. pconcat f (take n xs) s = (Inr zs, s)"
proof (induction xs arbitrary: n ys)
  case (Cons x xs)
  from Cons.prems(1) obtain a b s1 where f: "f x s = (Inr a, s1)" and rest: "pconcat f xs s1 = (Inr b, s)"
    by (auto simp: pbind_Inr)
  with Cons.prems(2) [of x] have s1: "s1 = s" by simp
  show ?case
  proof (cases n)
    case (Suc k)
    from Cons.IH [OF rest [unfolded s1] Cons.prems(2), of k] obtain zs where "pconcat f (take k xs) s = (Inr zs, s)" by blast
    with f s1 Suc show ?thesis by (simp add: pbind_def)
  qed simp
qed simp

lemma replay_expand_state: "snd (expand F key_of tag tree (replay_lookup m) cand u) = u"
  by simp

lemma greedy_from_beam:
  assumes "traverse F key_of tag tree 3 (replay_lookup m) u = (Inr paths, u)"
  shows "\<exists>path. traverse F key_of tag tree 1 (replay_lookup m) u = (Inr path, u) \<and> length path \<le> 1"
proof -
  let ?E = "expand F key_of tag tree (replay_lookup m)"
  from assms obtain c1 c2 where c1: "pconcat ?E [([], fp_zero F, 0)] u = (Inr c1, u)"
    and c2: "pconcat ?E (best F 3 c1) u = (Inr c2, u)"
    by (auto simp: traverse_def level_def pbind_Inr simp del: pconcat.simps)
  have "best F 1 c1 = take 1 (best F 3 c1)" by (simp add: best_def min_def)
  with pconcat_take [OF c2 replay_expand_state, of 1] obtain c3 where "pconcat ?E (best F 1 c1) u = (Inr c3, u)" by auto
  with c1 show ?thesis
    by (simp add: traverse_def level_def pbind_def best_def del: pconcat.simps)
qed

text \<open>Where a descent can end: no genre, or a genre with one of its styles or none.\<close>

definition taxonomy_path :: "tree \<Rightarrow> string list \<Rightarrow> bool" where
  "taxonomy_path tree path \<longleftrightarrow> path = [NONE] \<or>
     (\<exists>g styles x. path = [g, x] \<and> g \<noteq> NONE \<and> map_of tree g = Some styles \<and> (x = GENRE_ONLY \<or> x \<in> set styles))"

lemma branch_paths: "x \<in> set (branch F options (path, l, d) c) \<Longrightarrow> \<exists>option \<in> set options. fst x = path @ [option]"
  by (auto simp: branch_def)

lemma expand_paths:
  assumes "expand F key_of tag tree resolve (path, l, d) s = (Inr xs, s')" and "children tree path = Inr options" and "x \<in> set xs"
  shows "if options = [] then fst x = path else \<exists>option \<in> set options. fst x = path @ [option]"
  using assms
  by (auto simp: expand_def pbind_def plift_def split: prod.splits sum.splits list.splits if_splits dest: branch_paths)

lemma pconcat_members:
  "pconcat f xs s = (Inr ys, s') \<Longrightarrow> y \<in> set ys \<Longrightarrow> \<exists>x \<in> set xs. \<exists>t zs t'. f x t = (Inr zs, t') \<and> y \<in> set zs"
proof (induction xs arbitrary: ys s)
  case (Cons x xs)
  then obtain a s1 b where "f x s = (Inr a, s1)" "pconcat f xs s1 = (Inr b, s')" "ys = a @ b" by (auto simp: pbind_Inr)
  with Cons.IH [of s1 b] Cons.prems(2) show ?case by auto
qed simp

lemma expand_children: "expand F key_of tag tree resolve (path, l, d) s = (Inr xs, s') \<Longrightarrow> \<exists>options. children tree path = Inr options"
  by (auto simp: expand_def pbind_Inr plift_Inr)

lemma set_best: "set (best F w xs) \<subseteq> set xs"
  unfolding best_def using set_take_subset [of w "sort_key (rank F) xs"] by simp

lemma traverse_paths:
  assumes "traverse F key_of tag tree width resolve s = (Inr paths, s')"
  shows "length paths \<le> width \<and> (\<forall>(path, sc) \<in> set paths. taxonomy_path tree path)"
proof -
  let ?E = "expand F key_of tag tree resolve"
  from assms obtain c1 s1 c2 where c1: "pconcat ?E [([], fp_zero F, 0)] s = (Inr c1, s1)"
    and c2: "pconcat ?E (best F width c1) s1 = (Inr c2, s')" and paths: "paths = map (score F) (best F width c2)"
    by (auto simp: traverse_def level_def pbind_Inr plift_Inr simp del: pconcat.simps split: if_splits)
  have first: "\<exists>g \<in> set (sort (map fst tree) @ [NONE]). fst x = [g]" if x: "x \<in> set c1" for x
  proof -
    from pconcat_members [OF c1 x] obtain t zs t' where "?E ([], fp_zero F, 0) t = (Inr zs, t')" "x \<in> set zs" by auto
    from expand_paths [OF this(1) children.simps(1) this(2)] show ?thesis by simp
  qed
  have second: "taxonomy_path tree (fst y)" if y: "y \<in> set c2" for y
  proof -
    from pconcat_members [OF c2 y] obtain x t zs t' where x: "x \<in> set (best F width c1)"
      and run: "?E x t = (Inr zs, t')" "y \<in> set zs" by blast
    obtain p l d where xp: "x = (p, l, d)" by (cases x)
    have "x \<in> set c1" using x set_best [of F width c1] by blast
    from first [OF this] obtain g where g: "p = [g]" by (auto simp: xp)
    from expand_children [OF run(1) [unfolded xp]] obtain options where opts: "children tree p = Inr options" by blast
    from expand_paths [OF run(1) [unfolded xp] opts run(2)]
    have end_path: "if options = [] then fst y = [g] else \<exists>option \<in> set options. fst y = [g, option]" by (simp add: g split: if_splits)
    then show ?thesis
    proof (cases "g = NONE")
      case True
      with opts have "options = []" by (simp add: g)
      with end_path True show ?thesis by (simp add: taxonomy_path_def)
    next
      case False
      with opts obtain styles where "map_of tree g = Some styles" "options = sort styles @ [GENRE_ONLY]"
        by (auto simp: g split: option.splits)
      with end_path False show ?thesis by (auto simp: taxonomy_path_def)
    qed
  qed
  have "length paths \<le> width" by (simp add: paths best_def)
  moreover have "taxonomy_path tree (fst q)" if q: "q \<in> set paths" for q
  proof -
    from q obtain y where y: "y \<in> set (best F width c2)" "q = score F y" by (auto simp: paths)
    have "fst (score F y) = fst y" by (cases y) (simp add: score_def)
    then have "fst q = fst y" by (simp add: y(2))
    moreover have "y \<in> set c2" using y(1) set_best [of F width c2] by blast
    ultimately show ?thesis using second [of y] by simp
  qed
  ultimately show ?thesis by auto
qed

end
