(* ===== verification/Capture.thy ===== *)
theory Capture
  imports TagTree Config Text
begin

text \<open>
  The capture adapter of \<^verbatim>\<open>spike_tag_capture.py\<close>: a cached requester with a bounded request budget, a
  bounded number of attempts per request and honoured rate limits, and the run over the distinct tags
  of a vocabulary. The transport is a parameter, a function of the number of the call and its request;
  the clock and the latencies it measures are not modelled, the sleeps are recorded.
\<close>

section \<open>The transport and the bounds\<close>

text \<open>A request; the model and the instructions in it are the constants of the walk.\<close>

record tag_request =
  rq_tag :: string
  rq_options :: "string list"
  rq_parent :: "string list"

text \<open>What one call of \<open>classify\<close> does: it returns, or it raises one of three kinds of exception.\<close>

datatype answer = Response json | RateLimited json | TransientError string | OtherError string

text \<open>Waiting times: \<open>pt_num\<close> the number a JSON number denotes, \<open>pt_backoff\<close> \<open>base_backoff * 2 ** (attempts - 1)\<close>.\<close>

record ('f, 't) provider = "'f float_ops" +
  pt_key :: string
  pt_answer :: "nat \<Rightarrow> tag_request \<Rightarrow> answer"
  pt_max_requests :: nat
  pt_max_attempts :: nat
  pt_max_wait :: 't
  pt_num :: "json \<Rightarrow> 't"
  pt_zero :: 't
  pt_backoff :: "nat \<Rightarrow> 't"
  pt_str :: "'t \<Rightarrow> string"

section \<open>State\<close>

record failure =
  fl_tag :: string
  fl_parent :: "string list"
  fl_key :: string
  fl_kind :: string
  fl_message :: string
  fl_attempts :: nat

record measurement =
  ms_usage :: "(int \<times> int) option"
  ms_attempts :: nat

record 't capturer =
  cp_cache :: captures
  cp_measurements :: "(string \<times> measurement) list"
  cp_failures :: "failure list"
  cp_requests :: nat
  cp_rate_limit_responses :: nat
  cp_cold_calls :: nat
  cp_replay_hits :: nat
  cp_tokens_avoided :: "int \<times> int"
  cp_slept :: "'t list"

section \<open>Redaction\<close>

text \<open>\<open>text.replace(old, new)\<close> for a nonempty \<open>old\<close>.\<close>

function py_replace :: "string \<Rightarrow> string \<Rightarrow> string \<Rightarrow> string" where
  "py_replace old new [] = []"
| "py_replace old new (c # cs) =
     (if old \<noteq> [] \<and> take (length old) (c # cs) = old then new @ py_replace old new (drop (length old) (c # cs))
      else c # py_replace old new cs)"
  by pat_completeness auto

termination
  by (relation "measure (\<lambda>(_, _, s). length s)") (auto simp: neq_Nil_conv)

definition redact :: "('f, 't, 'z) provider_scheme \<Rightarrow> string \<Rightarrow> string" where
  "redact P value = py_replace (pt_key P) ''[redacted]'' value"

section \<open>One request\<close>

fun is_number :: "json \<Rightarrow> bool" where
  "is_number (JInt _) = True"
| "is_number (JFloat _) = True"
| "is_number _ = False"

definition fail_capture :: "('f, 't, 'z) provider_scheme \<Rightarrow> string \<Rightarrow> string list \<Rightarrow> string \<Rightarrow> string \<Rightarrow> string \<Rightarrow> nat \<Rightarrow>
    ('t capturer, 'a) prog" where
  "fail_capture P tag parent key kind message attempts s =
     (Inl (CaptureFailure kind),
      s\<lparr>cp_failures := cp_failures s @ [\<lparr>fl_tag = tag, fl_parent = parent, fl_key = key, fl_kind = kind,
          fl_message = redact P message, fl_attempts = attempts\<rparr>]\<rparr>)"

definition retry_wait :: "('f, 't :: linorder, 'z) provider_scheme \<Rightarrow> json \<Rightarrow> nat \<Rightarrow> 't" where
  "retry_wait P retry_after attempts =
     (if \<not> is_number retry_after \<or> pt_num P retry_after < pt_zero P
      then min (pt_backoff P attempts) (pt_max_wait P) else pt_num P retry_after)"

definition retry_str :: "('f, 't :: linorder, 'z) provider_scheme \<Rightarrow> json \<Rightarrow> nat \<Rightarrow> string" where
  "retry_str P retry_after attempts =
     (if \<not> is_number retry_after \<or> pt_num P retry_after < pt_zero P
      then pt_str P (retry_wait P retry_after attempts) else py_str retry_after)"

function request_loop :: "('f, 't :: linorder, 'z) provider_scheme \<Rightarrow> tag_request \<Rightarrow> string \<Rightarrow> nat \<Rightarrow>
    ('t capturer, json \<times> nat) prog" where
  "request_loop P request key attempts s =
     (if pt_max_requests P \<le> cp_requests s then (Inl BudgetExhausted, s)
      else let s1 = s\<lparr>cp_requests := cp_requests s + 1\<rparr>; attempts = attempts + 1 in
        case pt_answer P (cp_requests s1) request of
          RateLimited retry_after \<Rightarrow>
            let s2 = s1\<lparr>cp_rate_limit_responses := cp_rate_limit_responses s1 + 1\<rparr>; wait = retry_wait P retry_after attempts in
            if pt_max_wait P < wait \<or> pt_max_attempts P \<le> attempts
            then fail_capture P (rq_tag request) (rq_parent request) key ''rate_limited''
                   (''retry-after '' @ retry_str P retry_after attempts @ ''s exceeds bounds'') attempts s2
            else request_loop P request key attempts (s2\<lparr>cp_slept := cp_slept s2 @ [wait]\<rparr>)
        | TransientError e \<Rightarrow>
            if pt_max_attempts P \<le> attempts
            then fail_capture P (rq_tag request) (rq_parent request) key ''transient'' e attempts s1
            else request_loop P request key attempts (s1\<lparr>cp_slept := cp_slept s1 @ [min (pt_backoff P attempts) (pt_max_wait P)]\<rparr>)
        | OtherError e \<Rightarrow> fail_capture P (rq_tag request) (rq_parent request) key ''error'' e attempts s1
        | Response r \<Rightarrow> (Inr (r, attempts), s1))"
  by pat_completeness auto

termination
  by (relation "measure (\<lambda>(P, _, _, _, s). pt_max_requests P - cp_requests s)") auto

declare request_loop.simps [simp del]

section \<open>Checking a response\<close>

fun jstr_ok :: "json \<Rightarrow> string option" where
  "jstr_ok (JStr m) = (if model_ok m then Some m else None)"
| "jstr_ok _ = None"

fun response_model :: "json \<Rightarrow> json" where
  "response_model (JObj d) = dget d ''model''"
| "response_model _ = JNull"

fun response_field :: "json \<Rightarrow> string \<Rightarrow> json" where
  "response_field (JObj d) k = dget d k"
| "response_field _ k = JNull"

text \<open>\<open>any(...)\<close> over the values: a value that is no number, or not in the unit interval.\<close>

fun all_probabilities :: "('f, 'z) float_ops_scheme \<Rightarrow> json list \<Rightarrow> bool res" where
  "all_probabilities F [] = Inr True"
| "all_probabilities F (p # ps) =
     (if \<not> is_number p then Inr False
      else rbind (fp_unit F p) (\<lambda>ok. if ok then all_probabilities F ps else Inr False))"

fun valid_distribution :: "('f, 'z) float_ops_scheme \<Rightarrow> json \<Rightarrow> string list \<Rightarrow> bool res" where
  "valid_distribution F (JObj d) options =
     (if set (dkeys d) \<noteq> set options then Inr False
      else rbind (all_probabilities F (dvalues d)) (\<lambda>ok. Inr (ok \<and> fp_sum_is_one F (dvalues d))))"
| "valid_distribution F _ options = Inr False"

fun token_count :: "json \<Rightarrow> int option" where
  "token_count (JInt n) = (if n < 0 then None else Some n)"
| "token_count _ = None"

fun valid_usage :: "json \<Rightarrow> (int \<times> int) option" where
  "valid_usage (JObj d) = (case (token_count (dget d ''input_tokens''), token_count (dget d ''output_tokens'')) of
      (Some i, Some out) \<Rightarrow> Some (i, out) | _ \<Rightarrow> None)"
| "valid_usage _ = None"

section \<open>The resolver\<close>

definition cache_hit :: "string \<Rightarrow> 't capturer \<Rightarrow> 't capturer" where
  "cache_hit key s =
     (let usage = (case map_of (cp_measurements s) key of None \<Rightarrow> (0, 0)
          | Some m \<Rightarrow> (case ms_usage m of None \<Rightarrow> (0, 0) | Some u \<Rightarrow> u))
      in s\<lparr>cp_replay_hits := cp_replay_hits s + 1,
           cp_tokens_avoided := (fst (cp_tokens_avoided s) + fst usage, snd (cp_tokens_avoided s) + snd usage)\<rparr>)"

definition accept_response :: "('f, 't, 'z) provider_scheme \<Rightarrow> string \<Rightarrow> string list \<Rightarrow> string list \<Rightarrow> string \<Rightarrow>
    json \<times> nat \<Rightarrow> ('t capturer, capture) prog" where
  "accept_response P tag options parent key x s = (case x of (response, attempts) \<Rightarrow>
     (case jstr_ok (response_model response) of
        None \<Rightarrow> (Inl (CaptureRefused (''provider returned '' @ py_repr (response_model response) @ '', not '' @ MODEL
              @ ''; aborting rather than substituting'')),
            s\<lparr>cp_failures := cp_failures s @ [\<lparr>fl_tag = tag, fl_parent = parent, fl_key = key, fl_kind = ''model_mismatch'',
                fl_message = ''returned '' @ py_repr (response_model response), fl_attempts = attempts\<rparr>]\<rparr>)
      | Some model \<Rightarrow>
          (case valid_distribution P (response_field response ''probabilities'') options of
             Inl e \<Rightarrow> (Inl (Raised e), s)
           | Inr False \<Rightarrow> fail_capture P tag parent key ''invalid_distribution''
               ''incomplete or invalid child distribution'' attempts s
           | Inr True \<Rightarrow>
               let c = \<lparr>cap_model = model,
                        cap_probabilities = (case response_field response ''probabilities'' of JObj d \<Rightarrow> d | _ \<Rightarrow> [])\<rparr>
               in (Inr c, s\<lparr>cp_cold_calls := cp_cold_calls s + 1,
                     cp_cache := AList.update key c (cp_cache s),
                     cp_measurements := AList.update key \<lparr>ms_usage = valid_usage (response_field response ''usage''),
                        ms_attempts = attempts\<rparr> (cp_measurements s)\<rparr>))))"

definition resolve :: "('f, 't :: linorder, 'z) provider_scheme \<Rightarrow> 't capturer resolver" where
  "resolve P tag options parent key s =
     (case map_of (cp_cache s) key of
        Some c \<Rightarrow> (Inr c, cache_hit key s)
      | None \<Rightarrow> pbind (request_loop P \<lparr>rq_tag = tag, rq_options = options, rq_parent = parent\<rparr> key 0)
          (accept_response P tag options parent key) s)"

section \<open>Construction\<close>

record taxonomy =
  tx_json :: json
  tx_genres :: tree
  tx_provenance :: json

definition KEY_ENV :: string where
  "KEY_ENV = ''TYPESAFE_API_KEY''"

definition fresh_capturer :: "'t capturer" where
  "fresh_capturer = \<lparr>cp_cache = [], cp_measurements = [], cp_failures = [], cp_requests = 0, cp_rate_limit_responses = 0,
     cp_cold_calls = 0, cp_replay_hits = 0, cp_tokens_avoided = (0, 0), cp_slept = []\<rparr>"

text \<open>
  The checks of the constructor; \<open>verify\<close> is the transport's answer to \<open>verify_model\<close>, the text of its
  exception or the model it resolves. The result is the key and the state; the cache and the measurements
  start empty, as the command line starts them.
\<close>

definition new_capturer :: "environ \<Rightarrow> taxonomy \<Rightarrow> int \<Rightarrow> int \<Rightarrow> (string \<Rightarrow> string \<Rightarrow> string + json) \<Rightarrow>
    stop + string \<times> 't capturer" where
  "new_capturer env taxonomy max_requests max_attempts verify =
     (if max_requests < 1 \<or> max_attempts < 1
      then Inl (Raised (ValueError ''positive request and attempt bounds are required''))
      else let key = py_strip (case env KEY_ENV of None \<Rightarrow> [] | Some k \<Rightarrow> k) in
        if key = [] then Inl (CaptureRefused (KEY_ENV @ '' is not set; refusing to run''))
        else if tx_genres taxonomy = [] \<or> \<not> truthy (tx_provenance taxonomy)
        then Inl (Raised (ValueError ''taxonomy with genres and provenance is required''))
        else (case verify MODEL key of
            Inl error \<Rightarrow> Inl (CaptureRefused (''cannot verify '' @ MODEL @ '': '' @ py_replace key ''[redacted]'' error))
          | Inr resolved \<Rightarrow>
              if jstr_ok resolved = None
              then Inl (CaptureRefused (MODEL @ '' resolved to '' @ py_repr resolved @ ''; never substituting an alias or newer model''))
              else Inr (key, fresh_capturer)))"

section \<open>The run\<close>

definition taxonomy_sha :: "(bool \<Rightarrow> json \<Rightarrow> string) \<Rightarrow> taxonomy \<Rightarrow> string" where
  "taxonomy_sha digest taxonomy = digest True (tx_json taxonomy)"

text \<open>\<open>list(dict.fromkeys(tags))\<close>.\<close>

definition distinct_tags :: "string list \<Rightarrow> string list" where
  "distinct_tags tags = fold (\<lambda>tag d. if tag \<in> set d then d else d @ [tag]) tags []"

definition capture_tag :: "('f :: linorder, 't :: linorder, 'z) provider_scheme \<Rightarrow> (bool \<Rightarrow> json \<Rightarrow> string) \<Rightarrow> taxonomy \<Rightarrow> string \<Rightarrow>
    ('t capturer, (string list \<times> 'f) list) prog" where
  "capture_tag P digest taxonomy tag =
     traverse P (\<lambda>options path. request_key digest tag options (taxonomy_sha digest taxonomy) path) tag
       (tx_genres taxonomy) 3 (resolve P)"

fun run_tags :: "('f :: linorder, 't :: linorder, 'z) provider_scheme \<Rightarrow> (bool \<Rightarrow> json \<Rightarrow> string) \<Rightarrow> taxonomy \<Rightarrow> string list \<Rightarrow>
    string list \<Rightarrow> string list \<Rightarrow> ('t capturer, string list \<times> string list \<times> string list) prog" where
  "run_tags P digest taxonomy [] completed failed s = (Inr (completed, failed, []), s)"
| "run_tags P digest taxonomy (tag # pending) completed failed s =
     (case capture_tag P digest taxonomy tag s of
        (Inr _, s') \<Rightarrow> run_tags P digest taxonomy pending (completed @ [tag]) failed s'
      | (Inl (CaptureFailure _), s') \<Rightarrow> run_tags P digest taxonomy pending completed (failed @ [tag]) s'
      | (Inl BudgetExhausted, s') \<Rightarrow> (Inr (completed, failed, tag # pending), s')
      | (Inl e, s') \<Rightarrow> (Inl e, s'))"

definition capture_run :: "('f :: linorder, 't :: linorder, 'z) provider_scheme \<Rightarrow> (bool \<Rightarrow> json \<Rightarrow> string) \<Rightarrow> taxonomy \<Rightarrow> string list \<Rightarrow>
    ('t capturer, string list \<times> string list \<times> string list) prog" where
  "capture_run P digest taxonomy tags = run_tags P digest taxonomy (distinct_tags tags) [] []"

end
