(* ===== verification/Evaluate.thy ===== *)
theory Evaluate
  imports Capture
begin

text \<open>
  The labelled replay of \<^verbatim>\<open>spike_tag_mapping.py\<close>: \<open>evaluate\<close> judges four methods on a sample of human
  labels, from finished captures. A bundle is given by its parts; the fields whose presence or type the code
  tests are JSON values (JNull when absent). The quotient of two scores, the floats the literals denote and
  \<open>str.casefold\<close> are parameters; an accuracy is given by its numerator, over the sample size.
\<close>

section \<open>The bundle\<close>

record labelled =
  lb_tag :: string
  lb_reviewed_by :: json
  lb_reviewed_at :: json
  lb_source :: json
  lb_accepted_paths :: "string list list"

text \<open>\<open>fc_model\<close> is the empty string when the entry has none; a path may be null.\<close>

record flat_prediction =
  fc_model :: json
  fc_capture_source :: json
  fc_path :: "string list option"

record evidence_bundle =
  bn_taxonomy :: taxonomy
  bn_labels :: "labelled list"
  bn_captures :: captures
  bn_flat_claude :: "(string \<times> flat_prediction) list"

record 'f evaluation_ops =
  eo_ratio :: "'f \<Rightarrow> 'f \<Rightarrow> 'f res"
  eo_literal :: "string \<Rightarrow> 'f"
  eo_casefold :: "string \<Rightarrow> string"

section \<open>Admissible evidence\<close>

definition clean_taxonomy :: "tree \<Rightarrow> bool" where
  "clean_taxonomy tree \<longleftrightarrow> \<not> (NONE \<in> set (dkeys tree) \<or>
     (\<exists>styles \<in> set (dvalues tree). GENRE_ONLY \<in> set styles \<or> NONE \<in> set styles \<or> length styles \<noteq> length (remdups styles)))"

text \<open>A human target: nothing, a genre, or a genre with one of its styles.\<close>

fun target_ok :: "tree \<Rightarrow> string list \<Rightarrow> bool" where
  "target_ok tree [] = True"
| "target_ok tree [g] = (map_of tree g \<noteq> None)"
| "target_ok tree [g, s] = (case map_of tree g of None \<Rightarrow> False | Some styles \<Rightarrow> s \<in> set styles)"
| "target_ok tree (g # s # x # path) = False"

definition check_label :: "tree \<Rightarrow> labelled \<Rightarrow> unit res" where
  "check_label tree row =
     (if \<not> (truthy (lb_reviewed_by row) \<and> truthy (lb_reviewed_at row) \<and> truthy (lb_source row))
      then Inl (ValueError ''human label provenance is required'')
      else if lb_accepted_paths row = []
      then Inl (ValueError ''NONE is an empty path inside accepted_paths, not missing labels'')
      else if \<exists>path \<in> set (lb_accepted_paths row). \<not> target_ok tree path
      then Inl (ValueError ''human target outside taxonomy'')
      else Inr ())"

text \<open>\<open>flat.get("model", "").startswith("claude")\<close>.\<close>

fun claude_model :: "json \<Rightarrow> bool res" where
  "claude_model (JStr m) = Inr (take 6 m = ''claude'')"
| "claude_model _ = Inl AttributeError"

definition check_flat :: "(string \<times> flat_prediction) list \<Rightarrow> string \<Rightarrow> flat_prediction res" where
  "check_flat flat_claude tag = (case map_of flat_claude tag of
      None \<Rightarrow> Inl KeyError
    | Some flat \<Rightarrow> rbind (claude_model (fc_model flat)) (\<lambda>ok.
        if \<not> ok \<or> \<not> truthy (fc_capture_source flat)
        then Inl (ValueError ''actual flat-Claude model and capture provenance required'')
        else Inr flat))"

section \<open>The four predictions\<close>

text \<open>The replay of one descent; the lookup in the captures raises nothing but \<open>KeyError\<close>.\<close>

definition replay :: "('f :: linorder, 'z) float_ops_scheme \<Rightarrow> (bool \<Rightarrow> json \<Rightarrow> string) \<Rightarrow> tree \<Rightarrow> captures \<Rightarrow> string \<Rightarrow>
    string \<Rightarrow> nat \<Rightarrow> (string list \<times> 'f) list res" where
  "replay F digest tree captures sha tag width =
     (case fst (traverse F (\<lambda>options path. request_key digest tag options sha path) tag tree width (replay_lookup captures) ()) of
        Inr paths \<Rightarrow> Inr paths
      | Inl (Raised e) \<Rightarrow> Inl e
      | Inl _ \<Rightarrow> Inl KeyError)"

text \<open>Ambiguous matches abstain.\<close>

definition string_matches :: "(string \<Rightarrow> string) \<Rightarrow> tree \<Rightarrow> string \<Rightarrow> string list list" where
  "string_matches casefold tree tag =
     concat (map (\<lambda>(genre, styles). map (\<lambda>style. [genre, style]) (filter (\<lambda>style. casefold style = casefold tag) styles)) tree) @
     map (\<lambda>genre. [genre]) (filter (\<lambda>genre. casefold genre = casefold tag) (dkeys tree))"

definition string_path :: "(string \<Rightarrow> string) \<Rightarrow> tree \<Rightarrow> string \<Rightarrow> string list option" where
  "string_path casefold tree tag = (case string_matches casefold tree tag of [path] \<Rightarrow> Some path | _ \<Rightarrow> None)"

fun py_first :: "'a list \<Rightarrow> 'a res" where
  "py_first [] = Inl IndexError"
| "py_first (x # xs) = Inr x"

fun separation :: "('f, 'y) evaluation_ops_scheme \<Rightarrow> (string list \<times> 'f) list \<Rightarrow> 'f option res" where
  "separation E ((p, a) # (q, b) # rest) = rbind (eo_ratio E a b) (\<lambda>x. Inr (Some x))"
| "separation E _ = Inr None"

text \<open>The predictions of the methods, in the order of the code, and the separation of the beam.\<close>

type_synonym 'f judgement = "(string \<times> string list option) list \<times> 'f option"

definition judge :: "('f :: linorder, 'z) float_ops_scheme \<Rightarrow> ('f, 'y) evaluation_ops_scheme \<Rightarrow> (bool \<Rightarrow> json \<Rightarrow> string) \<Rightarrow>
    evidence_bundle \<Rightarrow> string \<Rightarrow> labelled \<Rightarrow> 'f judgement res" where
  "judge F E digest b sha row =
     (let tree = tx_genres (bn_taxonomy b); tag = lb_tag row in
      rbind (check_label tree row) (\<lambda>_.
      rbind (replay F digest tree (bn_captures b) sha tag 1) (\<lambda>greedy.
      rbind (replay F digest tree (bn_captures b) sha tag 3) (\<lambda>beam.
      rbind (check_flat (bn_flat_claude b) tag) (\<lambda>flat.
      rbind (py_first greedy) (\<lambda>g.
      rbind (py_first beam) (\<lambda>top.
      rbind (separation E beam) (\<lambda>sep.
      Inr ([(''greedy'', Some (leaf (fst g))), (''beam_k3'', Some (leaf (fst top))), (''flat_claude'', fc_path flat),
            (''string_match'', string_path (eo_casefold E) tree tag)], sep)))))))))"

section \<open>Counting\<close>

definition in_expected :: "string list option \<Rightarrow> labelled \<Rightarrow> bool" where
  "in_expected prediction row \<longleftrightarrow> (case prediction of None \<Rightarrow> False | Some path \<Rightarrow> path \<in> set (lb_accepted_paths row))"

definition add_correct :: "string \<Rightarrow> bool \<Rightarrow> (string \<times> nat) list \<Rightarrow> (string \<times> nat) list" where
  "add_correct m hit correct =
     AList.update m ((case map_of correct m of None \<Rightarrow> 0 | Some n \<Rightarrow> n) + (if hit then 1 else 0)) correct"

type_synonym 'f sweep_row = "'f option \<times> bool"

definition tally_label :: "labelled \<Rightarrow> 'f judgement \<Rightarrow> (string \<times> nat) list \<times> 'f sweep_row list \<Rightarrow>
    (string \<times> nat) list \<times> 'f sweep_row list" where
  "tally_label row j st = (case (j, st) of ((predictions, sep), (correct, rows)) \<Rightarrow>
     (fold (\<lambda>(m, prediction). add_correct m (in_expected prediction row)) predictions correct,
      rows @ [(sep, in_expected (the (map_of predictions ''beam_k3'')) row)]))"

section \<open>The report\<close>

record 'f sweep_entry =
  sw_threshold :: 'f
  sw_accepted :: nat
  sw_accepted_errors :: nat
  sw_review :: nat

record 'f evaluation_report =
  ev_sample_size :: nat
  ev_accuracy :: "(string \<times> nat) list"
  ev_threshold_sweep :: "'f sweep_entry list"

definition METHODS :: "string list" where
  "METHODS = [''greedy'', ''beam_k3'', ''flat_claude'', ''string_match'']"

definition THRESHOLDS :: "string list" where
  "THRESHOLDS = [''1.0'', ''1.5'', ''2.0'', ''3.0'', ''5.0'', ''10.0'']"

definition accepts :: "'f :: linorder \<Rightarrow> 'f sweep_row \<Rightarrow> bool" where
  "accepts threshold r = (case fst r of None \<Rightarrow> False | Some sep \<Rightarrow> threshold \<le> sep)"

definition reviews :: "'f :: linorder \<Rightarrow> 'f sweep_row \<Rightarrow> bool" where
  "reviews threshold r = (case fst r of None \<Rightarrow> True | Some sep \<Rightarrow> sep < threshold)"

definition sweep_at :: "'f :: linorder sweep_row list \<Rightarrow> 'f \<Rightarrow> 'f sweep_entry" where
  "sweep_at rows threshold =
     \<lparr>sw_threshold = threshold,
      sw_accepted = length (filter (accepts threshold) rows),
      sw_accepted_errors = length (filter (\<lambda>r. accepts threshold r \<and> \<not> snd r) rows),
      sw_review = length (filter (reviews threshold) rows)\<rparr>"

definition evaluate :: "('f :: linorder, 'z) float_ops_scheme \<Rightarrow> ('f, 'y) evaluation_ops_scheme \<Rightarrow> (bool \<Rightarrow> json \<Rightarrow> string) \<Rightarrow>
    evidence_bundle \<Rightarrow> 'f evaluation_report res" where
  "evaluate F E digest b =
     (let tree = tx_genres (bn_taxonomy b); labels = bn_labels b in
      if \<not> truthy (tx_provenance (bn_taxonomy b)) then Inl (ValueError ''taxonomy provenance is required'')
      else if \<not> clean_taxonomy tree then Inl (ValueError ''taxonomy contains reserved or duplicate labels'')
      else if labels = [] \<or> length (remdups (map lb_tag labels)) \<noteq> length labels
      then Inl (ValueError ''nonempty distinct-tag labelled sample required'')
      else let sha = digest True (tx_json (bn_taxonomy b)) in
        rbind (rfold (\<lambda>row st. rbind (judge F E digest b sha row) (\<lambda>j. Inr (tally_label row j st))) labels ([], []))
          (\<lambda>(correct, rows). Inr
             \<lparr>ev_sample_size = length labels,
              ev_accuracy = map (\<lambda>m. (m, case map_of correct m of None \<Rightarrow> 0 | Some n \<Rightarrow> n)) METHODS,
              ev_threshold_sweep = map (\<lambda>t. sweep_at rows (eo_literal E t)) THRESHOLDS\<rparr>))"

section \<open>The run of the labels\<close>

text \<open>The loop judges every label and counts what it judged.\<close>

lemma rfold_judge:
  "rfold (\<lambda>row st. rbind (f row) (\<lambda>j. Inr (g row j st))) rows st =
     rbind (rmap f rows) (\<lambda>js. Inr (fold (\<lambda>(row, j). g row j) (zip rows js) st))"
proof (induction rows arbitrary: st)
  case (Cons row rows)
  show ?case by (cases "f row"; cases "rmap f rows") (simp_all add: Cons.IH)
qed simp

lemma judge_methods: "judge F E digest b sha row = Inr (ps, sep) \<Longrightarrow> map fst ps = METHODS"
  by (auto simp: judge_def METHODS_def Let_def res_simps)

lemma add_correct_lookup:
  "(case map_of (add_correct m hit c) k of None \<Rightarrow> 0 | Some n \<Rightarrow> n) =
     (case map_of c k of None \<Rightarrow> 0 | Some n \<Rightarrow> n) + (if k = m \<and> hit then 1 else 0)"
  by (auto simp: add_correct_def update_conv' split: option.splits)

text \<open>Whether a method's prediction is accepted, and one row of the sweep.\<close>

definition correct_by :: "string \<Rightarrow> labelled \<times> 'f judgement \<Rightarrow> bool" where
  "correct_by m x = (case x of (row, ps, sep) \<Rightarrow> in_expected (the (map_of ps m)) row)"

definition sweep_row :: "labelled \<times> 'f judgement \<Rightarrow> 'f sweep_row" where
  "sweep_row x = (case x of (row, ps, sep) \<Rightarrow> (sep, in_expected (the (map_of ps ''beam_k3'')) row))"

lemma fold_add_correct:
  assumes "distinct (map fst ps)"
  shows "(case map_of (fold (\<lambda>(m, prediction). add_correct m (in_expected prediction row)) ps c) k of None \<Rightarrow> 0 | Some n \<Rightarrow> n) =
    (case map_of c k of None \<Rightarrow> 0 | Some n \<Rightarrow> n) + (if k \<in> fst ` set ps \<and> in_expected (the (map_of ps k)) row then 1 else 0)"
  using assms
proof (induction ps arbitrary: c)
  case (Cons p ps)
  obtain m pr where p: "p = (m, pr)" by (cases p)
  have "map_of ps m = None" using Cons.prems by (simp add: p map_of_eq_None_iff)
  with Cons show ?case by (auto simp: p add_correct_lookup)
qed simp

lemma METHODS_distinct: "distinct METHODS"
  by (simp add: METHODS_def)

lemma fold_tally:
  assumes "\<forall>(row, ps, sep) \<in> set xs. map fst ps = METHODS"
  shows "(case map_of (fst (fold (\<lambda>(row, j). tally_label row j) xs (c, rs))) k of None \<Rightarrow> 0 | Some n \<Rightarrow> n) =
      (case map_of c k of None \<Rightarrow> 0 | Some n \<Rightarrow> n) + (if k \<in> set METHODS then length (filter (correct_by k) xs) else 0) \<and>
    snd (fold (\<lambda>(row, j). tally_label row j) xs (c, rs)) = rs @ map sweep_row xs"
  using assms
proof (induction xs arbitrary: c rs)
  case (Cons x xs)
  obtain row ps sep where x: "x = (row, ps, sep)" by (cases x) auto
  have m: "map fst ps = METHODS" using Cons.prems by (simp add: x)
  then have keys: "fst ` set ps = set METHODS" and d: "distinct (map fst ps)"
    using METHODS_distinct by (metis list.set_map, simp)
  show ?case
    using Cons by (simp add: x tally_label_def fold_add_correct [OF d] keys correct_by_def sweep_row_def)
qed simp

end
