(* ===== verification/CaptureProperties.thy ===== *)
theory CaptureProperties
  imports Capture
begin

text \<open>
  Properties of the capture adapter: the bounds on requests, attempts and waits, what the cache may
  hold, how a run accounts for its tags, and that its captures suffice for every replay.
\<close>

section \<open>Lifting what every request keeps\<close>

text \<open>An invariant of the resolver is one of the descent, and the descent raises only what the resolver or a check raised.\<close>

locale resolver_invariant =
  fixes rv :: "'s resolver" and inv :: "'s \<Rightarrow> bool"
  assumes keeps: "inv s \<Longrightarrow> rv tag options path key s = (r, s') \<Longrightarrow> inv s'"
begin

lemma expand_keeps: "expand F key_of tag tree rv cand s = (r, s') \<Longrightarrow> inv s \<Longrightarrow> inv s'"
  by (cases cand) (auto simp: expand_def pbind_def plift_def split: prod.splits sum.splits list.splits if_splits dest: keeps)

lemma pconcat_keeps: "pconcat (expand F key_of tag tree rv) cands s = (r, s') \<Longrightarrow> inv s \<Longrightarrow> inv s'"
proof (induction cands arbitrary: r s s')
  case (Cons cand cands)
  then show ?case by (auto simp: pbind_def split: prod.splits sum.splits dest!: expand_keeps)
qed simp

lemma traverse_keeps: "traverse F key_of tag tree width rv s = (r, s') \<Longrightarrow> inv s \<Longrightarrow> inv s'"
  by (auto simp: traverse_def level_def pbind_def plift_def simp del: pconcat.simps
      split: prod.splits sum.splits if_splits dest!: pconcat_keeps)

end

lemma expand_error:
  "expand F key_of tag tree rv cand s = (Inl e, s') \<Longrightarrow> (\<forall>x. e \<noteq> Raised x) \<Longrightarrow>
     \<exists>options path key t. rv tag options path key t = (Inl e, s')"
  by (cases cand) (auto simp: expand_def pbind_def plift_def split: prod.splits sum.splits list.splits if_splits)

lemma pconcat_error:
  "pconcat (expand F key_of tag tree rv) cands s = (Inl e, s') \<Longrightarrow> (\<forall>x. e \<noteq> Raised x) \<Longrightarrow>
     \<exists>options path key t. rv tag options path key t = (Inl e, s')"
proof (induction cands arbitrary: s)
  case (Cons cand cands)
  then show ?case by (auto simp: pbind_def split: prod.splits sum.splits dest: expand_error)
qed simp

lemma traverse_error:
  "traverse F key_of tag tree width rv s = (Inl e, s') \<Longrightarrow> (\<forall>x. e \<noteq> Raised x) \<Longrightarrow>
     \<exists>options path key t. rv tag options path key t = (Inl e, s')"
  by (auto simp: traverse_def level_def pbind_def plift_def simp del: pconcat.simps
      split: prod.splits sum.splits if_splits dest: pconcat_error)

section \<open>One request\<close>

text \<open>What a request adds to the state, whatever its outcome.\<close>

definition loop_effect :: "('f, 't :: linorder, 'z) provider_scheme \<Rightarrow> tag_request \<Rightarrow> nat \<Rightarrow> 't capturer \<Rightarrow>
    stop + json \<times> nat \<Rightarrow> 't capturer \<Rightarrow> bool" where
  "loop_effect P request n s r s' \<longleftrightarrow>
     (\<exists>ws. cp_slept s' = cp_slept s @ ws \<and> (\<forall>w \<in> set ws. w \<le> pt_max_wait P)) \<and>
     cp_cache s' = cp_cache s \<and> cp_measurements s' = cp_measurements s \<and> cp_cold_calls s' = cp_cold_calls s \<and>
     cp_requests s' \<le> max (pt_max_requests P) (cp_requests s) \<and>
     (case r of
        Inr (response, attempts) \<Rightarrow> cp_failures s' = cp_failures s \<and> n < attempts \<and> attempts \<le> pt_max_attempts P \<and>
          cp_requests s' + n = cp_requests s + attempts
      | Inl (CaptureFailure kind) \<Rightarrow> \<exists>f. cp_failures s' = cp_failures s @ [f] \<and> fl_tag f = rq_tag request \<and> fl_kind f = kind \<and>
          fl_attempts f \<le> pt_max_attempts P \<and> cp_requests s' + n = cp_requests s + fl_attempts f
      | Inl BudgetExhausted \<Rightarrow> cp_failures s' = cp_failures s \<and> pt_max_requests P \<le> cp_requests s' \<and> cp_requests s \<le> cp_requests s'
      | _ \<Rightarrow> False)"

text \<open>One round of the request loop.\<close>

lemma request_loop_cases:
  assumes "request_loop P request key n s = (r, s')"
  obtains (exhausted) "pt_max_requests P \<le> cp_requests s" "r = Inl BudgetExhausted" "s' = s"
  | (returned) x where "cp_requests s < pt_max_requests P" "r = Inr (x, Suc n)" "pt_answer P (cp_requests s + 1) request = Response x"
      "s' = s\<lparr>cp_requests := cp_requests s + 1\<rparr>"
  | (failed) f k where "cp_requests s < pt_max_requests P" "r = Inl (CaptureFailure (fl_kind f))"
      "s' = s\<lparr>cp_requests := cp_requests s + 1, cp_rate_limit_responses := k, cp_failures := cp_failures s @ [f]\<rparr>"
      "fl_tag f = rq_tag request" "fl_attempts f = Suc n"
  | (again) t w k where "cp_requests s < pt_max_requests P" "Suc n < pt_max_attempts P" "w \<le> pt_max_wait P"
      "t = s\<lparr>cp_requests := cp_requests s + 1, cp_rate_limit_responses := k, cp_slept := cp_slept s @ [w]\<rparr>"
      "request_loop P request key (Suc n) t = (r, s')"
proof (cases "pt_max_requests P \<le> cp_requests s")
  case True
  then show ?thesis using assms by (intro exhausted) (simp_all add: request_loop.simps [of P request key n s])
next
  case False
  note run = assms [unfolded request_loop.simps [of P request key n s] Let_def if_not_P [OF False]]
  show ?thesis
  proof (cases "pt_answer P (cp_requests s + 1) request")
    case (Response x)
    then show ?thesis using run False by (intro returned) auto
  next
    case (OtherError e)
    then show ?thesis using run False
      by (intro failed [where k = "cp_rate_limit_responses s"]) (auto simp: fail_capture_def)
  next
    case (TransientError e)
    show ?thesis
    proof (cases "pt_max_attempts P \<le> Suc n")
      case True
      then show ?thesis using run False TransientError
        by (intro failed [where k = "cp_rate_limit_responses s"]) (auto simp: fail_capture_def)
    next
      case more: False
      let ?w = "min (pt_backoff P (Suc n)) (pt_max_wait P)"
      have "request_loop P request key (Suc n) (s\<lparr>cp_requests := cp_requests s + 1, cp_slept := cp_slept s @ [?w]\<rparr>) = (r, s')"
        using run TransientError more by simp
      moreover have "?w \<le> pt_max_wait P" by (rule min.cobounded2)
      ultimately show ?thesis using False more
        by (intro again [where w = ?w and k = "cp_rate_limit_responses s"]) simp_all
    qed
  next
    case (RateLimited x)
    show ?thesis
    proof (cases "pt_max_wait P < retry_wait P x (Suc n) \<or> pt_max_attempts P \<le> Suc n")
      case True
      then show ?thesis using run False RateLimited
        by (intro failed [where k = "cp_rate_limit_responses s + 1"]) (auto simp: fail_capture_def)
    next
      case more: False
      let ?w = "retry_wait P x (Suc n)"
      have "request_loop P request key (Suc n) (s\<lparr>cp_requests := cp_requests s + 1,
          cp_rate_limit_responses := cp_rate_limit_responses s + 1, cp_slept := cp_slept s @ [?w]\<rparr>) = (r, s')"
        using run RateLimited more by simp
      moreover have "?w \<le> pt_max_wait P" using more by (simp add: not_less)
      ultimately show ?thesis using False more
        by (intro again [where w = ?w and k = "cp_rate_limit_responses s + 1"]) simp_all
    qed
  qed
qed

lemma request_loop_effect:
  "request_loop P request key n s = (r, s') \<Longrightarrow> n < pt_max_attempts P \<Longrightarrow> loop_effect P request n s r s'"
proof (induction "pt_max_requests P - cp_requests s" arbitrary: n s rule: less_induct)
  case less
  from less.prems(1) show ?case
  proof (cases rule: request_loop_cases)
    case (again t w k)
    have "loop_effect P request (Suc n) t r s'" by (rule less.hyps) (use again in simp_all)
    then show ?thesis using again unfolding loop_effect_def by (auto split: sum.splits stop.splits)
  qed (use less.prems(2) in \<open>auto simp: loop_effect_def\<close>)
qed

lemma request_loop_cache: "request_loop P request key n s = (r, s') \<Longrightarrow> cp_cache s' = cp_cache s"
proof (induction "pt_max_requests P - cp_requests s" arbitrary: n s rule: less_induct)
  case less
  from less.prems show ?case
  proof (cases rule: request_loop_cases)
    case (again t w k)
    have "cp_cache s' = cp_cache t" by (rule less.hyps [where n = "Suc n"]) (use again in simp_all)
    then show ?thesis using again by simp
  qed simp_all
qed

text \<open>
  The books of a capturer: the budget holds, waits and attempts are bounded, every recorded attempt was
  paid for, and the cache holds accepted responses only, one measurement each.
\<close>

definition attempts_recorded :: "'t capturer \<Rightarrow> nat" where
  "attempts_recorded s = sum_list (map (\<lambda>(k, m). ms_attempts m) (cp_measurements s)) + sum_list (map fl_attempts (cp_failures s))"

definition genuine :: "('f, 'z) float_ops_scheme \<Rightarrow> capture \<Rightarrow> bool" where
  "genuine F c \<longleftrightarrow> model_ok (cap_model c) \<and> (\<exists>options. valid_distribution F (JObj (cap_probabilities c)) options = Inr True)"

definition books_ok :: "('f, 't :: linorder, 'z) provider_scheme \<Rightarrow> 't capturer \<Rightarrow> bool" where
  "books_ok P s \<longleftrightarrow> cp_requests s \<le> pt_max_requests P \<and> (\<forall>w \<in> set (cp_slept s). w \<le> pt_max_wait P) \<and>
     attempts_recorded s \<le> cp_requests s \<and>
     (\<forall>f \<in> set (cp_failures s). fl_attempts f \<le> pt_max_attempts P) \<and>
     (\<forall>(k, m) \<in> set (cp_measurements s). 1 \<le> ms_attempts m \<and> ms_attempts m \<le> pt_max_attempts P) \<and>
     (\<forall>(k, c) \<in> set (cp_cache s). genuine P c) \<and>
     map fst (cp_measurements s) = map fst (cp_cache s) \<and> distinct (map fst (cp_cache s)) \<and>
     cp_cold_calls s = length (cp_cache s)"

lemma jstr_ok_Some: "jstr_ok j = Some m \<Longrightarrow> model_ok m"
  by (cases j) (auto split: if_splits)

lemma valid_distribution_obj: "valid_distribution F j options = Inr True \<Longrightarrow> \<exists>d. j = JObj d"
  by (cases j) auto

text \<open>How accepting a response can end.\<close>

lemma accept_cases:
  assumes "accept_response P tag options parent key (response, n) s = (r, s')"
  obtains (raised) e where "r = Inl (Raised e)" "s' = s"
  | (stopped) e f where "r = Inl e" "s' = s\<lparr>cp_failures := cp_failures s @ [f]\<rparr>" "fl_attempts f = n" "fl_tag f = tag"
      "e = CaptureFailure (fl_kind f) \<or> (\<exists>t. e = CaptureRefused t)"
  | (accepted) c u where "r = Inr c" "genuine P c" "response_field response ''probabilities'' = JObj (cap_probabilities c)"
      "s' = s\<lparr>cp_cold_calls := cp_cold_calls s + 1, cp_cache := AList.update key c (cp_cache s),
             cp_measurements := AList.update key \<lparr>ms_usage = u, ms_attempts = n\<rparr> (cp_measurements s)\<rparr>"
proof (cases "jstr_ok (response_model response)")
  case None
  with assms show ?thesis by (intro stopped) (auto simp: accept_response_def)
next
  case (Some m)
  show ?thesis
  proof (cases "valid_distribution P (response_field response ''probabilities'') options")
    case (Inl e)
    with assms Some show ?thesis by (intro raised) (auto simp: accept_response_def)
  next
    case (Inr b)
    show ?thesis
    proof (cases b)
      case False
      with assms Some Inr show ?thesis by (intro stopped) (auto simp: accept_response_def fail_capture_def)
    next
      case True
      with Inr have v: "valid_distribution P (response_field response ''probabilities'') options = Inr True" by simp
      then obtain d where d: "response_field response ''probabilities'' = JObj d" using valid_distribution_obj by blast
      have "genuine P \<lparr>cap_model = m, cap_probabilities = d\<rparr>"
        using jstr_ok_Some [OF Some] v [unfolded d] by (auto simp: genuine_def simp del: valid_distribution.simps)
      with assms Some Inr True d show ?thesis by (intro accepted) (auto simp: accept_response_def Let_def)
    qed
  qed
qed

text \<open>The cases of one resolution, from a state that keeps its books.\<close>

lemma resolve_cases:
  assumes "resolve P tag options parent key s = (r, s')"
  obtains (hit) c where "map_of (cp_cache s) key = Some c" "r = Inr c" "s' = cache_hit key s"
  | (unanswered) e where "map_of (cp_cache s) key = None"
      "request_loop P \<lparr>rq_tag = tag, rq_options = options, rq_parent = parent\<rparr> key 0 s = (Inl e, s')" "r = Inl e"
  | (answered) response n s1 where "map_of (cp_cache s) key = None"
      "request_loop P \<lparr>rq_tag = tag, rq_options = options, rq_parent = parent\<rparr> key 0 s = (Inr (response, n), s1)"
      "accept_response P tag options parent key (response, n) s1 = (r, s')"
  using assms by (auto simp: resolve_def pbind_def split: option.splits prod.splits sum.splits)

lemma cache_hit_frame:
  "cp_cache (cache_hit key s) = cp_cache s" "cp_measurements (cache_hit key s) = cp_measurements s"
  "cp_failures (cache_hit key s) = cp_failures s" "cp_requests (cache_hit key s) = cp_requests s"
  "cp_slept (cache_hit key s) = cp_slept s" "cp_cold_calls (cache_hit key s) = cp_cold_calls s"
  by (simp_all add: cache_hit_def Let_def)

interpretation cached: evidence "resolve P" cp_cache for P :: "('f, 't :: linorder, 'z) provider_scheme"
proof unfold_locales
  fix tag options parent key s s' and c :: capture
  assume "resolve P tag options parent key s = (Inr c, s')"
  then show "map_of (cp_cache s') key = Some c"
    by (cases rule: resolve_cases) (auto simp: cache_hit_frame update_conv' elim!: accept_cases)
next
  fix tag options parent key s r s'
  assume "resolve P tag options parent key s = (r, s')"
  then show "map_of (cp_cache s) \<subseteq>\<^sub>m map_of (cp_cache s')"
  proof (cases rule: resolve_cases)
    case (hit c)
    then show ?thesis by (simp add: cache_hit_frame)
  next
    case (unanswered e)
    then show ?thesis using request_loop_cache by (metis map_le_refl)
  next
    case (answered response n s1)
    have same: "cp_cache s1 = cp_cache s" by (rule request_loop_cache [OF answered(2)])
    from answered(3) show ?thesis
      by (rule accept_cases) (use answered(1) in \<open>auto simp: same update_conv' map_le_def\<close>)
  qed
qed

section \<open>What a resolution keeps\<close>

lemma books_ok_loop:
  assumes "books_ok P s" and "loop_effect P request 0 s r s'"
  shows "cp_requests s' \<le> pt_max_requests P" and "\<forall>w \<in> set (cp_slept s'). w \<le> pt_max_wait P"
    and "cp_cache s' = cp_cache s" "cp_measurements s' = cp_measurements s" "cp_cold_calls s' = cp_cold_calls s"
  using assms by (auto simp: books_ok_def loop_effect_def)

lemma books_ok_resolve:
  assumes ok: "books_ok P s" and run: "resolve P tag options parent key s = (r, s')" and att: "0 < pt_max_attempts P"
  shows "books_ok P s'"
  using run
proof (cases rule: resolve_cases)
  case (hit c)
  then show ?thesis using ok by (simp add: books_ok_def attempts_recorded_def cache_hit_frame)
next
  case (unanswered e)
  note eff = request_loop_effect [OF unanswered(2) att]
  note frame = books_ok_loop [OF ok eff]
  from eff consider (failed) f where "cp_failures s' = cp_failures s @ [f]" "fl_attempts f \<le> pt_max_attempts P"
      "cp_requests s' = cp_requests s + fl_attempts f"
    | (exhausted) "cp_failures s' = cp_failures s" "cp_requests s \<le> cp_requests s'"
    by (auto simp: loop_effect_def split: stop.splits)
  then show ?thesis using ok frame by cases (auto simp: books_ok_def attempts_recorded_def)
next
  case (answered response n s1)
  note eff = request_loop_effect [OF answered(2) att]
  note frame = books_ok_loop [OF ok eff]
  have n: "cp_failures s1 = cp_failures s" "0 < n" "n \<le> pt_max_attempts P" "cp_requests s1 = cp_requests s + n"
    using eff by (auto simp: loop_effect_def)
  have ok1: "books_ok P s1" using ok frame n by (auto simp: books_ok_def attempts_recorded_def)
  have room: "attempts_recorded s1 + n \<le> cp_requests s1"
    using ok frame n by (auto simp: books_ok_def attempts_recorded_def)
  from answered(3) show ?thesis
  proof (cases rule: accept_cases)
    case (raised e)
    then show ?thesis using ok1 by simp
  next
    case (stopped e f)
    then show ?thesis using ok1 room n by (auto simp: books_ok_def attempts_recorded_def)
  next
    case (accepted c u)
    have new: "key \<notin> set (map fst (cp_cache s1))" using answered(1) frame(3) by (simp add: map_of_eq_None_iff)
    moreover have "map fst (cp_measurements s1) = map fst (cp_cache s1)" using ok1 by (simp add: books_ok_def)
    ultimately have "key \<notin> set (map fst (cp_measurements s1))" by simp
    with new have fresh: "key \<notin> fst ` set (cp_cache s1)" "key \<notin> fst ` set (cp_measurements s1)" by simp_all
    have cache: "cp_cache s' = cp_cache s1 @ [(key, c)]"
      and meas: "cp_measurements s' = cp_measurements s1 @ [(key, \<lparr>ms_usage = u, ms_attempts = n\<rparr>)]"
      and rest: "cp_requests s' = cp_requests s1" "cp_slept s' = cp_slept s1" "cp_failures s' = cp_failures s1"
        "cp_cold_calls s' = cp_cold_calls s1 + 1"
      by (simp_all add: accepted(4) AList_update_new [OF fresh(1)] AList_update_new [OF fresh(2)])
    have paid: "attempts_recorded s' = attempts_recorded s1 + n" by (simp add: attempts_recorded_def meas rest)
    have books: "cp_requests s1 \<le> pt_max_requests P" "\<forall>w \<in> set (cp_slept s1). w \<le> pt_max_wait P"
      "\<forall>f \<in> set (cp_failures s1). fl_attempts f \<le> pt_max_attempts P"
      "\<forall>(k, m) \<in> set (cp_measurements s1). 1 \<le> ms_attempts m \<and> ms_attempts m \<le> pt_max_attempts P"
      "\<forall>(k, c) \<in> set (cp_cache s1). genuine P c" "map fst (cp_measurements s1) = map fst (cp_cache s1)"
      "distinct (map fst (cp_cache s1))" "cp_cold_calls s1 = length (cp_cache s1)"
      using ok1 unfolding books_ok_def by blast+
    show ?thesis
      unfolding books_ok_def paid cache meas rest using books n(2,3) room accepted(2) fresh(1) by simp
  qed
qed

text \<open>A request that fails for good is recorded under its tag; an exhausted budget is spent.\<close>

lemma resolve_failure:
  assumes "resolve P tag options parent key s = (Inl (CaptureFailure k), s')" and "0 < pt_max_attempts P"
  shows "\<exists>f \<in> set (cp_failures s'). fl_tag f = tag \<and> fl_kind f = k"
  using assms(1)
proof (cases rule: resolve_cases)
  case (unanswered e)
  then show ?thesis using request_loop_effect [OF unanswered(2) assms(2)] by (auto simp: loop_effect_def)
next
  case (answered response n s1)
  from answered(3) show ?thesis by (cases rule: accept_cases) auto
qed simp

lemma resolve_exhausted:
  assumes "resolve P tag options parent key s = (Inl BudgetExhausted, s')" and "0 < pt_max_attempts P"
  shows "pt_max_requests P \<le> cp_requests s'"
  using assms(1)
proof (cases rule: resolve_cases)
  case (unanswered e)
  then show ?thesis using request_loop_effect [OF unanswered(2) assms(2)] by (auto simp: loop_effect_def)
next
  case (answered response n s1)
  from answered(3) show ?thesis by (cases rule: accept_cases) auto
qed simp

lemma resolve_extends_failures:
  assumes "resolve P tag options parent key s = (r, s')" and "0 < pt_max_attempts P" and "set fs \<subseteq> set (cp_failures s)"
  shows "set fs \<subseteq> set (cp_failures s')"
  using assms(1)
proof (cases rule: resolve_cases)
  case (hit c)
  then show ?thesis using assms(3) by (simp add: cache_hit_frame)
next
  case (unanswered e)
  then show ?thesis using request_loop_effect [OF unanswered(2) assms(2)] assms(3)
    by (auto simp: loop_effect_def split: stop.splits)
next
  case (answered response n s1)
  have same: "cp_failures s1 = cp_failures s" using request_loop_effect [OF answered(2) assms(2)] by (auto simp: loop_effect_def)
  from answered(3) show ?thesis using assms(3) same by (cases rule: accept_cases) auto
qed

interpretation books: resolver_invariant "resolve P" "\<lambda>s. books_ok P s \<and> 0 < pt_max_attempts P"
  for P :: "('f, 't :: linorder, 'z) provider_scheme"
  by unfold_locales (auto intro: books_ok_resolve)

interpretation failure_log: resolver_invariant "resolve P" "\<lambda>s. set fs \<subseteq> set (cp_failures s) \<and> 0 < pt_max_attempts P"
  for P :: "('f, 't :: linorder, 'z) provider_scheme" and fs
  by unfold_locales (auto dest: resolve_extends_failures)

section \<open>The run\<close>

lemma distinct_tags_facts: "distinct (distinct_tags tags) \<and> set (distinct_tags tags) = set tags"
proof (induction tags rule: rev_induct)
  case (snoc tag tags)
  then show ?case by (auto simp: distinct_tags_def)
qed (simp add: distinct_tags_def)

lemma run_tags_cases:
  assumes "run_tags P digest tx (tag # pending) completed failed s = (r, s')"
  obtains (ok) paths s1 where "capture_tag P digest tx tag s = (Inr paths, s1)"
      "run_tags P digest tx pending (completed @ [tag]) failed s1 = (r, s')"
  | (failed) k s1 where "capture_tag P digest tx tag s = (Inl (CaptureFailure k), s1)"
      "run_tags P digest tx pending completed (failed @ [tag]) s1 = (r, s')"
  | (exhausted) "capture_tag P digest tx tag s = (Inl BudgetExhausted, s')" "r = Inr (completed, failed, tag # pending)"
  | (aborted) e where "capture_tag P digest tx tag s = (Inl e, s')" "r = Inl e"
  using assms by (auto split: prod.splits sum.splits stop.splits)

lemma run_tags_keeps:
  assumes "\<And>s r s' tag. I s \<Longrightarrow> capture_tag P digest tx tag s = (r, s') \<Longrightarrow> I s'"
  shows "run_tags P digest tx pending completed failed s = (r, s') \<Longrightarrow> I s \<Longrightarrow> I s'"
proof (induction pending arbitrary: completed failed s)
  case (Cons tag pending)
  from Cons.prems(1) show ?case
    by (cases rule: run_tags_cases) (use Cons assms in blast)+
qed simp

lemma capture_tag_keeps:
  assumes "capture_tag P digest tx tag s = (r, s')" and "0 < pt_max_attempts P"
  shows "books_ok P s \<Longrightarrow> books_ok P s'" and "set fs \<subseteq> set (cp_failures s) \<Longrightarrow> set fs \<subseteq> set (cp_failures s')"
    and "map_of (cp_cache s) \<subseteq>\<^sub>m map_of (cp_cache s')"
  using books.traverse_keeps [OF assms(1) [unfolded capture_tag_def]] assms(2)
    failure_log.traverse_keeps [OF assms(1) [unfolded capture_tag_def]]
    cached.traverse_grows [OF assms(1) [unfolded capture_tag_def]] by blast+

lemma run_tags_books:
  assumes "run_tags P digest tx pending completed failed s = (r, s')" and "0 < pt_max_attempts P"
  shows "books_ok P s \<Longrightarrow> books_ok P s'" and "set fs \<subseteq> set (cp_failures s) \<Longrightarrow> set fs \<subseteq> set (cp_failures s')"
    and "map_of (cp_cache s) \<subseteq>\<^sub>m map_of (cp_cache s')"
proof -
  note step = capture_tag_keeps [OF _ assms(2), of digest tx]
  show "books_ok P s \<Longrightarrow> books_ok P s'" by (rule run_tags_keeps [OF _ assms(1)]) (use step(1) in blast)+
  show "set fs \<subseteq> set (cp_failures s) \<Longrightarrow> set fs \<subseteq> set (cp_failures s')"
    by (rule run_tags_keeps [OF _ assms(1)]) (use step(2) in blast)+
  show "map_of (cp_cache s) \<subseteq>\<^sub>m map_of (cp_cache s')"
    by (rule run_tags_keeps [OF _ assms(1), of "\<lambda>u. map_of (cp_cache s) \<subseteq>\<^sub>m map_of (cp_cache u)"])
      (use step(3) map_le_trans map_le_refl in blast)+
qed

text \<open>The constructor's bounds are those of the provider, and it starts from empty books.\<close>

lemma new_capturer_Inr:
  "new_capturer env tx m a verify = Inr (key, s) \<Longrightarrow> s = fresh_capturer \<and> 1 \<le> m \<and> 1 \<le> a \<and> key \<noteq> []"
  by (auto simp: new_capturer_def Let_def split: if_splits sum.splits)

lemma books_ok_fresh: "books_ok P fresh_capturer"
  by (simp add: books_ok_def attempts_recorded_def fresh_capturer_def)


text \<open>How the tags of a run are divided: \<open>kept\<close> says which of the tags that were tried succeeded.\<close>

definition replayable :: "('f :: linorder, 't :: linorder, 'z) provider_scheme \<Rightarrow> (bool \<Rightarrow> json \<Rightarrow> string) \<Rightarrow> taxonomy \<Rightarrow> captures \<Rightarrow>
    nat \<Rightarrow> string \<Rightarrow> (string list \<times> 'f) list \<Rightarrow> bool" where
  "replayable P digest tx m width tag paths \<longleftrightarrow>
     traverse P (\<lambda>options path. request_key digest tag options (taxonomy_sha digest tx) path) tag (tx_genres tx) width
       (replay_lookup m) () = (Inr paths, ())"

definition accounted :: "('f :: linorder, 't :: linorder, 'z) provider_scheme \<Rightarrow> (bool \<Rightarrow> json \<Rightarrow> string) \<Rightarrow> taxonomy \<Rightarrow> 't capturer \<Rightarrow>
    (string \<Rightarrow> bool) \<Rightarrow> string \<Rightarrow> bool" where
  "accounted P digest tx s kept t = ((kept t \<longrightarrow> (\<exists>paths. replayable P digest tx (cp_cache s) 3 t paths)) \<and>
       (\<not> kept t \<longrightarrow> (\<exists>f \<in> set (cp_failures s). fl_tag f = t)))"

lemma capture_tag_replayable:
  "capture_tag P digest tx tag s = (Inr paths, s1) \<Longrightarrow> map_of (cp_cache s1) \<subseteq>\<^sub>m map_of m \<Longrightarrow> replayable P digest tx m 3 tag paths"
  unfolding capture_tag_def replayable_def by (rule cached.traverse_replays)

lemma capture_tag_failure:
  assumes "capture_tag P digest tx tag s = (Inl (CaptureFailure k), s1)" and "0 < pt_max_attempts P"
  shows "\<exists>f \<in> set (cp_failures s1). fl_tag f = tag"
proof -
  obtain options path key t where "resolve P tag options path key t = (Inl (CaptureFailure k), s1)"
    using traverse_error [OF assms(1) [unfolded capture_tag_def]] by auto
  from resolve_failure [OF this assms(2)] show ?thesis by blast
qed

lemma capture_tag_exhausted:
  assumes "capture_tag P digest tx tag s = (Inl BudgetExhausted, s1)" and "0 < pt_max_attempts P"
  shows "pt_max_requests P \<le> cp_requests s1"
proof -
  obtain options path key t where "resolve P tag options path key t = (Inl BudgetExhausted, s1)"
    using traverse_error [OF assms(1) [unfolded capture_tag_def]] by auto
  from resolve_exhausted [OF this assms(2)] show ?thesis .
qed

lemma run_tags_accounts:
  assumes "run_tags P digest tx pending completed failed s = (Inr (completed', failed', skipped), s')" and att: "0 < pt_max_attempts P"
    and "distinct pending"
  shows "\<exists>tried kept. pending = tried @ skipped \<and> completed' = completed @ filter kept tried \<and>
    failed' = failed @ filter (\<lambda>t. \<not> kept t) tried \<and> (skipped \<noteq> [] \<longrightarrow> pt_max_requests P \<le> cp_requests s') \<and>
    (\<forall>t \<in> set tried. accounted P digest tx s' kept t)"
  using assms(1,3)
proof (induction pending arbitrary: completed failed s)
  case Nil
  then show ?case by (intro exI [of _ "[]"]) simp
next
  case (Cons tag pending)
  have extend: "\<exists>tried kept. tag # pending = tried @ skipped \<and> completed' = completed @ filter kept tried \<and>
      failed' = failed @ filter (\<lambda>t. \<not> kept t) tried \<and> (skipped \<noteq> [] \<longrightarrow> pt_max_requests P \<le> cp_requests s') \<and>
      (\<forall>t \<in> set tried. accounted P digest tx s' kept t)"
    if run: "run_tags P digest tx pending (if b then completed @ [tag] else completed) (if b then failed else failed @ [tag]) s1 =
        (Inr (completed', failed', skipped), s')"
      and this_tag: "accounted P digest tx s' (\<lambda>_. b) tag" for b s1
  proof -
    from Cons.IH [OF run] Cons.prems(2) obtain tried kept where IH: "pending = tried @ skipped"
      "completed' = (if b then completed @ [tag] else completed) @ filter kept tried"
      "failed' = (if b then failed else failed @ [tag]) @ filter (\<lambda>t. \<not> kept t) tried"
      "skipped \<noteq> [] \<longrightarrow> pt_max_requests P \<le> cp_requests s'" "\<forall>t \<in> set tried. accounted P digest tx s' kept t" by auto
    let ?kept = "kept(tag := b)"
    have "tag \<notin> set tried" using Cons.prems(2) IH(1) by auto
    then have same: "filter ?kept tried = filter kept tried" "filter (\<lambda>t. \<not> ?kept t) tried = filter (\<lambda>t. \<not> kept t) tried"
      "\<forall>t \<in> set tried. accounted P digest tx s' ?kept t"
      using IH(5) by (auto intro!: filter_cong simp: accounted_def split: if_splits)
    have "accounted P digest tx s' ?kept tag" using this_tag by (simp add: accounted_def)
    with same IH(1-4) show ?thesis by (intro exI [of _ "tag # tried"] exI [of _ ?kept]) auto
  qed
  from Cons.prems(1) show ?case
  proof (cases rule: run_tags_cases)
    case (ok paths s1)
    have "replayable P digest tx (cp_cache s') 3 tag paths"
      by (rule capture_tag_replayable [OF ok(1) run_tags_books(3) [OF ok(2) att]])
    then show ?thesis using ok(2) by (intro extend [where b = True]) (auto simp: accounted_def)
  next
    case (failed k s1)
    from capture_tag_failure [OF failed(1) att] obtain f where f: "f \<in> set (cp_failures s1)" "fl_tag f = tag" by blast
    then have "set [f] \<subseteq> set (cp_failures s')" by (intro run_tags_books(2) [OF failed(2) att]) simp
    with f(2) show ?thesis using failed(2) by (intro extend [where b = False]) (auto simp: accounted_def)
  next
    case exhausted
    have "pt_max_requests P \<le> cp_requests s'" by (rule capture_tag_exhausted [OF exhausted(1) att])
    with exhausted(2) show ?thesis by (intro exI [of _ "[]"]) simp
  qed simp
qed

text \<open>C34: A run accounts for every tag and leaves evidence for each completed one. The distinct tags, in order of appearance,
  are those tried followed by the skipped ones; the completed and the failed tags divide the tried ones, in order; a tag is
  skipped only when the whole budget is spent and every failed tag has a recorded failure. From the captures of the
  finished run alone the beam search of a completed tag succeeds, with at most three paths, all of them paths of the
  taxonomy, and so does the greedy descent the evaluation compares it with.\<close>

theorem capture_run_accounts_for_every_tag:
  assumes "new_capturer env taxonomy (int (pt_max_requests P)) (int (pt_max_attempts P)) verify = Inr (pt_key P, s)"
    and "capture_run P digest taxonomy tags s = (Inr (completed, failed, skipped), s')"
  shows "(\<exists>tried. distinct_tags tags = tried @ skipped \<and> completed = filter (\<lambda>t. t \<in> set completed) tried \<and>
      failed = filter (\<lambda>t. t \<notin> set completed) tried) \<and> set completed \<union> set failed \<union> set skipped = set tags \<and>
    (skipped \<noteq> [] \<longrightarrow> cp_requests s' = pt_max_requests P) \<and>
    (\<forall>t \<in> set failed. \<exists>f \<in> set (cp_failures s'). fl_tag f = t) \<and>
    (\<forall>t \<in> set completed. \<exists>beam greedy. replayable P digest taxonomy (cp_cache s') 3 t beam \<and>
       replayable P digest taxonomy (cp_cache s') 1 t greedy \<and> length beam \<le> 3 \<and>
       (\<forall>q \<in> set (beam @ greedy). taxonomy_path (tx_genres taxonomy) (fst q)))"
proof -
  have att: "s = fresh_capturer" "0 < pt_max_attempts P" using new_capturer_Inr [OF assms(1)] by simp_all
  note run = assms(2) [unfolded capture_run_def]
  have "books_ok P s'" using run_tags_books(1) [OF run att(2)] books_ok_fresh [of P] att(1) by blast
  then have budget: "cp_requests s' \<le> pt_max_requests P" by (simp add: books_ok_def)
  have d: "distinct (distinct_tags tags)" "set (distinct_tags tags) = set tags" using distinct_tags_facts by blast+
  from run_tags_accounts [OF run att(2) d(1)] obtain tried kept where split: "distinct_tags tags = tried @ skipped"
    "completed = filter kept tried" "failed = filter (\<lambda>t. \<not> kept t) tried"
    and spent: "skipped \<noteq> [] \<longrightarrow> pt_max_requests P \<le> cp_requests s'"
    and each: "\<forall>t \<in> set tried. accounted P digest taxonomy s' kept t" by auto
  have "filter (\<lambda>t. t \<in> set completed) tried = filter kept tried" "filter (\<lambda>t. t \<notin> set completed) tried = filter (\<lambda>t. \<not> kept t) tried"
    by (auto simp: split(2) intro!: filter_cong)
  with split have parts: "\<exists>tried. distinct_tags tags = tried @ skipped \<and> completed = filter (\<lambda>t. t \<in> set completed) tried \<and>
      failed = filter (\<lambda>t. t \<notin> set completed) tried" by metis
  have "set completed \<union> set failed \<union> set skipped = set (tried @ skipped)" by (auto simp: split(2,3))
  then have cover: "set completed \<union> set failed \<union> set skipped = set tags" using d(2) split(1) by simp
  have fails: "\<forall>t \<in> set failed. \<exists>f \<in> set (cp_failures s'). fl_tag f = t"
    using each by (auto simp: split(3) accounted_def)
  have "\<exists>beam greedy. replayable P digest taxonomy (cp_cache s') 3 t beam \<and>
       replayable P digest taxonomy (cp_cache s') 1 t greedy \<and> length beam \<le> 3 \<and>
       (\<forall>q \<in> set (beam @ greedy). taxonomy_path (tx_genres taxonomy) (fst q))" if t: "t \<in> set completed" for t
  proof -
    from t each obtain beam where beam: "replayable P digest taxonomy (cp_cache s') 3 t beam"
      by (auto simp: split(2) accounted_def)
    from greedy_from_beam [OF beam [unfolded replayable_def]] obtain greedy
      where greedy: "replayable P digest taxonomy (cp_cache s') 1 t greedy" unfolding replayable_def by blast
    from traverse_paths [OF beam [unfolded replayable_def]] traverse_paths [OF greedy [unfolded replayable_def]]
    have "length beam \<le> 3 \<and> (\<forall>q \<in> set (beam @ greedy). taxonomy_path (tx_genres taxonomy) (fst q))" by auto
    with beam greedy show ?thesis by blast
  qed
  with parts cover fails spent budget show ?thesis by auto
qed

text \<open>A concrete run: one genre, one accepted response, and a tag that is left when the budget of one request is spent.\<close>

definition sample_provider :: "(int, int) provider" where
  "sample_provider = \<lparr>fp_unit = \<lambda>_. Inr True, fp_sum_is_one = \<lambda>_. True, fp_is_zero = \<lambda>p. p = JInt 0, fp_log = \<lambda>_. 0,
     fp_zero = 0, fp_one = 1, fp_add = (+), fp_div = \<lambda>x n. x, fp_neg = uminus, fp_exp = \<lambda>_. 1,
     pt_key = ''secret'',
     pt_answer = \<lambda>_ _. Response (JObj [(''model'', JStr ''jev-1.12''),
       (''probabilities'', JObj [(''Rock'', JInt 1), (''__NONE__'', JInt 0)])]),
     pt_max_requests = 1, pt_max_attempts = 4, pt_max_wait = 60, pt_num = \<lambda>_. 0, pt_zero = 0,
     pt_backoff = int, pt_str = int_str\<rparr>"

definition sample_taxonomy :: taxonomy where
  "sample_taxonomy = \<lparr>tx_json = JNull, tx_genres = [(''Rock'', [])], tx_provenance = JStr ''export''\<rparr>"

definition tag_digest :: "bool \<Rightarrow> json \<Rightarrow> string" where
  "tag_digest ascii j = (case j of JObj d \<Rightarrow> py_str (dget d ''tag'') | _ \<Rightarrow> [])"

lemma sample_new_capturer:
  "new_capturer [''TYPESAFE_API_KEY'' \<mapsto> ''secret''] sample_taxonomy (int (pt_max_requests sample_provider))
     (int (pt_max_attempts sample_provider)) (\<lambda>_ _. Inr (JStr ''jev-1.12'')) = Inr (pt_key sample_provider, fresh_capturer)"
  by (simp add: new_capturer_def sample_provider_def sample_taxonomy_def KEY_ENV_def py_strip_def drop_spaces.simps ascii_space_def space2_def space3_def model_ok_def MODEL_def)

lemma sample_run:
  "\<exists>s'. capture_run sample_provider tag_digest sample_taxonomy [''rock'', ''rock'', ''metal''] fresh_capturer =
     (Inr ([''rock''], [], [''metal'']), s')"
  by (simp add: capture_run_def distinct_tags_def capture_tag_def traverse_def level_def expand_def pbind_def plift_def
    sample_taxonomy_def NONE_def GENRE_ONLY_def resolve_def request_loop.simps fresh_capturer_def sample_provider_def
    accept_response_def model_ok_def MODEL_def dkeys_def dvalues_def check_capture_def branch_def best_def
    request_key_def tag_digest_def taxonomy_sha_def py_str_def cache_hit_def Let_def)


lemma capture_run_accounts_for_every_tag_witness:
  "\<exists>s'. capture_run sample_provider tag_digest sample_taxonomy [''rock'', ''rock'', ''metal''] fresh_capturer =
     (Inr ([''rock''], [], [''metal'']), s') \<and> cp_requests s' = 1 \<and>
     (\<exists>greedy. replayable sample_provider tag_digest sample_taxonomy (cp_cache s') 1 ''rock'' greedy)"
proof -
  from sample_run obtain s' where run: "capture_run sample_provider tag_digest sample_taxonomy [''rock'', ''rock'', ''metal''] fresh_capturer =
     (Inr ([''rock''], [], [''metal'']), s')" by blast
  from capture_run_accounts_for_every_tag [OF sample_new_capturer run] run show ?thesis
    by (intro exI [of _ s']) (auto simp: sample_provider_def)
qed

end
