(* ===== verification/EvaluateProperties.thy ===== *)
theory EvaluateProperties
  imports Evaluate CaptureProperties
begin

text \<open>
  Properties of the labelled replay: what a report rests on, how the threshold sweep divides the sample,
  and that the captures of a finished run are evidence enough for it.
\<close>

section \<open>What a report rests on\<close>

lemma check_label_Inr:
  "check_label tree row = Inr u \<longleftrightarrow> truthy (lb_reviewed_by row) \<and> truthy (lb_reviewed_at row) \<and> truthy (lb_source row) \<and>
     lb_accepted_paths row \<noteq> [] \<and> (\<forall>path \<in> set (lb_accepted_paths row). target_ok tree path)"
  by (auto simp: check_label_def)

lemma evaluate_Inr:
  assumes "evaluate F E digest b = Inr r"
  obtains js where "truthy (tx_provenance (bn_taxonomy b))" "clean_taxonomy (tx_genres (bn_taxonomy b))"
    "bn_labels b \<noteq> []" "distinct (map lb_tag (bn_labels b))"
    "list_all2 (\<lambda>row j. judge F E digest b (digest True (tx_json (bn_taxonomy b))) row = Inr j) (bn_labels b) js"
    "r = \<lparr>ev_sample_size = length (bn_labels b),
          ev_accuracy = map (\<lambda>m. (m, length (filter (correct_by m) (zip (bn_labels b) js)))) METHODS,
          ev_threshold_sweep = map (\<lambda>t. sweep_at (map sweep_row (zip (bn_labels b) js)) (eo_literal E t)) THRESHOLDS\<rparr>"
proof -
  let ?J = "judge F E digest b (digest True (tx_json (bn_taxonomy b)))"
  from assms obtain js where js: "rmap ?J (bn_labels b) = Inr js" and ok: "truthy (tx_provenance (bn_taxonomy b))"
    "clean_taxonomy (tx_genres (bn_taxonomy b))" "bn_labels b \<noteq> []" "length (remdups (map lb_tag (bn_labels b))) = length (bn_labels b)"
    by (auto simp: evaluate_def Let_def rfold_judge res_simps split: if_splits)
  have all: "list_all2 (\<lambda>row j. ?J row = Inr j) (bn_labels b) js" using js by (simp add: rmap_Inr_iff)
  then have "\<forall>(row, ps, sep) \<in> set (zip (bn_labels b) js). map fst ps = METHODS"
    by (fastforce simp: list_all2_iff dest: judge_methods)
  note counts = fold_tally [OF this, of "[]" "[]"]
  let ?f = "fold (\<lambda>(row, j). tally_label row j) (zip (bn_labels b) js) ([], [])"
  from assms ok js have "r = \<lparr>ev_sample_size = length (bn_labels b),
      ev_accuracy = map (\<lambda>m. (m, case map_of (fst ?f) m of None \<Rightarrow> 0 | Some n \<Rightarrow> n)) METHODS,
      ev_threshold_sweep = map (\<lambda>t. sweep_at (snd ?f) (eo_literal E t)) THRESHOLDS\<rparr>"
    by (simp add: evaluate_def Let_def rfold_judge case_prod_beta)
  then have "r = \<lparr>ev_sample_size = length (bn_labels b),
          ev_accuracy = map (\<lambda>m. (m, length (filter (correct_by m) (zip (bn_labels b) js)))) METHODS,
          ev_threshold_sweep = map (\<lambda>t. sweep_at (map sweep_row (zip (bn_labels b) js)) (eo_literal E t)) THRESHOLDS\<rparr>"
    using counts by simp
  moreover have "distinct (map lb_tag (bn_labels b))" using ok(4) by (metis length_map length_remdups_eq remdups_id_iff_distinct)
  ultimately show ?thesis using ok all that by blast
qed

text \<open>The end of a descent is a target a reviewer could have named, unless a genre is called like the option for no style.\<close>

lemma leaf_target:
  assumes "taxonomy_path tree path" and "GENRE_ONLY \<notin> fst ` set tree" shows "target_ok tree (leaf path)"
proof (cases "path = [NONE]")
  case True
  then show ?thesis by (simp add: leaf_def)
next
  case False
  with assms(1) obtain g styles x where path: "path = [g, x]" and g: "map_of tree g = Some styles"
    and x: "x = GENRE_ONLY \<or> x \<in> set styles" by (auto simp: taxonomy_path_def)
  have "g \<noteq> GENRE_ONLY" using g assms(2) by (force dest: map_of_SomeD)
  with x g False show ?thesis by (cases "x = GENRE_ONLY") (auto simp: path leaf_def)
qed

lemma replay_Inr:
  "replay F digest tree m sha tag width = Inr paths \<longleftrightarrow>
     traverse F (\<lambda>options path. request_key digest tag options sha path) tag tree width (replay_lookup m) () = (Inr paths, ())"
  by (auto simp: replay_def prod_eq_iff split: sum.splits stop.splits)

lemma replay_targets:
  assumes "replay F digest tree m sha tag width = Inr paths" and "GENRE_ONLY \<notin> fst ` set tree" and "q \<in> set paths"
  shows "target_ok tree (leaf (fst q))"
  using traverse_paths [OF assms(1) [unfolded replay_Inr]] assms(3) leaf_target [OF _ assms(2)] by auto

lemma py_first_Inr: "py_first xs = Inr x \<longleftrightarrow> (\<exists>ys. xs = x # ys)"
  by (cases xs) auto

text \<open>What one judgement says.\<close>

lemma judge_Inr:
  assumes "judge F E digest b sha row = Inr (ps, sep)"
  obtains greedy beam flat where
    "check_label (tx_genres (bn_taxonomy b)) row = Inr ()"
    "replay F digest (tx_genres (bn_taxonomy b)) (bn_captures b) sha (lb_tag row) 1 = Inr greedy"
    "replay F digest (tx_genres (bn_taxonomy b)) (bn_captures b) sha (lb_tag row) 3 = Inr beam"
    "check_flat (bn_flat_claude b) (lb_tag row) = Inr flat" "greedy \<noteq> []" "beam \<noteq> []"
    "separation E beam = Inr sep"
    "ps = [(''greedy'', Some (leaf (fst (hd greedy)))), (''beam_k3'', Some (leaf (fst (hd beam)))), (''flat_claude'', fc_path flat),
       (''string_match'', string_path (eo_casefold E) (tx_genres (bn_taxonomy b)) (lb_tag row))]"
  using assms by (auto simp: judge_def Let_def res_simps py_first_Inr)

lemma string_path_target:
  assumes "string_path casefold tree tag = Some path" and "distinct (dkeys tree)"
  shows "target_ok tree path"
proof -
  have one: "string_matches casefold tree tag = [path]"
    using assms(1) by (auto simp: string_path_def split: list.splits)
  then have "path \<in> set (string_matches casefold tree tag)" by simp
  then show ?thesis
    using assms(2) by (auto simp: string_matches_def dkeys_def map_of_eq_None_iff)
qed

lemma beam_correct: "correct_by ''beam_k3'' = snd \<circ> sweep_row"
  by (auto simp: sweep_row_def correct_by_def fun_eq_iff)

text \<open>One threshold divides the rows, and thresholds compare.\<close>

lemma sweep_at_divides:
  "sw_accepted (sweep_at rows t) + sw_review (sweep_at rows t) = length rows"
  "sw_accepted_errors (sweep_at rows t) \<le> sw_accepted (sweep_at rows t)"
  "sw_accepted (sweep_at rows t) \<le> sw_accepted_errors (sweep_at rows t) + length (filter snd rows)"
  "sw_accepted_errors (sweep_at rows t) + length (filter snd rows) \<le> length rows"
  by (induction rows) (auto simp: sweep_at_def accepts_def reviews_def split: option.splits)

lemma sweep_at_threshold [simp]: "sw_threshold (sweep_at rows t) = t"
  by (simp add: sweep_at_def)

lemma sweep_at_monotone:
  assumes "t \<le> u"
  shows "sw_accepted (sweep_at rows u) \<le> sw_accepted (sweep_at rows t) \<and>
    sw_accepted_errors (sweep_at rows u) \<le> sw_accepted_errors (sweep_at rows t) \<and>
    sw_review (sweep_at rows t) \<le> sw_review (sweep_at rows u)"
  using assms by (induction rows) (auto simp: sweep_at_def accepts_def reviews_def split: option.splits)

text \<open>C36: A report rests on reviewed evidence. It exists only for a taxonomy with provenance and without reserved or duplicate
  labels and a nonempty sample of distinct tags; every label names its reviewer, its date and its source and only positions
  of the taxonomy as targets, and every flat prediction is a sourced one of a Claude model. Each accuracy is the exact
  number of labels whose prediction by that method is accepted, and the greedy, beam and string predictions are positions of
  the taxonomy a reviewer could have named (when no genre has the reserved name of the option for no style).\<close>

theorem evaluation_rests_on_reviewed_evidence:
  assumes "evaluate F E digest b = Inr r" and "tree = tx_genres (bn_taxonomy b)"
    and "distinct (dkeys tree)" and "GENRE_ONLY \<notin> set (dkeys tree)"
  shows "truthy (tx_provenance (bn_taxonomy b)) \<and> clean_taxonomy tree \<and> bn_labels b \<noteq> [] \<and> distinct (map lb_tag (bn_labels b)) \<and>
    ev_sample_size r = length (bn_labels b) \<and>
    (\<forall>row \<in> set (bn_labels b). truthy (lb_reviewed_by row) \<and> truthy (lb_reviewed_at row) \<and> truthy (lb_source row) \<and>
       lb_accepted_paths row \<noteq> [] \<and> (\<forall>path \<in> set (lb_accepted_paths row). target_ok tree path) \<and>
       (\<exists>flat. map_of (bn_flat_claude b) (lb_tag row) = Some flat \<and> claude_model (fc_model flat) = Inr True \<and>
          truthy (fc_capture_source flat))) \<and>
    (\<exists>js. list_all2 (\<lambda>row j. judge F E digest b (digest True (tx_json (bn_taxonomy b))) row = Inr j) (bn_labels b) js \<and>
       ev_accuracy r = map (\<lambda>m. (m, length (filter (correct_by m) (zip (bn_labels b) js)))) METHODS \<and>
       (\<forall>(ps, sep) \<in> set js. \<forall>m \<in> {''greedy'', ''beam_k3'', ''string_match''}. \<forall>path.
          map_of ps m = Some (Some path) \<longrightarrow> target_ok tree path))"
proof -
  let ?sha = "digest True (tx_json (bn_taxonomy b))"
  from assms(1) obtain js where ok: "truthy (tx_provenance (bn_taxonomy b))" "clean_taxonomy tree" "bn_labels b \<noteq> []"
      "distinct (map lb_tag (bn_labels b))"
    and js: "list_all2 (\<lambda>row j. judge F E digest b ?sha row = Inr j) (bn_labels b) js"
    and r: "ev_sample_size r = length (bn_labels b)"
      "ev_accuracy r = map (\<lambda>m. (m, length (filter (correct_by m) (zip (bn_labels b) js)))) METHODS"
    by (rule evaluate_Inr) (simp add: assms(2))
  have keys: "GENRE_ONLY \<notin> fst ` set tree" using assms(4) by (simp add: dkeys_def)
  have flat: "\<exists>flat. map_of (bn_flat_claude b) (lb_tag row) = Some flat \<and> claude_model (fc_model flat) = Inr True \<and> truthy (fc_capture_source flat)"
    if "check_flat (bn_flat_claude b) (lb_tag row) = Inr f" for row f
    using that by (auto simp: check_flat_def res_simps split: option.splits if_splits)
  have row: "truthy (lb_reviewed_by row) \<and> truthy (lb_reviewed_at row) \<and> truthy (lb_source row) \<and>
       lb_accepted_paths row \<noteq> [] \<and> (\<forall>path \<in> set (lb_accepted_paths row). target_ok tree path) \<and>
       (\<exists>flat. map_of (bn_flat_claude b) (lb_tag row) = Some flat \<and> claude_model (fc_model flat) = Inr True \<and>
          truthy (fc_capture_source flat))" if member: "row \<in> set (bn_labels b)" for row
  proof -
    obtain ps sep where "judge F E digest b ?sha row = Inr (ps, sep)" using list_all2_left [OF js member] by auto
    then show ?thesis
      by (rule judge_Inr) (use flat assms(2) check_label_Inr in blast)
  qed
  have target: "target_ok tree path" if j: "(ps, sep) \<in> set js" and m: "m \<in> {''greedy'', ''beam_k3'', ''string_match''}"
    and p: "map_of ps m = Some (Some path)" for ps sep m path
  proof -
    obtain row where "judge F E digest b ?sha row = Inr (ps, sep)" using list_all2_right [OF js j] by auto
    then show ?thesis
    proof (rule judge_Inr)
      fix greedy beam flat
      assume g: "replay F digest (tx_genres (bn_taxonomy b)) (bn_captures b) ?sha (lb_tag row) 1 = Inr greedy" "greedy \<noteq> []"
        and t: "replay F digest (tx_genres (bn_taxonomy b)) (bn_captures b) ?sha (lb_tag row) 3 = Inr beam" "beam \<noteq> []"
        and ps: "ps = [(''greedy'', Some (leaf (fst (hd greedy)))), (''beam_k3'', Some (leaf (fst (hd beam)))), (''flat_claude'', fc_path flat),
          (''string_match'', string_path (eo_casefold E) (tx_genres (bn_taxonomy b)) (lb_tag row))]"
      from replay_targets [OF g(1) keys [unfolded assms(2)] hd_in_set [OF g(2)]]
        replay_targets [OF t(1) keys [unfolded assms(2)] hd_in_set [OF t(2)]]
      show ?thesis using m p string_path_target [OF _ assms(3)] by (auto simp: ps assms(2))
    qed
  qed
  from ok r row js target show ?thesis by blast
qed

text \<open>The threshold sweep divides the sample: at each threshold every label is either accepted automatically or sent to
  review, and an error is an accepted label whose beam prediction is wrong, so errors and correct beam predictions together
  never exceed the sample. A higher threshold accepts fewer labels, makes fewer errors and sends more to review.\<close>

theorem threshold_sweep_divides_sample:
  assumes "evaluate F E digest b = Inr r"
  shows "map sw_threshold (ev_threshold_sweep r) = map (eo_literal E) THRESHOLDS \<and>
    (\<forall>e \<in> set (ev_threshold_sweep r). sw_accepted e + sw_review e = ev_sample_size r \<and>
       sw_accepted_errors e \<le> sw_accepted e \<and>
       sw_accepted e \<le> sw_accepted_errors e + the (map_of (ev_accuracy r) ''beam_k3'') \<and>
       sw_accepted_errors e + the (map_of (ev_accuracy r) ''beam_k3'') \<le> ev_sample_size r) \<and>
    (\<forall>e \<in> set (ev_threshold_sweep r). \<forall>f \<in> set (ev_threshold_sweep r). sw_threshold e \<le> sw_threshold f \<longrightarrow>
       sw_accepted f \<le> sw_accepted e \<and> sw_accepted_errors f \<le> sw_accepted_errors e \<and> sw_review e \<le> sw_review f)"
proof -
  obtain js where js: "length (bn_labels b) = length js" and r: "r = \<lparr>ev_sample_size = length (bn_labels b),
          ev_accuracy = map (\<lambda>m. (m, length (filter (correct_by m) (zip (bn_labels b) js)))) METHODS,
          ev_threshold_sweep = map (\<lambda>t. sweep_at (map sweep_row (zip (bn_labels b) js)) (eo_literal E t)) THRESHOLDS\<rparr>"
    using assms by (rule evaluate_Inr) (blast dest: list_all2_lengthD)
  let ?rows = "map sweep_row (zip (bn_labels b) js)"
  have beam: "the (map_of (ev_accuracy r) ''beam_k3'') = length (filter snd ?rows)"
    by (simp add: r METHODS_def filter_map beam_correct)
  have n: "ev_sample_size r = length ?rows" by (simp add: r js)
  have sweep: "ev_threshold_sweep r = map (\<lambda>t. sweep_at ?rows (eo_literal E t)) THRESHOLDS" by (simp add: r)
  have "map sw_threshold (ev_threshold_sweep r) = map (eo_literal E) THRESHOLDS" unfolding sweep by (simp add: comp_def)
  moreover have "sw_accepted e + sw_review e = ev_sample_size r \<and> sw_accepted_errors e \<le> sw_accepted e \<and>
       sw_accepted e \<le> sw_accepted_errors e + the (map_of (ev_accuracy r) ''beam_k3'') \<and>
       sw_accepted_errors e + the (map_of (ev_accuracy r) ''beam_k3'') \<le> ev_sample_size r" if "e \<in> set (ev_threshold_sweep r)" for e
    using that sweep_at_divides [of ?rows] unfolding sweep beam n by auto
  moreover have "sw_accepted f \<le> sw_accepted e \<and> sw_accepted_errors f \<le> sw_accepted_errors e \<and> sw_review e \<le> sw_review f"
    if "e \<in> set (ev_threshold_sweep r)" "f \<in> set (ev_threshold_sweep r)" "sw_threshold e \<le> sw_threshold f" for e f
    using that sweep_at_monotone [of _ _ ?rows] unfolding sweep by auto
  ultimately show ?thesis by blast
qed


section \<open>A finished run is evidence enough\<close>

text \<open>What the evaluation relies on: a response is a dict, values that sum to one are not all zero, and a quotient
  of two floats raises only for a zero divisor.\<close>

definition dict_responses :: "('f, 't, 'z) provider_scheme \<Rightarrow> bool" where
  "dict_responses P \<longleftrightarrow> (\<forall>n request r d. pt_answer P n request = Response r \<longrightarrow>
     response_field r ''probabilities'' = JObj d \<longrightarrow> distinct (dkeys d))"

definition sums_are_positive :: "('f, 'z) float_ops_scheme \<Rightarrow> bool" where
  "sums_are_positive F \<longleftrightarrow> (\<forall>d. fp_sum_is_one F (dvalues d) \<longrightarrow> (\<exists>(k, v) \<in> set (d :: obj). \<not> fp_is_zero F v))"

definition quotients_raise_on_zero :: "('f, 'y) evaluation_ops_scheme \<Rightarrow> bool" where
  "quotients_raise_on_zero E \<longleftrightarrow> (\<forall>x y e. eo_ratio E x y = Inl e \<longrightarrow> e = ZeroDivisionError)"

definition dict_captures :: "captures \<Rightarrow> bool" where
  "dict_captures m \<longleftrightarrow> (\<forall>(k, c) \<in> set m. distinct (dkeys (cap_probabilities c)))"

lemma request_loop_response:
  "request_loop P request key n s = (Inr (r, a), s') \<Longrightarrow> \<exists>k. pt_answer P k request = Response r"
proof (induction "pt_max_requests P - cp_requests s" arbitrary: n s rule: less_induct)
  case less
  from less.prems show ?case
  proof (cases rule: request_loop_cases)
    case (again t w k)
    show ?thesis by (rule less.hyps [where n = "Suc n" and s = t]) (use again in simp_all)
  qed auto
qed

lemma dict_captures_update: "dict_captures m \<Longrightarrow> distinct (dkeys (cap_probabilities c)) \<Longrightarrow> dict_captures (AList.update k c m)"
  by (induction m) (auto simp: dict_captures_def)

lemma dict_captures_resolve:
  assumes "dict_captures (cp_cache s)" and "resolve P tag options parent key s = (r, s')" and "dict_responses P"
  shows "dict_captures (cp_cache s')"
  using assms(2)
proof (cases rule: resolve_cases)
  case (hit c)
  then show ?thesis using assms(1) by (simp add: cache_hit_frame)
next
  case (unanswered e)
  then show ?thesis using request_loop_cache assms(1) by metis
next
  case (answered response n s1)
  from request_loop_response [OF answered(2)] obtain k where
    k: "pt_answer P k \<lparr>rq_tag = tag, rq_options = options, rq_parent = parent\<rparr> = Response response" by blast
  have same: "cp_cache s1 = cp_cache s" by (rule request_loop_cache [OF answered(2)])
  from answered(3) show ?thesis
  proof (cases rule: accept_cases)
    case (accepted c u)
    then have "distinct (dkeys (cap_probabilities c))" using assms(3) k by (auto simp: dict_responses_def)
    then show ?thesis using accepted(4) assms(1) by (simp add: same dict_captures_update)
  qed (use assms(1) same in simp_all)
qed

interpretation dict_log: resolver_invariant "resolve P" "\<lambda>s. dict_captures (cp_cache s) \<and> dict_responses P"
  for P :: "('f, 't :: linorder, 'z) provider_scheme"
  by unfold_locales (auto dest: dict_captures_resolve)

lemma run_tags_dict:
  assumes "run_tags P digest tx pending completed failed s = (r, s')" and "dict_responses P" and "dict_captures (cp_cache s)"
  shows "dict_captures (cp_cache s')"
proof -
  have "dict_captures (cp_cache s')" if "dict_captures (cp_cache s)" "capture_tag P digest tx tag s = (r, s')" for s r s' tag
    using dict_log.traverse_keeps [OF that(2) [unfolded capture_tag_def]] that(1) assms(2) by blast
  from run_tags_keeps [where I = "\<lambda>s. dict_captures (cp_cache s)", OF this assms(1,3)] show ?thesis .
qed

text \<open>With such captures a descent ends somewhere.\<close>

lemma branch_nonempty:
  assumes "check_capture F options c = Inr ()" and "distinct (dkeys (cap_probabilities c))" and "sums_are_positive F"
  shows "branch F options cand c \<noteq> []"
proof -
  let ?d = "cap_probabilities c"
  from assms(1) have keys: "set (dkeys ?d) = set options" and one: "fp_sum_is_one F (dvalues ?d)"
    by (auto simp: check_capture_def Let_def res_simps split: if_splits)
  from one assms(3) obtain k v where kv: "(k, v) \<in> set ?d" "\<not> fp_is_zero F v" unfolding sums_are_positive_def by blast
  then have "dget ?d k = v" using assms(2) by (simp add: dget_def dkeys_def)
  moreover have "k \<in> set options" using kv(1) keys by (force simp: dkeys_def)
  ultimately show ?thesis using kv(2) by (cases cand) (auto simp: branch_def filter_empty_conv)
qed

lemma expand_nonempty:
  assumes "expand F key_of tag tree (replay_lookup m) cand u = (Inr xs, u')" and "dict_captures m" and "sums_are_positive F"
  shows "xs \<noteq> []"
proof -
  obtain path l d where cand: "cand = (path, l, d)" by (cases cand)
  have nb: "branch F options cand c \<noteq> []" if "check_capture F options c = Inr ()" "map_of m key = Some c" for options key c
    by (rule branch_nonempty [OF that(1) _ assms(3)]) (use map_of_SomeD [OF that(2)] assms(2) in \<open>auto simp: dict_captures_def\<close>)
  from assms(1) obtain options where "children tree path = Inr options" by (auto simp: cand expand_def pbind_Inr plift_Inr)
  note run = assms(1) [unfolded cand expand_def, simplified, unfolded pbind_Inr plift_Inr this]
  show ?thesis
  proof (cases options rule: list.exhaust)
    case Nil
    with run show ?thesis by auto
  next
    case (Cons x rest)
    with run show ?thesis
      by (cases rest) (auto simp: pbind_Inr plift_Inr replay_lookup_def split: option.splits dest: nb [unfolded cand])
  qed
qed

lemma pconcat_nonempty:
  "pconcat f xs s = (Inr ys, s') \<Longrightarrow> xs \<noteq> [] \<Longrightarrow> (\<And>x t zs t'. f x t = (Inr zs, t') \<Longrightarrow> zs \<noteq> []) \<Longrightarrow> ys \<noteq> []"
  by (cases xs) (auto simp: pbind_Inr)

lemma best_nonempty: "xs \<noteq> [] \<Longrightarrow> 0 < w \<Longrightarrow> best F w xs \<noteq> []"
  unfolding best_def by (metis length_0_conv length_sort take_eq_Nil not_gr_zero)

lemma replay_nonempty:
  assumes "replay F digest tree m sha tag width = Inr paths" and "dict_captures m" and "sums_are_positive F"
  shows "paths \<noteq> []"
proof -
  let ?E = "expand F (\<lambda>options path. request_key digest tag options sha path) tag tree (replay_lookup m)"
  have e: "\<And>x t zs t'. ?E x t = (Inr zs, t') \<Longrightarrow> zs \<noteq> []" using expand_nonempty [OF _ assms(2,3)] by blast
  from assms(1) obtain c1 s1 c2 s2 where c1: "pconcat ?E [([], fp_zero F, 0)] () = (Inr c1, s1)"
    and c2: "pconcat ?E (best F width c1) s1 = (Inr c2, s2)" and paths: "paths = map (score F) (best F width c2)" and w: "0 < width"
    by (auto simp: replay_Inr traverse_def level_def pbind_Inr plift_Inr simp del: pconcat.simps split: if_splits)
  have "c1 \<noteq> []" by (rule pconcat_nonempty [OF c1 _ e]) simp
  then have "c2 \<noteq> []" by (intro pconcat_nonempty [OF c2 _ e] best_nonempty w)
  then show ?thesis using best_nonempty w by (simp add: paths)
qed

lemma separation_error: "separation E beam = Inl e \<Longrightarrow> quotients_raise_on_zero E \<Longrightarrow> e = ZeroDivisionError"
  by (cases beam rule: remdups_adj.cases) (auto simp: quotients_raise_on_zero_def res_simps)

lemma judge_succeeds:
  assumes "judge F E digest b sha row = Inl e" and "check_label (tx_genres (bn_taxonomy b)) row = Inr ()"
    and "replay F digest (tx_genres (bn_taxonomy b)) (bn_captures b) sha (lb_tag row) 1 = Inr greedy" "greedy \<noteq> []"
    and "replay F digest (tx_genres (bn_taxonomy b)) (bn_captures b) sha (lb_tag row) 3 = Inr beam" "beam \<noteq> []"
    and "check_flat (bn_flat_claude b) (lb_tag row) = Inr flat" and "quotients_raise_on_zero E"
  shows "e = ZeroDivisionError"
  using assms separation_error [OF _ assms(8)] by (auto simp: judge_def Let_def res_simps neq_Nil_conv)

text \<open>The labels a reviewer added to a bundle are in order.\<close>

definition labels_in_order :: "evidence_bundle \<Rightarrow> bool" where
  "labels_in_order b \<longleftrightarrow> clean_taxonomy (tx_genres (bn_taxonomy b)) \<and> bn_labels b \<noteq> [] \<and> distinct (map lb_tag (bn_labels b)) \<and>
     (\<forall>row \<in> set (bn_labels b). check_label (tx_genres (bn_taxonomy b)) row = Inr () \<and>
        (\<exists>flat. check_flat (bn_flat_claude b) (lb_tag row) = Inr flat))"

lemma evaluate_Inl:
  assumes "evaluate F E digest b = Inl e" and "truthy (tx_provenance (bn_taxonomy b))" and "labels_in_order b"
  shows "\<exists>row \<in> set (bn_labels b). judge F E digest b (digest True (tx_json (bn_taxonomy b))) row = Inl e"
proof -
  have "\<not> (bn_labels b = [] \<or> length (remdups (map lb_tag (bn_labels b))) \<noteq> length (bn_labels b))"
    using assms(3) by (simp add: labels_in_order_def distinct_remdups_id)
  moreover have "clean_taxonomy (tx_genres (bn_taxonomy b))" using assms(3) by (simp add: labels_in_order_def)
  ultimately have "rmap (judge F E digest b (digest True (tx_json (bn_taxonomy b)))) (bn_labels b) = Inl e"
    using assms(1,2) by (auto simp: evaluate_def Let_def rfold_judge res_simps)
  then show ?thesis by (rule rmap_Inl)
qed

lemma new_capturer_provenance: "new_capturer env tx m a verify = Inr x \<Longrightarrow> truthy (tx_provenance tx)"
  by (auto simp: new_capturer_def Let_def split: if_splits)


section \<open>A concrete bundle\<close>

definition strict_provider :: "(int, int) provider" where
  "strict_provider = sample_provider\<lparr>fp_sum_is_one := list_ex (\<lambda>p. p \<noteq> JInt 0), fp_is_zero := \<lambda>p. p = JInt 0\<rparr>"

definition sample_ops :: "int evaluation_ops" where
  "sample_ops = \<lparr>eo_ratio = \<lambda>x y. if y = 0 then Inl ZeroDivisionError else Inr (x div y), eo_literal = \<lambda>_. 1, eo_casefold = id\<rparr>"

definition sample_bundle :: evidence_bundle where
  "sample_bundle = \<lparr>bn_taxonomy = sample_taxonomy,
     bn_labels = [\<lparr>lb_tag = ''rock'', lb_reviewed_by = JStr ''editor'', lb_reviewed_at = JStr ''2024'', lb_source = JStr ''review'',
       lb_accepted_paths = [[''Rock'']]\<rparr>],
     bn_captures = [(''rock'', \<lparr>cap_model = ''jev-1.12'', cap_probabilities = [(''Rock'', JInt 1), (''__NONE__'', JInt 0)]\<rparr>)],
     bn_flat_claude = [(''rock'', \<lparr>fc_model = JStr ''claude-1'', fc_capture_source = JStr ''log'', fc_path = Some []\<rparr>)]\<rparr>"

lemma strict_new_capturer:
  "new_capturer [''TYPESAFE_API_KEY'' \<mapsto> ''secret''] (bn_taxonomy sample_bundle) (int (pt_max_requests strict_provider))
     (int (pt_max_attempts strict_provider)) (\<lambda>_ _. Inr (JStr ''jev-1.12'')) = Inr (pt_key strict_provider, fresh_capturer)"
  using sample_new_capturer by (simp add: strict_provider_def sample_bundle_def sample_provider_def)

lemma strict_run:
  "\<exists>s'. capture_run strict_provider tag_digest (bn_taxonomy sample_bundle) [''rock''] fresh_capturer = (Inr ([''rock''], [], []), s') \<and>
     cp_cache s' = bn_captures sample_bundle"
  by (simp add: capture_run_def distinct_tags_def capture_tag_def traverse_def level_def expand_def pbind_def plift_def
    sample_bundle_def sample_taxonomy_def NONE_def GENRE_ONLY_def resolve_def request_loop.simps fresh_capturer_def
    sample_provider_def strict_provider_def
    accept_response_def model_ok_def MODEL_def dkeys_def dvalues_def check_capture_def branch_def best_def
    request_key_def tag_digest_def taxonomy_sha_def py_str_def cache_hit_def Let_def)

lemma sample_replay: "width = 1 \<or> width = 3 \<Longrightarrow>
  replay strict_provider tag_digest (tx_genres (bn_taxonomy sample_bundle)) (bn_captures sample_bundle) sha ''rock'' width =
    Inr [([''Rock'', ''__GENRE_ONLY__''], 1)]"
  unfolding replay_Inr
  by (auto simp: traverse_def level_def expand_def pbind_def plift_def
    sample_bundle_def sample_taxonomy_def NONE_def GENRE_ONLY_def replay_lookup_def sample_provider_def strict_provider_def
    model_ok_def MODEL_def dkeys_def dvalues_def check_capture_def branch_def best_def score_def
    request_key_def tag_digest_def py_str_def Let_def)

lemma sample_evaluate: "\<exists>r. evaluate strict_provider sample_ops tag_digest sample_bundle = Inr r \<and> ev_sample_size r = 1 \<and>
  map_of (ev_accuracy r) ''beam_k3'' = Some 1"
proof -
  have "judge strict_provider sample_ops tag_digest sample_bundle sha (hd (bn_labels sample_bundle)) =
    Inr ([(''greedy'', Some [''Rock'']), (''beam_k3'', Some [''Rock'']), (''flat_claude'', Some []), (''string_match'', None)], None)" for sha
    using sample_replay [of 1 sha] sample_replay [of 3 sha]
    by (simp add: judge_def Let_def sample_bundle_def check_label_def sample_taxonomy_def check_flat_def leaf_def
      NONE_def GENRE_ONLY_def string_path_def string_matches_def sample_ops_def dkeys_def)
  then show ?thesis
    by (simp add: evaluate_def Let_def sample_bundle_def sample_taxonomy_def clean_taxonomy_def NONE_def GENRE_ONLY_def
      dkeys_def dvalues_def tally_label_def METHODS_def THRESHOLDS_def add_correct_def in_expected_def)
qed

lemma evaluation_rests_on_reviewed_evidence_witness:
  "\<exists>r. evaluate strict_provider sample_ops tag_digest sample_bundle = Inr r \<and> map fst (ev_accuracy r) = METHODS"
proof -
  from sample_evaluate obtain r where r: "evaluate strict_provider sample_ops tag_digest sample_bundle = Inr r" by blast
  from evaluation_rests_on_reviewed_evidence [OF r refl] have "map fst (ev_accuracy r) = METHODS"
    by (auto simp: sample_bundle_def sample_taxonomy_def dkeys_def GENRE_ONLY_def comp_def)
  with r show ?thesis by blast
qed

lemma threshold_sweep_divides_sample_witness:
  "\<exists>r. evaluate strict_provider sample_ops tag_digest sample_bundle = Inr r \<and>
     (\<forall>e \<in> set (ev_threshold_sweep r). sw_accepted e + sw_review e = 1)"
proof -
  from sample_evaluate obtain r where r: "evaluate strict_provider sample_ops tag_digest sample_bundle = Inr r" "ev_sample_size r = 1"
    by blast
  from threshold_sweep_divides_sample [OF r(1)] r show ?thesis by auto
qed


end
