(* ===== verification/Extrapolate.thy ===== *)
theory Extrapolate
  imports Capture
begin

text \<open>
  The projection of a finished capture onto a whole vocabulary (\<open>percentile\<close>, \<open>extrapolate\<close> of
  \<^verbatim>\<open>spike_tag_capture.py\<close>) and the command line of that script. The bundle and the rates are JSON
  values. Numbers are a parameter \<open>number_ops\<close>: the value of a JSON number, the arithmetic of Python on
  values within the range of floats, and \<open>math.ceil\<close> of a fraction of a length.
\<close>

section \<open>Numbers\<close>

record 'n number_ops =
  no_value :: "json \<Rightarrow> 'n"
  no_finite :: "json \<Rightarrow> bool"
  no_int :: "int \<Rightarrow> 'n"
  no_sum :: "'n list \<Rightarrow> 'n"
  no_add :: "'n \<Rightarrow> 'n \<Rightarrow> 'n"
  no_mul :: "'n \<Rightarrow> 'n \<Rightarrow> 'n"
  no_div :: "'n \<Rightarrow> 'n \<Rightarrow> 'n"
  no_ceil :: "string \<Rightarrow> nat \<Rightarrow> int"

text \<open>A value in a sum: a boolean counts as 0 or 1, anything but a number raises.\<close>

fun py_number :: "('n, 'z) number_ops_scheme \<Rightarrow> json \<Rightarrow> 'n res" where
  "py_number N (JInt i) = Inr (no_value N (JInt i))"
| "py_number N (JFloat f) = Inr (no_value N (JFloat f))"
| "py_number N (JBool b) = Inr (no_value N (JInt (if b then 1 else 0)))"
| "py_number N _ = Inl TypeError"

definition py_sum :: "('n, 'z) number_ops_scheme \<Rightarrow> (json \<Rightarrow> json res) \<Rightarrow> json list \<Rightarrow> 'n res" where
  "py_sum N get xs = rbind (rmap (\<lambda>x. rbind (get x) (py_number N)) xs) (\<lambda>ns. Inr (no_sum N ns))"

text \<open>\<open>len\<close>; a string has one element per code point.\<close>

fun py_len :: "json \<Rightarrow> nat res" where
  "py_len (JArr xs) = Inr (length xs)"
| "py_len (JObj d) = Inr (length d)"
| "py_len (JStr s) = Inr (length (filter (\<lambda>c. (of_char c :: nat) div 64 \<noteq> 2) s))"
| "py_len _ = Inl TypeError"

text \<open>\<open>d[k]\<close>, of a value that may be anything that \<open>json.loads\<close> returns.\<close>

fun jitem :: "json \<Rightarrow> string \<Rightarrow> json res" where
  "jitem (JObj d) k = (case map_of d k of None \<Rightarrow> Inl KeyError | Some v \<Rightarrow> Inr v)"
| "jitem _ k = Inl TypeError"

fun jvalues :: "json \<Rightarrow> json list res" where
  "jvalues (JObj d) = Inr (dvalues d)"
| "jvalues _ = Inl AttributeError"

section \<open>Percentiles\<close>

fun py_nth :: "'a list \<Rightarrow> nat \<Rightarrow> 'a res" where
  "py_nth xs i = (if i < length xs then Inr (xs ! i) else Inl IndexError)"

text \<open>\<open>rank_of n\<close> is \<open>math.ceil(fraction * n)\<close>.\<close>

definition percentile :: "(nat \<Rightarrow> int) \<Rightarrow> 'a :: linorder list \<Rightarrow> 'a res" where
  "percentile rank_of values = (let ordered = sort values in py_nth ordered (nat (max 0 (rank_of (length ordered) - 1))))"

section \<open>The projection\<close>

record 'n projection =
  pr_completed :: nat
  pr_failed :: nat
  pr_requests :: nat
  pr_vocabulary :: int
  pr_requests_per_tag :: 'n
  pr_mean_tokens :: "'n \<times> 'n"
  pr_projected_requests :: 'n
  pr_projected_tokens :: "'n \<times> 'n"
  pr_latency_mean :: 'n
  pr_latency_p50 :: 'n
  pr_latency_p95 :: 'n
  pr_latency_total :: 'n
  pr_attempts_per_request :: 'n
  pr_rate_limits :: json
  pr_cold :: json
  pr_replay :: json
  pr_cost :: "('n \<times> json \<times> json) option"

fun vocabulary_ok :: "json \<Rightarrow> int option" where
  "vocabulary_ok (JInt n) = (if n < 1 then None else Some n)"
| "vocabulary_ok _ = None"

definition bad_measurement :: pyerr where
  "bad_measurement = ValueError ''every measured request needs latency and token usage; refusing to extrapolate''"

definition check_measurement :: "('n :: linorder, 'z) number_ops_scheme \<Rightarrow> json \<Rightarrow> unit res" where
  "check_measurement N entry =
     rbind (jget entry ''latency_seconds'') (\<lambda>latency.
       if \<not> is_number latency \<or> \<not> no_finite N latency \<or> no_value N latency < no_int N 0 then Inl bad_measurement
       else rbind (jget entry ''usage'') (\<lambda>usage. if \<not> truthy usage then Inl bad_measurement else Inr ()))"

definition usage_item :: "string \<Rightarrow> json \<Rightarrow> json res" where
  "usage_item k m = rbind (jitem m ''usage'') (\<lambda>usage. jitem usage k)"

definition check_rates :: "('n :: linorder, 'z) number_ops_scheme \<Rightarrow> obj \<Rightarrow> bool" where
  "check_rates N d \<longleftrightarrow> (\<forall>f \<in> set [''currency'', ''source'']. truthy (dget d f)) \<and>
     (\<forall>f \<in> set [''input_per_million'', ''output_per_million''].
        is_number (dget d f) \<and> \<not> no_value N (dget d f) < no_int N 0)"

text \<open>\<open>rates is None\<close> is JNull.\<close>

fun project_cost :: "('n :: linorder, 'z) number_ops_scheme \<Rightarrow> 'n \<times> 'n \<Rightarrow> json \<Rightarrow> ('n \<times> json \<times> json) option res" where
  "project_cost N tokens JNull = Inr None"
| "project_cost N tokens (JObj d) =
     (if \<not> check_rates N d
      then Inl (ValueError ''rates need input_per_million, output_per_million, currency, and an authoritative source'')
      else Inr (Some (no_div N (no_add N (no_mul N (fst tokens) (no_value N (dget d ''input_per_million'')))
             (no_mul N (snd tokens) (no_value N (dget d ''output_per_million'')))) (no_int N 1000000),
           dget d ''currency'', dget d ''source'')))"
| "project_cost N tokens _ = Inl AttributeError"

definition project :: "('n :: linorder, 'z) number_ops_scheme \<Rightarrow> obj \<Rightarrow> int \<Rightarrow> json list \<Rightarrow> json \<Rightarrow> json \<Rightarrow> 'n projection res" where
  "project N capture vocabulary entries tags rates =
     (let requests = length entries; num = (\<lambda>n. no_int N (int n)) in
      rbind (py_sum N (usage_item ''input_tokens'') entries) (\<lambda>tokens_in.
      rbind (py_sum N (usage_item ''output_tokens'') entries) (\<lambda>tokens_out.
      rbind (rmap (\<lambda>m. jitem m ''latency_seconds'') entries) (\<lambda>latency_values.
      rbind (py_len tags) (\<lambda>completed.
      let latencies = map (no_value N) latency_values;
          per_tag = no_div N (num requests) (num completed);
          projected = no_mul N per_tag (no_int N vocabulary);
          stats = py_or (dget capture ''stats'') (JObj []) in
      rbind (py_sum N (\<lambda>m. jget_default m ''attempts'' (JInt 1)) entries) (\<lambda>attempts.
      rbind (py_len (py_or (dget capture ''tags_failed'') (JArr []))) (\<lambda>failed.
      let mean = (no_div N tokens_in (num requests), no_div N tokens_out (num requests));
          tokens = (no_mul N (fst mean) projected, no_mul N (snd mean) projected);
          latency = no_div N (no_sum N latencies) (num requests) in
      rbind (percentile (no_ceil N ''0.5'') latencies) (\<lambda>p50.
      rbind (percentile (no_ceil N ''0.95'') latencies) (\<lambda>p95.
      rbind (jget stats ''rate_limit_responses'') (\<lambda>limits.
      rbind (jget stats ''cold'') (\<lambda>cold.
      rbind (jget stats ''replay'') (\<lambda>replay.
      rbind (project_cost N tokens rates) (\<lambda>cost.
      Inr \<lparr>pr_completed = completed, pr_failed = failed, pr_requests = requests, pr_vocabulary = vocabulary,
           pr_requests_per_tag = per_tag, pr_mean_tokens = mean, pr_projected_requests = projected,
           pr_projected_tokens = tokens, pr_latency_mean = latency, pr_latency_p50 = p50, pr_latency_p95 = p95,
           pr_latency_total = no_mul N latency projected,
           pr_attempts_per_request = no_div N attempts (num requests),
           pr_rate_limits = limits, pr_cold = cold, pr_replay = replay, pr_cost = cost\<rparr>)))))))))))))"

text \<open>The bundle is what \<open>json.loads\<close> returned; anything but an object has no \<open>get\<close>.\<close>

fun extrapolate :: "('n :: linorder, 'z) number_ops_scheme \<Rightarrow> json \<Rightarrow> json \<Rightarrow> json \<Rightarrow> 'n projection res" where
  "extrapolate N (JObj capture) vocabulary_size rates =
     (case vocabulary_ok vocabulary_size of
        None \<Rightarrow> Inl (ValueError ''the actual distinct-vocabulary size (from a full inventory) is required'')
      | Some vocabulary \<Rightarrow>
          let measurements = py_or (dget capture ''measurements'') (JObj []);
              completed = py_or (dget capture ''tags_completed'') (JArr []) in
          if \<not> truthy measurements \<or> \<not> truthy completed
          then Inl (ValueError ''no measured requests or completed tags; refusing to extrapolate'')
          else rbind (jvalues measurements) (\<lambda>entries.
            rbind (rmap (check_measurement N) entries) (\<lambda>_.
            project N capture vocabulary entries completed rates)))"
| "extrapolate N _ vocabulary_size rates =
     (if vocabulary_ok vocabulary_size = None
      then Inl (ValueError ''the actual distinct-vocabulary size (from a full inventory) is required'')
      else Inl AttributeError)"

end
