(* ===== verification/ExtrapolateProperties.thy ===== *)
theory ExtrapolateProperties
  imports Extrapolate Complex_Main "HOL-Library.Multiset"
begin

text \<open>
  Properties of the projection: percentiles are nearest-rank percentiles, and a projection exists only for
  a fully measured capture and scales what was measured by the size of the vocabulary.
\<close>

section \<open>Positions in a sorted list\<close>

lemma length_filter_sort: "length (filter P (sort xs)) = length (filter P xs)"
  by (metis mset_filter mset_sort size_mset)

lemma sorted_below:
  assumes "sorted xs" and "k < length xs"
  shows "Suc k \<le> length (filter (\<lambda>x. x \<le> xs ! k) xs)" and "length (filter (\<lambda>x. x < xs ! k) xs) \<le> k"
proof -
  have xs: "xs = take (Suc k) xs @ drop (Suc k) xs" and ys: "xs = take k xs @ drop k xs" by simp_all
  have "x \<le> xs ! k" if "x \<in> set (take (Suc k) xs)" for x
    using that assms by (auto simp: in_set_conv_nth less_Suc_eq_le intro: sorted_nth_mono)
  then have "filter (\<lambda>x. x \<le> xs ! k) (take (Suc k) xs) = take (Suc k) xs" by simp
  then show "Suc k \<le> length (filter (\<lambda>x. x \<le> xs ! k) xs)"
    using assms(2) by (subst xs) (simp del: append_take_drop_id add: min_def)
  have "\<not> x < xs ! k" if "x \<in> set (drop k xs)" for x
    using that assms by (auto simp: in_set_conv_nth not_less intro: sorted_nth_mono)
  then have "filter (\<lambda>x. x < xs ! k) (drop k xs) = []" by (simp add: filter_empty_conv)
  then have "length (filter (\<lambda>x. x < xs ! k) xs) = length (filter (\<lambda>x. x < xs ! k) (take k xs))"
    by (subst ys) (simp del: append_take_drop_id)
  also have "\<dots> \<le> k" by (rule order_trans [OF length_filter_le]) simp
  finally show "length (filter (\<lambda>x. x < xs ! k) xs) \<le> k" .
qed

lemma percentile_Inr:
  assumes "1 \<le> rank_of (length values)" and "rank_of (length values) \<le> int (length values)"
  shows "percentile rank_of values = Inr (sort values ! nat (rank_of (length values) - 1))"
    and "nat (rank_of (length values) - 1) < length (sort values)"
proof -
  show k: "nat (rank_of (length values) - 1) < length (sort values)" using assms by simp
  then show "percentile rank_of values = Inr (sort values ! nat (rank_of (length values) - 1))"
    using assms(1) by (simp only: percentile_def Let_def py_nth.simps length_sort) simp
qed

text \<open>A percentile is a nearest-rank percentile. For a nonempty list and a fraction \<open>a / b\<close> of at most one whose product with the
  length is rounded up exactly, the result is one of the values, at least the fraction \<open>a / b\<close> of the values are at most it,
  and fewer than that fraction are below it.\<close>

theorem percentile_is_nearest_rank:
  assumes "values \<noteq> []" and "0 < a" and "a \<le> b"
    and "int b * (rank_of (length values) - 1) < int a * int (length values)"
    and "int a * int (length values) \<le> int b * rank_of (length values)"
  shows "\<exists>p \<in> set values. percentile rank_of values = Inr p \<and>
    a * length values \<le> b * length (filter (\<lambda>v. v \<le> p) values) \<and>
    b * length (filter (\<lambda>v. v < p) values) < a * length values"
proof -
  let ?c = "rank_of (length values)" and ?n = "length values"
  have n: "0 < int ?n" and ab: "0 < int a" "int a \<le> int b" using assms(1-3) by simp_all
  have "0 < int a * int ?n" using n ab by simp
  with assms(5) have "0 < int b * ?c" by linarith
  then have lo: "1 \<le> ?c" using ab by (simp add: zero_less_mult_iff)
  have "int a * int ?n \<le> int b * int ?n" using ab n by (intro mult_right_mono) simp_all
  with assms(4) have "int b * (?c - 1) < int b * int ?n" by linarith
  then have hi: "?c \<le> int ?n" using ab by (simp add: mult_less_cancel_left)
  define k where "k = nat (?c - 1)"
  let ?p = "sort values ! k"
  have p: "percentile rank_of values = Inr ?p" and k: "k < length (sort values)"
    using percentile_Inr [of rank_of "values", OF lo hi] by (simp_all add: k_def)
  have c: "?c = int (Suc k)" using lo by (simp add: k_def)
  have below: "Suc k \<le> length (filter (\<lambda>v. v \<le> ?p) values)" "length (filter (\<lambda>v. v < ?p) values) \<le> k"
    using sorted_below [of "sort values" k, OF _ k] by (simp_all add: length_filter_sort)
  have "int (a * ?n) \<le> int (b * Suc k)" using assms(5) by (simp add: c distrib_left)
  then have "a * ?n \<le> b * Suc k" by (simp only: of_nat_le_iff)
  also have "\<dots> \<le> b * length (filter (\<lambda>v. v \<le> ?p) values)" using below(1) by (rule mult_le_mono2)
  finally have one: "a * ?n \<le> b * length (filter (\<lambda>v. v \<le> ?p) values)" .
  have "int (b * k) < int (a * ?n)" using assms(4) by (simp add: c)
  then have "b * k < a * ?n" by (simp only: of_nat_less_iff)
  moreover have "b * length (filter (\<lambda>v. v < ?p) values) \<le> b * k" using below(2) by (rule mult_le_mono2)
  ultimately have two: "b * length (filter (\<lambda>v. v < ?p) values) < a * ?n" by linarith
  have "?p \<in> set values" using nth_mem [OF k] by simp
  with p one two show ?thesis by blast
qed

lemma percentile_is_nearest_rank_witness:
  "percentile (\<lambda>n. (19 * int n + 19) div 20) [5, 1, 9, (3 :: int)] = Inr 9 \<and>
     (\<exists>p \<in> set [5, 1, 9, (3 :: int)]. percentile (\<lambda>n. (19 * int n + 19) div 20) [5, 1, 9, 3] = Inr p \<and>
        20 * length (filter (\<lambda>v. v < p) [5, 1, 9, 3]) < 19 * 4)"
  using percentile_is_nearest_rank [of "[5, 1, 9, (3 :: int)]" 19 20 "\<lambda>n. (19 * int n + 19) div 20"]
  by (auto simp: percentile_def Let_def)

section \<open>What a projection rests on\<close>

lemma check_measurement_Inr:
  "check_measurement N m = Inr u \<longleftrightarrow> (\<exists>d. m = JObj d \<and> is_number (dget d ''latency_seconds'') \<and>
     no_finite N (dget d ''latency_seconds'') \<and> \<not> no_value N (dget d ''latency_seconds'') < no_int N 0 \<and> truthy (dget d ''usage''))"
  by (cases m) (auto simp: check_measurement_def)

text \<open>Arithmetic without rounding.\<close>

definition exact_arithmetic :: "('n :: linordered_field, 'z) number_ops_scheme \<Rightarrow> bool" where
  "exact_arithmetic N \<longleftrightarrow> no_int N = of_int \<and> no_sum N = sum_list \<and> no_add N = (+) \<and> no_mul N = (*) \<and> no_div N = (/) \<and>
     no_ceil N = (\<lambda>fraction n. if fraction = ''0.5'' then (int n + 1) div 2 else (19 * int n + 19) div 20)"

lemma sorted_percentiles:
  assumes "percentile f values = Inr p" and "percentile g values = Inr q" and "f (length values) \<le> g (length values)"
  shows "p \<le> q \<and> p \<in> set values \<and> q \<in> set values"
proof -
  let ?i = "nat (max 0 (f (length values) - 1))" and ?j = "nat (max 0 (g (length values) - 1))"
  have p: "?i < length (sort values)" "p = sort values ! ?i" and q: "?j < length (sort values)" "q = sort values ! ?j"
    using assms(1,2) by (auto simp: percentile_def Let_def split: if_splits)
  have "?i \<le> ?j" using assms(3) by linarith
  then have "p \<le> q" unfolding p(2) q(2) using q(1) by (intro sorted_nth_mono) simp_all
  moreover have "p \<in> set values" "q \<in> set values" using nth_mem [OF p(1)] nth_mem [OF q(1)] by (simp_all add: p(2) q(2))
  ultimately show ?thesis by blast
qed

lemma project_Inr:
  assumes "project N capture vocabulary entries (JArr tags) rates = Inr r" and "exact_arithmetic N" and "tags \<noteq> []" and "entries \<noteq> []"
  obtains tin tout latencies where "py_sum N (usage_item ''input_tokens'') entries = Inr tin"
    "py_sum N (usage_item ''output_tokens'') entries = Inr tout" "rmap (\<lambda>m. jitem m ''latency_seconds'') entries = Inr latencies"
    "pr_completed r = length tags" "pr_requests r = length entries" "pr_vocabulary r = vocabulary"
    "pr_projected_requests r * of_nat (length tags) = of_nat (length entries) * of_int vocabulary"
    "fst (pr_projected_tokens r) * of_nat (length tags) = tin * of_int vocabulary"
    "snd (pr_projected_tokens r) * of_nat (length tags) = tout * of_int vocabulary"
    "pr_latency_total r * of_nat (length tags) = sum_list (map (no_value N) latencies) * of_int vocabulary"
    "pr_latency_p50 r \<le> pr_latency_p95 r" "{pr_latency_p50 r, pr_latency_p95 r} \<subseteq> no_value N ` set latencies"
proof -
  from assms(1,2) obtain tin tout latencies p50 p95 where run: "py_sum N (usage_item ''input_tokens'') entries = Inr tin"
      "py_sum N (usage_item ''output_tokens'') entries = Inr tout" "rmap (\<lambda>m. jitem m ''latency_seconds'') entries = Inr latencies"
    and p50: "percentile (no_ceil N ''0.5'') (map (no_value N) latencies) = Inr p50"
    and p95: "percentile (no_ceil N ''0.95'') (map (no_value N) latencies) = Inr p95"
    and r: "pr_completed r = length tags" "pr_requests r = length entries" "pr_vocabulary r = vocabulary"
      "pr_latency_p50 r = p50" "pr_latency_p95 r = p95"
      "pr_projected_requests r = of_nat (length entries) / of_nat (length tags) * of_int vocabulary"
      "pr_projected_tokens r = (tin / of_nat (length entries) * pr_projected_requests r, tout / of_nat (length entries) * pr_projected_requests r)"
      "pr_latency_total r = sum_list (map (no_value N) latencies) / of_nat (length entries) * pr_projected_requests r"
    by (auto simp: project_def Let_def res_simps exact_arithmetic_def)
  have n: "(of_nat (length tags) :: 'a) \<noteq> 0" "(of_nat (length entries) :: 'a) \<noteq> 0" using assms(3,4) by simp_all
  have "no_ceil N ''0.5'' k \<le> no_ceil N ''0.95'' k" for k
    using assms(2) by (simp add: exact_arithmetic_def)
  from sorted_percentiles [OF p50 p95 this] have "p50 \<le> p95" "{p50, p95} \<subseteq> no_value N ` set latencies" by simp_all
  then show ?thesis using run n by (intro that [OF run(1-3)]) (simp_all add: r)
qed

text \<open>A projection exists only for a fully measured capture and scales what was measured. The vocabulary size is a positive
  integer, a tag was completed, and every request has a finite, nonnegative latency and a token usage. In exact arithmetic
  the projected requests, tokens and total latency relate to those measured as the vocabulary does to the completed tags (so
  that a vocabulary of the completed tags gives back the measurements), and the two percentiles are measured latencies in order.\<close>

theorem projection_scales_measurements:
  fixes N :: "('n :: linordered_field, 'z) number_ops_scheme"
  assumes "extrapolate N (JObj capture) size' rates = Inr r" and "exact_arithmetic N"
    and "dget capture ''tags_completed'' = JArr tags"
  shows "\<exists>vocabulary measurements tin tout latencies. size' = JInt vocabulary \<and> 1 \<le> vocabulary \<and> tags \<noteq> [] \<and>
    dget capture ''measurements'' = JObj measurements \<and> measurements \<noteq> [] \<and>
    (\<forall>m \<in> set (dvalues measurements). \<exists>d. m = JObj d \<and> is_number (dget d ''latency_seconds'') \<and>
       no_finite N (dget d ''latency_seconds'') \<and> 0 \<le> no_value N (dget d ''latency_seconds'') \<and> truthy (dget d ''usage'')) \<and>
    py_sum N (usage_item ''input_tokens'') (dvalues measurements) = Inr tin \<and>
    py_sum N (usage_item ''output_tokens'') (dvalues measurements) = Inr tout \<and>
    rmap (\<lambda>m. jitem m ''latency_seconds'') (dvalues measurements) = Inr latencies \<and>
    pr_projected_requests r * of_nat (length tags) = of_nat (length measurements) * of_int vocabulary \<and>
    fst (pr_projected_tokens r) * of_nat (length tags) = tin * of_int vocabulary \<and>
    snd (pr_projected_tokens r) * of_nat (length tags) = tout * of_int vocabulary \<and>
    pr_latency_total r * of_nat (length tags) = sum_list (map (no_value N) latencies) * of_int vocabulary \<and>
    pr_latency_p50 r \<le> pr_latency_p95 r \<and> {pr_latency_p50 r, pr_latency_p95 r} \<subseteq> no_value N ` set latencies"
proof -
  obtain vocabulary where size: "size' = JInt vocabulary" "1 \<le> vocabulary"
    using assms(1) by (cases size') (auto split: if_splits)
  have tags: "tags \<noteq> []" using assms by (auto simp: size py_or_def Let_def split: if_splits)
  from assms(1,3) tags size obtain measurements where ms: "dget capture ''measurements'' = JObj measurements" "measurements \<noteq> []"
    and checked: "\<exists>u. rmap (check_measurement N) (dvalues measurements) = Inr u"
    and run: "project N capture vocabulary (dvalues measurements) (JArr tags) rates = Inr r"
    by (cases "dget capture ''measurements''") (auto simp: py_or_def Let_def res_simps split: if_splits)
  have zero: "no_int N 0 = 0" using assms(2) by (simp add: exact_arithmetic_def)
  have each: "\<exists>d. m = JObj d \<and> is_number (dget d ''latency_seconds'') \<and>
       no_finite N (dget d ''latency_seconds'') \<and> 0 \<le> no_value N (dget d ''latency_seconds'') \<and> truthy (dget d ''usage'')"
    if "m \<in> set (dvalues measurements)" for m
    using checked list_all2_left [OF _ that] by (fastforce simp: rmap_Inr_iff check_measurement_Inr zero not_less)
  have entries: "dvalues measurements \<noteq> []" "length (dvalues measurements) = length measurements"
    using ms(2) by (simp_all add: dvalues_def)
  from run assms(2) tags entries(1) show ?thesis
    by (rule project_Inr) (use size tags ms each entries(2) in auto)
qed

text \<open>A capture of two tags and one request, projected onto six tags.\<close>

definition exact_numbers :: "rat number_ops" where
  "exact_numbers = \<lparr>no_value = \<lambda>j. case j of JInt i \<Rightarrow> of_int i | _ \<Rightarrow> 0, no_finite = \<lambda>_. True, no_int = of_int, no_sum = sum_list,
     no_add = (+), no_mul = (*), no_div = (/),
     no_ceil = \<lambda>fraction n. if fraction = ''0.5'' then (int n + 1) div 2 else (19 * int n + 19) div 20\<rparr>"

definition sample_capture :: obj where
  "sample_capture = [(''measurements'', JObj [(''k'', JObj [(''latency_seconds'', JInt 2), (''attempts'', JInt 1),
       (''usage'', JObj [(''input_tokens'', JInt 10), (''output_tokens'', JInt 4)])])]),
     (''tags_completed'', JArr [JStr ''rock'', JStr ''pop''])]"

lemma projection_scales_measurements_witness:
  "\<exists>r. extrapolate exact_numbers (JObj sample_capture) (JInt 6) JNull = Inr r \<and> pr_projected_requests r * 2 = 6"
proof -
  have "\<exists>r. extrapolate exact_numbers (JObj sample_capture) (JInt 6) JNull = Inr r"
    by (simp add: sample_capture_def exact_numbers_def Let_def py_or_def dvalues_def check_measurement_def project_def py_sum_def
      usage_item_def percentile_def)
  then obtain r where r: "extrapolate exact_numbers (JObj sample_capture) (JInt 6) JNull = Inr r" ..
  have exact: "exact_arithmetic exact_numbers" by (simp add: exact_arithmetic_def exact_numbers_def)
  have "dget sample_capture ''tags_completed'' = JArr [JStr ''rock'', JStr ''pop'']"
    and ms: "\<exists>m. dget sample_capture ''measurements'' = JObj [m]" by (simp_all add: sample_capture_def)
  from projection_scales_measurements [OF r exact this(1)] ms r show ?thesis by auto
qed

end
