(* ===== verification/Commands.thy ===== *)
theory Commands
  imports Evaluate Extrapolate Inventory
begin

text \<open>
  The command lines of the three scripts: reading JSONL rows and tag lists, the transport specification, the
  bundle a capture run writes, and the two ways a command ends, with its output or refused with a message.
  The texts of the files are arguments; \<open>loads\<close> is \<open>json.loads\<close>, the message of its error or the value.
\<close>

section \<open>How a command ends\<close>

datatype 'a exit = Output 'a | Exited string | Uncaught stop

text \<open>\<open>except (CaptureRefused, ValueError)\<close>.\<close>

fun refuse :: "stop + 'a \<Rightarrow> 'a exit" where
  "refuse (Inr x) = Output x"
| "refuse (Inl (CaptureRefused t)) = Exited (''refused: '' @ t)"
| "refuse (Inl (Raised (ValueError t))) = Exited (''refused: '' @ t)"
| "refuse (Inl e) = Uncaught e"

fun raising :: "'a res \<Rightarrow> stop + 'a" where
  "raising (Inl e) = Inl (Raised e)"
| "raising (Inr x) = Inr x"

type_synonym parser = "string \<Rightarrow> string + json"

definition parse_file :: "parser \<Rightarrow> string \<Rightarrow> json res" where
  "parse_file loads text = (case loads text of Inl msg \<Rightarrow> Inl (ValueError msg) | Inr j \<Rightarrow> Inr j)"

section \<open>The taxonomy export\<close>

definition read_row :: "parser \<Rightarrow> string \<Rightarrow> nat \<times> string \<Rightarrow> json list \<Rightarrow> json list res" where
  "read_row loads path x rows = (case x of (number, line) \<Rightarrow>
     if py_strip line = [] then Inr rows
     else (case loads line of
         Inr j \<Rightarrow> Inr (rows @ [j])
       | Inl msg \<Rightarrow> Inl (ValueError (path @ '':'' @ int_str (int number) @ '': invalid JSON ('' @ msg @ '')''))))"

definition read_rows :: "parser \<Rightarrow> string \<Rightarrow> string list \<Rightarrow> json list res" where
  "read_rows loads path lines = rfold (read_row loads path) (enumerate 1 lines) []"

definition export_command :: "parser \<Rightarrow> string \<Rightarrow> string \<times> string list \<Rightarrow> string \<times> string list \<Rightarrow> taxonomy_export exit" where
  "export_command loads provenance observed part_of =
     refuse (raising (
       rbind (parse_file loads provenance) (\<lambda>p.
       rbind (read_rows loads (fst observed) (snd observed)) (\<lambda>obs.
       rbind (read_rows loads (fst part_of) (snd part_of)) (\<lambda>part.
       build_taxonomy p obs part)))))"

section \<open>The tag mapping\<close>

text \<open>\<open>inventory\<close> prints its report, \<open>replay\<close> the evaluation of a bundle; nothing is caught.\<close>

datatype mapping_command = InventoryCommand int "string list" | ReplayCommand evidence_bundle

fun mapping_main :: "(string \<Rightarrow> json res) \<Rightarrow> ('f :: linorder, 'z) float_ops_scheme \<Rightarrow> ('f, 'y) evaluation_ops_scheme \<Rightarrow>
    (bool \<Rightarrow> json \<Rightarrow> string) \<Rightarrow> mapping_command \<Rightarrow> (inventory_report + 'f evaluation_report) res" where
  "mapping_main loads F E digest (InventoryCommand limit lines) = rbind (inventory loads limit lines) (\<lambda>r. Inr (Inl r))"
| "mapping_main loads F E digest (ReplayCommand b) = rbind (evaluate F E digest b) (\<lambda>r. Inr (Inr r))"

section \<open>The tag capture\<close>

definition tag_lines :: "string \<Rightarrow> string list" where
  "tag_lines text = map py_strip (filter (\<lambda>line. py_strip line \<noteq> []) (splitlines text))"

text \<open>\<open>spec.partition(":")\<close>; importing the module and calling the factory is the parameter \<open>load\<close> below.\<close>

definition transport_spec :: "string \<Rightarrow> (string \<times> string) res" where
  "transport_spec spec = (let (module, name) = partition_at (CHR '':'') spec in
     if module = [] \<or> name = [] then Inl (ValueError ''--transport-factory must be module:callable'') else Inr (module, name))"

record capture_stats =
  st_requests_spent :: nat
  st_rate_limit_responses :: nat
  st_cold_requests :: nat
  st_replay_hits :: nat
  st_tokens_avoided :: "int \<times> int"

definition stats_of :: "'t capturer \<Rightarrow> capture_stats" where
  "stats_of s = \<lparr>st_requests_spent = cp_requests s, st_rate_limit_responses = cp_rate_limit_responses s,
     st_cold_requests = cp_cold_calls s, st_replay_hits = cp_replay_hits s, st_tokens_avoided = cp_tokens_avoided s\<rparr>"

record capture_bundle =
  cb_taxonomy :: taxonomy
  cb_captures :: captures
  cb_measurements :: "(string \<times> measurement) list"
  cb_failures :: "failure list"
  cb_tags_completed :: "string list"
  cb_tags_failed :: "string list"
  cb_tags_skipped :: "string list"
  cb_stats :: capture_stats
  cb_model_required :: string

definition run_bundle :: "taxonomy \<Rightarrow> string list \<times> string list \<times> string list \<Rightarrow> 't capturer \<Rightarrow> capture_bundle" where
  "run_bundle taxonomy tags s = (case tags of (completed, failed, skipped) \<Rightarrow>
     \<lparr>cb_taxonomy = taxonomy, cb_captures = cp_cache s, cb_measurements = cp_measurements s, cb_failures = cp_failures s,
      cb_tags_completed = completed, cb_tags_failed = failed, cb_tags_skipped = skipped,
      cb_stats = stats_of s, cb_model_required = MODEL\<rparr>)"

definition DEFAULT_ATTEMPTS :: nat where
  "DEFAULT_ATTEMPTS = 4"

text \<open>The loaded transport: its answers with the bounds of the command line, and its answer to \<open>verify_model\<close>.\<close>

definition bounded_provider :: "('f, 't, 'z) provider_scheme \<Rightarrow> string \<Rightarrow> int \<Rightarrow> ('f, 't, 'z) provider_scheme" where
  "bounded_provider P key max_requests =
     P\<lparr>pt_key := key, pt_max_requests := nat max_requests, pt_max_attempts := DEFAULT_ATTEMPTS\<rparr>"

definition run_capturer :: "('f :: linorder, 't :: linorder, 'z) provider_scheme \<Rightarrow> (bool \<Rightarrow> json \<Rightarrow> string) \<Rightarrow> environ \<Rightarrow>
    taxonomy \<Rightarrow> int \<Rightarrow> (string \<Rightarrow> string \<Rightarrow> string + json) \<Rightarrow> string list \<Rightarrow> stop + capture_bundle" where
  "run_capturer P digest env taxonomy max_requests verify tags =
     (case new_capturer env taxonomy max_requests (int DEFAULT_ATTEMPTS) verify of
        Inl e \<Rightarrow> Inl e
      | Inr (key, s) \<Rightarrow>
          (case capture_run (bounded_provider P key max_requests) digest taxonomy tags s of
             (Inl e, s') \<Rightarrow> Inl e
           | (Inr result, s') \<Rightarrow> Inr (run_bundle taxonomy result s')))"

definition capture_command :: "(string \<Rightarrow> string \<Rightarrow> stop + ('f :: linorder, 't :: linorder, 'z) provider_scheme \<times> (string \<Rightarrow> string \<Rightarrow> string + json)) \<Rightarrow>
    (bool \<Rightarrow> json \<Rightarrow> string) \<Rightarrow> environ \<Rightarrow> string \<Rightarrow> taxonomy res \<Rightarrow> string \<Rightarrow> int \<Rightarrow> capture_bundle exit" where
  "capture_command load digest env spec taxonomy text max_requests =
     refuse (case transport_spec spec of
        Inl e \<Rightarrow> Inl (Raised e)
      | Inr (module, name) \<Rightarrow> (case load module name of
          Inl e \<Rightarrow> Inl e
        | Inr (P, verify) \<Rightarrow> (case taxonomy of
            Inl e \<Rightarrow> Inl (Raised e)
          | Inr tx \<Rightarrow> run_capturer P digest env tx max_requests verify (tag_lines text))))"

definition extrapolate_command :: "('n :: linorder, 'z) number_ops_scheme \<Rightarrow> parser \<Rightarrow> string option \<Rightarrow> string \<Rightarrow> int \<Rightarrow> 'n projection exit" where
  "extrapolate_command N loads rates_text capture_text vocabulary_size =
     refuse (raising (
       rbind (case rates_text of None \<Rightarrow> Inr JNull | Some text \<Rightarrow> parse_file loads text) (\<lambda>rates.
       rbind (parse_file loads capture_text) (\<lambda>capture.
       extrapolate N capture (JInt vocabulary_size) rates))))"

end
