(* ===== verification/CommandProperties.thy ===== *)
theory CommandProperties
  imports Commands CaptureProperties
begin

text \<open>
  Properties of the command lines: a taxonomy export reports or is refused, reading exactly the rows of its
  inputs; a tag capture writes a bundle only when its run ended, and the bundle accounts for the tag list.
\<close>

section \<open>Reading rows\<close>

definition line_error :: "string \<Rightarrow> nat \<Rightarrow> string \<Rightarrow> string" where
  "line_error path number msg = path @ '':'' @ int_str (int number) @ '': invalid JSON ('' @ msg @ '')''"

lemma read_row_step:
  "read_row loads path (i, line) rows = (if blank line then Inr rows
     else (case loads line of Inr j \<Rightarrow> Inr (rows @ [j]) | Inl msg \<Rightarrow> Inl (ValueError (line_error path i msg))))"
  by (simp add: read_row_def py_strip_blank line_error_def split: sum.splits)

lemma read_rows_run:
  "rfold (read_row loads path) (enumerate i lines) rows = Inr out \<longleftrightarrow>
     (\<exists>new. list_all2 (\<lambda>line j. loads line = Inr j) (filter (\<lambda>line. \<not> blank line) lines) new \<and> out = rows @ new)"
proof (induction lines arbitrary: i rows)
  case (Cons line lines)
  show ?case
    by (auto simp: res_simps read_row_step Cons.IH list_all2_Cons1 split: sum.splits)
qed auto

lemma read_rows_error:
  "rfold (read_row loads path) (enumerate i lines) rows = Inl e \<Longrightarrow>
     \<exists>before line after msg. lines = before @ line # after \<and> \<not> blank line \<and> loads line = Inl msg \<and>
       (\<forall>l \<in> set before. blank l \<or> (\<exists>j. loads l = Inr j)) \<and> e = ValueError (line_error path (i + length before) msg)"
proof (induction lines arbitrary: i rows)
  case (Cons line lines)
  show ?case
  proof (cases "\<not> blank line \<and> (\<exists>msg. loads line = Inl msg)")
    case True
    then obtain msg where "\<not> blank line" "loads line = Inl msg" by blast
    moreover from this Cons.prems have "e = ValueError (line_error path i msg)"
      by (simp add: read_row_step)
    ultimately show ?thesis by (intro exI [of _ "[]"] exI [of _ line] exI [of _ lines] exI [of _ msg]) simp
  next
    case False
    then have ok: "blank line \<or> (\<exists>j. loads line = Inr j)" by (metis sum.exhaust)
    then have "\<exists>rows'. read_row loads path (i, line) rows = Inr rows'"
      by (auto simp: read_row_step)
    then obtain rows' where "read_row loads path (i, line) rows = Inr rows'" ..
    with Cons.prems have "rfold (read_row loads path) (enumerate (Suc i) lines) rows' = Inl e" by simp
    from Cons.IH [OF this] obtain before l after msg where IH: "lines = before @ l # after" "\<not> blank l" "loads l = Inl msg"
      "\<forall>l \<in> set before. blank l \<or> (\<exists>j. loads l = Inr j)" "e = ValueError (line_error path (Suc i + length before) msg)" by blast
    with ok show ?thesis
      by (intro exI [of _ "line # before"] exI [of _ l] exI [of _ after] exI [of _ msg]) simp
  qed
qed simp

lemma build_taxonomy_error:
  shows "build_taxonomy p obs part = Inl e \<Longrightarrow> \<exists>t. e = ValueError t"
proof -
  assume "build_taxonomy p obs part = Inl e"
  then consider (provenance) t where "e = ValueError t" | (observed) "rfold observe (enumerate 0 obs) [] = Inl e"
    | (part_of) "rfold add_part_of (enumerate 0 part) [] = Inl e"
    by (auto simp: build_taxonomy_def res_simps split: if_splits)
  then show ?thesis
  proof cases
    case observed
    show ?thesis by (rule rfold_value_error [OF _ observed]) (rule taxonomy_errors(1))
  next
    case part_of
    show ?thesis by (rule rfold_value_error [OF _ part_of]) (rule taxonomy_errors(2))
  qed blast
qed

text \<open>The rows of a file: its lines that are not blank, parsed.\<close>

definition rows_of :: "parser \<Rightarrow> string list \<Rightarrow> json list \<Rightarrow> bool" where
  "rows_of loads lines rows \<longleftrightarrow> list_all2 (\<lambda>line j. loads line = Inr j) (filter (\<lambda>line. \<not> blank line) lines) rows"

lemma read_rows_Inr: "read_rows loads path lines = Inr rows \<longleftrightarrow> rows_of loads lines rows"
  by (simp add: read_rows_def read_rows_run rows_of_def)

lemma refuse_raising: "refuse (raising r) = Output x \<longleftrightarrow> r = Inr x"
proof (cases r)
  case (Inl e)
  then show ?thesis by (cases e) simp_all
qed simp

text \<open>A taxonomy export reports or is refused, it never crashes on its inputs. It prints a report exactly when the provenance and
  every line that is not blank parse and the rows build a taxonomy, from those rows in order; a line that does not parse
  refuses the export with a message that names its file and its line number.\<close>

theorem taxonomy_export_reports_or_refuses:
  fixes loads :: parser and provenance opath ppath :: string and olines plines :: "string list"
  defines "result \<equiv> export_command loads provenance (opath, olines) (ppath, plines)"
  shows "((\<exists>r. result = Output r) \<or> (\<exists>t. result = Exited (''refused: '' @ t))) \<and>
    (\<forall>r. result = Output r \<longleftrightarrow> (\<exists>p obs part. loads provenance = Inr p \<and> rows_of loads olines obs \<and> rows_of loads plines part \<and>
       build_taxonomy p obs part = Inr r)) \<and>
    ((\<exists>p. loads provenance = Inr p) \<and> (\<nexists>obs. rows_of loads olines obs) \<longrightarrow>
       (\<exists>before line after msg. olines = before @ line # after \<and> \<not> blank line \<and> loads line = Inl msg \<and>
          (\<forall>l \<in> set before. blank l \<or> (\<exists>j. loads l = Inr j)) \<and>
          result = Exited (''refused: '' @ line_error opath (Suc (length before)) msg)))"
proof -
  let ?r = "rbind (parse_file loads provenance) (\<lambda>p. rbind (read_rows loads opath olines) (\<lambda>obs.
       rbind (read_rows loads ppath plines) (\<lambda>part. build_taxonomy p obs part)))"
  have result: "result = refuse (raising ?r)" by (simp add: result_def export_command_def)
  have errors: "\<exists>t. e = ValueError t" if "?r = Inl e" for e
    using that by (auto simp: res_simps parse_file_def read_rows_def split: sum.splits
      dest!: read_rows_error build_taxonomy_error)
  have "(\<exists>r. result = Output r) \<or> (\<exists>t. result = Exited (''refused: '' @ t))"
    using errors by (cases ?r) (fastforce simp: result)+
  moreover have "result = Output r \<longleftrightarrow> (\<exists>p obs part. loads provenance = Inr p \<and> rows_of loads olines obs \<and>
      rows_of loads plines part \<and> build_taxonomy p obs part = Inr r)" for r
    unfolding result refuse_raising by (auto simp: res_simps read_rows_Inr parse_file_def split: sum.splits)
  moreover have "\<exists>before line after msg. olines = before @ line # after \<and> \<not> blank line \<and> loads line = Inl msg \<and>
          (\<forall>l \<in> set before. blank l \<or> (\<exists>j. loads l = Inr j)) \<and>
          result = Exited (''refused: '' @ line_error opath (Suc (length before)) msg)"
    if p: "loads provenance = Inr p" and none: "\<nexists>obs. rows_of loads olines obs" for p
  proof -
    from none obtain e where e: "read_rows loads opath olines = Inl e" unfolding read_rows_Inr [symmetric, where path = opath] by (metis sum.exhaust)
    then have "?r = Inl e" using p by (simp add: parse_file_def)
    then have "result = refuse (Inl (Raised e))" by (simp add: result)
    with read_rows_error [OF e [unfolded read_rows_def]] show ?thesis
      by (metis One_nat_def Suc_eq_plus1_left plus_1_eq_Suc refuse.simps(3))
  qed
  ultimately show ?thesis by blast
qed

lemma taxonomy_export_reports_or_refuses_witness:
  "export_command (\<lambda>text. if text = ''x'' then Inl ''bad'' else Inr JNull) ''{}'' (''obs'', [[], ''x'']) (''part'', []) =
     Exited ''refused: obs:2: invalid JSON (bad)''"
proof -
  let ?loads = "\<lambda>text. if text = ''x'' then Inl ''bad'' else Inr JNull"
  have "\<nexists>obs. rows_of ?loads [[], ''x''] obs"
    by (auto simp: rows_of_def blank_def ascii_space_def list_all2_Cons1)
  with taxonomy_export_reports_or_refuses [of ?loads "''{}''" "''obs''" "[[], ''x'']" "''part''" "[]"] obtain before line after msg
    where "[[], ''x''] = before @ line # after" "\<not> blank line" "?loads line = Inl msg"
      "export_command ?loads ''{}'' (''obs'', [[], ''x'']) (''part'', []) =
         Exited (''refused: '' @ line_error ''obs'' (Suc (length before)) msg)"
    by fastforce
  moreover from this obtain y where "before = [y]"
    by (cases before rule: remdups_adj.cases) (auto simp: blank_def Cons_eq_append_conv)
  moreover from this have "msg = ''bad''" using calculation(1,3) by simp
  ultimately show ?thesis
    by (simp add: line_error_def int_str_def nat_digits.simps char_of_def bit_0)
qed

end
