(* ===== verification/ReleaseChecks.thy ===== *)
theory ReleaseChecks
  imports Text Enrich
begin

text \<open>
  The checks of the build: the preview of the next version bump (\<^verbatim>\<open>check_bump_preview.py\<close>), the
  license and version check (\<^verbatim>\<open>check-license.py\<close>), the promoted contracts (\<^verbatim>\<open>check-contracts.py\<close>) and the
  artifacts of the build record (\<^verbatim>\<open>write-build-provenance.py\<close>). What the subprocesses print, the texts and the
  parsed contents of the files, and the digest of a file are arguments.
\<close>

section \<open>The bump preview\<close>

definition NO_COMMITS_EXIT :: int where
  "NO_COMMITS_EXIT = 3"

definition NO_COMMITS_MARKERS :: "string list" where
  "NO_COMMITS_MARKERS = [''[NO_COMMITS_FOUND]'', ''No new commits found.'']"

definition NO_BUMPABLE_COMMITS_EXIT :: int where
  "NO_BUMPABLE_COMMITS_EXIT = 21"

definition NO_BUMPABLE_COMMITS_MARKERS :: "string list" where
  "NO_BUMPABLE_COMMITS_MARKERS = [''[NO_COMMITS_TO_BUMP]'', ''The commits found are not eligible to be bumped'']"

definition RELEASE_GAP_EXIT :: int where
  "RELEASE_GAP_EXIT = 16"

definition RELEASE_GAP_MARKERS :: "string list" where
  "RELEASE_GAP_MARKERS = [''bump: version '', ''tag to create: v'', ''increment detected: '',
     ''No tag found to do an incremental changelog'']"

definition accepted_result :: "int \<Rightarrow> string \<Rightarrow> bool" where
  "accepted_result returncode output \<longleftrightarrow>
     returncode = 0 \<or>
     (returncode = NO_COMMITS_EXIT \<and> list_all (\<lambda>m. contains m output) NO_COMMITS_MARKERS) \<or>
     (returncode = NO_BUMPABLE_COMMITS_EXIT \<and> list_all (\<lambda>m. contains m output) NO_BUMPABLE_COMMITS_MARKERS) \<or>
     (returncode = RELEASE_GAP_EXIT \<and> list_all (\<lambda>m. contains m output) RELEASE_GAP_MARKERS)"

text \<open>The finished process, and what the check writes to its own two streams with its exit status.\<close>

record finished =
  fp_returncode :: int
  fp_stdout :: string
  fp_stderr :: string

definition preview_main :: "finished \<Rightarrow> string \<times> string \<times> int" where
  "preview_main r =
     (let output = fp_stdout r @ CHR 0x0A # fp_stderr r in
      (fp_stdout r, fp_stderr r, if accepted_result (fp_returncode r) output then 0 else fp_returncode r))"

section \<open>Assertions over files\<close>

definition assert_that :: "bool \<Rightarrow> unit res" where
  "assert_that b = (if b then Inr () else Inl AssertionError)"

text \<open>\<open>doc["a"]["b"]\<close>; an item of a list or a text is not selected by a string.\<close>

fun item_of :: "json \<Rightarrow> string \<Rightarrow> json res" where
  "item_of (JObj d) k = (case map_of d k of None \<Rightarrow> Inl KeyError | Some v \<Rightarrow> Inr v)"
| "item_of _ k = Inl TypeError"

definition path_of :: "json \<Rightarrow> string list \<Rightarrow> json res" where
  "path_of doc ks = rfold (\<lambda>k j. item_of j k) ks doc"

definition assert_text :: "json \<Rightarrow> string list \<Rightarrow> string \<Rightarrow> unit res" where
  "assert_text doc ks t = rbind (path_of doc ks) (\<lambda>v. assert_that (v = JStr t))"

text \<open>\<open>== 1\<close> holds of 1, 1.0 and True.\<close>

definition assert_one :: "json \<Rightarrow> string list \<Rightarrow> unit res" where
  "assert_one doc ks = rbind (path_of doc ks) (\<lambda>v. assert_that (v \<in> {JInt 1, JFloat ''1.0'', JBool True}))"

text \<open>A loop over assertions stops at the first that fails.\<close>

definition all_asserted :: "unit res list \<Rightarrow> unit res" where
  "all_asserted checks = rfold (\<lambda>c _. c) checks ()"

section \<open>License and version\<close>

definition version_prefix :: string where
  "version_prefix = ''__version__ = '' @ [CHR 0x22]"

text \<open>The pattern \<open>^__version__ = "([^"]+)"$\<close> at one position: the text between the quotes, which end the line.\<close>

definition version_at :: "string \<Rightarrow> string option" where
  "version_at s =
     (let n = length version_prefix; t = drop n s; v = takeWhile (\<lambda>c. c \<noteq> CHR 0x22) t; r = drop (length v) t in
      if take n s = version_prefix \<and> v \<noteq> [] \<and> r \<noteq> [] \<and> (tl r = [] \<or> hd (tl r) = CHR 0x0A) then Some v else None)"

text \<open>The search goes from line to line; \<open>at_start\<close> tells whether a line starts here.\<close>

fun search_version :: "bool \<Rightarrow> string \<Rightarrow> string option" where
  "search_version at_start [] = None"
| "search_version at_start (c # s) =
     (case (if at_start then version_at (c # s) else None) of
        Some v \<Rightarrow> Some v
      | None \<Rightarrow> search_version (c = CHR 0x0A) s)"

definition license_text :: string where
  "license_text = ''MIT License'' @ [CHR 0x0A]"

definition check_license :: "json \<Rightarrow> string \<Rightarrow> string \<Rightarrow> unit res" where
  "check_license pyproject init_text license =
     rbind (path_of pyproject [''project'']) (\<lambda>project.
     (case search_version True init_text of
        None \<Rightarrow> Inl AssertionError
      | Some version \<Rightarrow> all_asserted
          [assert_text project [''license''] ''MIT'',
           assert_text project [''version''] version,
           assert_that (take (length license_text) license = license_text)]))"

section \<open>Contracts\<close>

text \<open>
  The published relationship contract is given by the two fields compared with each other and the rest of the
  document; every other document is a JSON value. \<open>cf_digest\<close> is the SHA-256 of the file at a path.
\<close>

record contract_files =
  cf_catalog_source :: json
  cf_persistence_source :: json
  cf_compatibility :: json
  cf_integration :: json
  cf_pyproject :: json
  cf_relationship_source :: json
  cf_relationship_document :: json
  cf_relationship_types :: "(string \<times> string) list"
  cf_edge_types :: "string list"
  cf_digest :: "string \<Rightarrow> string"
  cf_integration_script :: string

text \<open>\<open>needle in value\<close>: part of a text, an element of a list or a key of a dict.\<close>

fun py_in :: "string \<Rightarrow> json \<Rightarrow> bool res" where
  "py_in t (JStr s) = Inr (contains t s)"
| "py_in t (JArr xs) = Inr (JStr t \<in> set xs)"
| "py_in t (JObj d) = Inr (t \<in> set (dkeys d))"
| "py_in t _ = Inl TypeError"

fun in_text :: "json \<Rightarrow> string \<Rightarrow> bool res" where
  "in_text (JStr t) s = Inr (contains t s)"
| "in_text _ s = Inl TypeError"

text \<open>Equality with a dict of texts does not depend on the order of the items.\<close>

definition same_items :: "json \<Rightarrow> (string \<times> string) list \<Rightarrow> bool" where
  "same_items j d \<longleftrightarrow> (case j of JObj e \<Rightarrow> length e = length d \<and> (\<forall>(k, v) \<in> set d. map_of e k = Some (JStr v)) | _ \<Rightarrow> False)"

definition sorted_values :: "(string \<times> string) list \<Rightarrow> string list" where
  "sorted_values d = sort (remdups (dvalues d))"

definition check_contracts :: "contract_files \<Rightarrow> unit res" where
  "check_contracts F = all_asserted
     [assert_text (cf_catalog_source F) [''contract_sha256''] (cf_digest F ''contracts/catalog-events/v1/contract.json''),
      assert_text (cf_catalog_source F) [''binding_sha256''] (cf_digest F ''brainzgraphinator/catalog_contract.py''),
      assert_text (cf_persistence_source F) [''contract_sha256''] (cf_digest F ''contracts/persistence/v1/compatibility.json''),
      assert_text (cf_relationship_source F) [''contract_sha256''] (cf_digest F ''contracts/projections/v1/relationship-types.json''),
      assert_text (cf_relationship_document F) [''contract''] ''groovemap.musicbrainz-graph-enricher.relationship-types'',
      assert_one (cf_relationship_document F) [''version''],
      assert_that (cf_edge_types F = sorted_values (cf_relationship_types F)),
      assert_text (cf_compatibility F) [''contract''] ''groovemap.persistence'',
      assert_one (cf_compatibility F) [''version''],
      assert_text (cf_compatibility F) [''application_runtime'', ''tested_version''] ''0.1.0'',
      rbind (path_of (cf_pyproject F) [''tool'', ''uv'', ''sources'', ''groovemap-runtime'', ''rev'']) (\<lambda>rev.
        rbind (path_of (cf_compatibility F) [''application_runtime'', ''tested_commit'']) (\<lambda>commit. assert_that (rev = commit))),
      assert_text (cf_integration F) [''contract''] ''groovemap.musicbrainz-graph-enricher.integration-testing'',
      assert_one (cf_integration F) [''version''],
      assert_text (cf_integration F) [''database'', ''engine''] ''neo4j'',
      rbind (path_of (cf_integration F) [''database'', ''image'']) (\<lambda>image. rbind (py_in ''@sha256:'' image) assert_that),
      rbind (path_of (cf_integration F) [''network'']) (\<lambda>network.
        assert_that (same_items network [(''bind'', ''127.0.0.1''), (''bolt_port'', ''ephemeral'')])),
      assert_text (cf_integration F) [''command''] ''just test-integration'',
      rbind (path_of (cf_integration F) [''database'', ''image'']) (\<lambda>image.
        rbind (in_text image (cf_integration_script F)) assert_that)]"

section \<open>The build record\<close>

text \<open>\<open>Path.suffix\<close>: from the last dot of a file name on, the leading dots aside.\<close>

definition path_suffix :: "string \<Rightarrow> string" where
  "path_suffix name =
     (let n = dropWhile (\<lambda>c. c = CHR ''.'') name in
      if CHR ''.'' \<in> set n then CHR ''.'' # rev (takeWhile (\<lambda>c. c \<noteq> CHR ''.'') (rev n)) else [])"

definition build_artifacts :: "string list \<Rightarrow> string list" where
  "build_artifacts names = filter (\<lambda>n. path_suffix n \<in> {''.gz'', ''.whl''}) (sort names)"

record build_record =
  br_artifacts :: "(string \<times> string) list"
  br_builder :: string
  br_commit :: string
  br_python :: string
  br_repository :: string

text \<open>\<open>git\<close> is the answer of \<open>git rev-parse HEAD\<close>, None when there is no git; the version of Python is an argument.\<close>

definition build_provenance :: "string option \<Rightarrow> string \<Rightarrow> (string \<Rightarrow> string) \<Rightarrow> string list \<Rightarrow> build_record res" where
  "build_provenance git version sha256 names = (case git of
      None \<Rightarrow> Inl (RuntimeError ''git is required to write build provenance'')
    | Some out \<Rightarrow> Inr \<lparr>br_artifacts = map (\<lambda>n. (n, sha256 n)) (build_artifacts names),
        br_builder = ''scripts/release-dry-run.sh'', br_commit = py_strip out, br_python = version,
        br_repository = ''https://github.com/groovemap-music/musicbrainz-graph-enricher''\<rparr>)"

end
