(* ===== verification/ReleaseProperties.thy ===== *)
theory ReleaseProperties
  imports ReleaseChecks RelationProperties
begin

text \<open>
  Properties of the build checks: when the bump preview is accepted, what a passing license check says of the
  version, that the published relationship contract names every edge type the enricher can create, and the
  artifacts a build record lists.
\<close>

section \<open>Markers\<close>

lemma markers_one_line:
  "list_all (\<lambda>m. CHR 0x0A \<notin> set m) NO_COMMITS_MARKERS"
  "list_all (\<lambda>m. CHR 0x0A \<notin> set m) NO_BUMPABLE_COMMITS_MARKERS"
  "list_all (\<lambda>m. CHR 0x0A \<notin> set m) RELEASE_GAP_MARKERS"
  by (simp_all add: NO_COMMITS_MARKERS_def NO_BUMPABLE_COMMITS_MARKERS_def RELEASE_GAP_MARKERS_def)

text \<open>A marker of one line is in the joined output when it is in one of the two streams.\<close>

lemma markers_in_streams:
  assumes "list_all (\<lambda>m. CHR 0x0A \<notin> set m) ms"
  shows "list_all (\<lambda>m. contains m (out @ CHR 0x0A # err)) ms \<longleftrightarrow> list_all (\<lambda>m. contains m out \<or> contains m err) ms"
  using assms by (auto simp: list_all_iff contains_separated)

text \<open>The bump preview repeats both streams of Commitizen unchanged and ends with 0 or with the status of
  Commitizen. It ends with 0 exactly when Commitizen succeeded, or ended with 3 (no new commits), 21 (none that bumps)
  or 16 (no tag for an incremental changelog) and every marker of that state is in one of the two streams.\<close>

theorem bump_preview_status:
  "preview_main r = (fp_stdout r, fp_stderr r, snd (snd (preview_main r))) \<and>
   snd (snd (preview_main r)) \<in> {0, fp_returncode r} \<and>
   (snd (snd (preview_main r)) = 0 \<longleftrightarrow>
      (let shown = list_all (\<lambda>m. contains m (fp_stdout r) \<or> contains m (fp_stderr r)) in
       fp_returncode r = 0 \<or> (fp_returncode r = 3 \<and> shown NO_COMMITS_MARKERS) \<or>
       (fp_returncode r = 21 \<and> shown NO_BUMPABLE_COMMITS_MARKERS) \<or> (fp_returncode r = 16 \<and> shown RELEASE_GAP_MARKERS)))"
  by (auto simp: preview_main_def Let_def accepted_result_def markers_in_streams markers_one_line NO_COMMITS_EXIT_def
      NO_BUMPABLE_COMMITS_EXIT_def RELEASE_GAP_EXIT_def)

section \<open>Assertions\<close>

lemma all_asserted_Inr: "all_asserted cs = Inr u \<longleftrightarrow> list_all (\<lambda>c. c = Inr ()) cs"
proof -
  have "rfold (\<lambda>c _. c) cs () = Inr () \<longleftrightarrow> list_all (\<lambda>c. c = Inr ()) cs"
    by (induction cs) (auto simp: res_simps)
  then show ?thesis by (simp add: all_asserted_def)
qed

lemma assert_that_Inr [simp]: "assert_that b = Inr u \<longleftrightarrow> b"
  by (simp add: assert_that_def)

text \<open>The version of a module whose first version line is a plain one.\<close>

lemma version_at_line:
  assumes "v \<noteq> []" and "CHR 0x22 \<notin> set v" and "rest = [] \<or> hd rest = CHR 0x0A"
  shows "version_at (version_prefix @ v @ CHR 0x22 # rest) = Some v"
proof -
  have v: "takeWhile (\<lambda>c. c \<noteq> CHR 0x22) (v @ CHR 0x22 # rest) = v"
    using assms(2) by (subst takeWhile_append2) auto
  show ?thesis
    using assms v by (simp add: version_at_def Let_def)
qed

text \<open>A passing license check: the two files name the same version, under the MIT license.\<close>

lemma license_check_exact:
  "check_license pyproject init_text license = Inr u \<longleftrightarrow>
     (\<exists>project version. path_of pyproject [''project''] = Inr project \<and> search_version True init_text = Some version \<and>
        path_of project [''license''] = Inr (JStr ''MIT'') \<and> path_of project [''version''] = Inr (JStr version) \<and>
        take (length license_text) license = license_text)"
  by (auto simp: check_license_def res_simps all_asserted_Inr assert_text_def split: option.splits)

section \<open>The published relationship contract\<close>

lemma relation_type_mapped: "relation_type r = Some t \<Longrightarrow> t \<in> snd ` set MB_RELATIONSHIP_MAP"
proof -
  have mapped: "t \<in> snd ` set m" if "map_of m k = Some t" for m :: "(string \<times> string) list" and k
    using imageI [OF map_of_SomeD [OF that], of snd] by simp
  show "relation_type r = Some t \<Longrightarrow> t \<in> snd ` set MB_RELATIONSHIP_MAP"
    by (auto simp: relation_type_def intro: mapped split: json.splits)
qed

lemma relation_edges_typed: "(t, a, b) \<in> relation_edges g rels \<Longrightarrow> t \<in> snd ` set MB_RELATIONSHIP_MAP"
  unfolding relation_edges_def by (auto dest!: relation_key_type intro: relation_type_mapped)

lemma contracts_edge_types:
  assumes "check_contracts F = Inr u"
  shows "cf_edge_types F = sorted_values (cf_relationship_types F)"
  using assms by (simp add: check_contracts_def all_asserted_Inr)

text \<open>C38: When the contract check passes and the published relationship types are the map of the code, every
  relationship edge that a delivery or a batch of artists adds to the graph has a type that the published contract
  lists, and the contract lists each type once and only types of the map: a consumer that queries the published
  types misses no edge.\<close>

theorem published_contract_covers_edges:
  assumes "check_contracts F = Inr u" and "set (cf_relationship_types F) = set MB_RELATIONSHIP_MAP"
    and "create_relationship_edges d rels (st, g) = Inr (st1, g1)"
    and "create_relationship_edges_batch owned (st, g) = Inr (complete, st2, g2)"
  shows "distinct (cf_edge_types F) \<and> set (cf_edge_types F) = snd ` set MB_RELATIONSHIP_MAP \<and>
    fst ` ((edge_set g1 \<union> edge_set g2) - edge_set g) \<subseteq> set (cf_edge_types F)"
proof -
  have types: "cf_edge_types F = sorted_values (cf_relationship_types F)"
    using assms(1) by (rule contracts_edge_types)
  have set: "set (cf_edge_types F) = snd ` set MB_RELATIONSHIP_MAP"
    unfolding types by (simp add: sorted_values_def dvalues_def assms(2))
  have "edge_set g1 = edge_set g \<union> relation_edges g (map (Pair d) rels)"
    using assms(3) relation_steps_run [of d rels st g st1 g1] by (simp add: create_relationship_edges_Inr)
  moreover have "edge_set g2 = edge_set g \<union> relation_edges g owned"
    by (rule create_relationship_edges_batch_run(4) [OF assms(4)])
  ultimately have "fst ` ((edge_set g1 \<union> edge_set g2) - edge_set g) \<subseteq> snd ` set MB_RELATIONSHIP_MAP"
    by (auto dest: relation_edges_typed)
  with set show ?thesis by (simp add: types sorted_values_def)
qed

text \<open>The contract as it is published.\<close>

definition published_digest :: "string \<Rightarrow> string" where
  "published_digest path =
     (if path = ''contracts/catalog-events/v1/contract.json'' then ''53073d4b4aac07655abe18688a4eb9c4902481f50dbd02b5b61c083c4b83be2f''
      else if path = ''brainzgraphinator/catalog_contract.py'' then ''5ec6d7e0317e39396b9b40effb4804e70242768b95499b922b161c6f300c1273''
      else if path = ''contracts/persistence/v1/compatibility.json'' then ''43092aee5f762653bb4e4dbeeb95112db99069d6a1dbc11624a1ee95eb33e57f''
      else ''ce7cf064d7a5ed00f2ec0854a68ea1c2c811a255adeb204c26ff840e32925be6'')"

definition published_image :: string where
  "published_image = ''neo4j:2026-community@sha256:dbc377fb9cd8fe8dabc19d3041b197d5ca0ef8bae514cea175b8df265e5b7a76''"

definition published_contracts :: contract_files where
  "published_contracts =
     (let runtime = ''6d0425f908e01a446b040e2993045e2afe30460e'';
          sha = (\<lambda>path. JStr (published_digest path)) in
      \<lparr>cf_catalog_source = JObj [(''binding_sha256'', sha ''brainzgraphinator/catalog_contract.py''),
         (''contract_sha256'', sha ''contracts/catalog-events/v1/contract.json'')],
       cf_persistence_source = JObj [(''contract_sha256'', sha ''contracts/persistence/v1/compatibility.json'')],
       cf_compatibility = JObj [(''contract'', JStr ''groovemap.persistence''), (''version'', JInt 1),
         (''application_runtime'', JObj [(''tested_commit'', JStr runtime), (''tested_version'', JStr ''0.1.0'')])],
       cf_integration = JObj [(''command'', JStr ''just test-integration''),
         (''contract'', JStr ''groovemap.musicbrainz-graph-enricher.integration-testing''),
         (''database'', JObj [(''engine'', JStr ''neo4j''), (''image'', JStr published_image)]),
         (''network'', JObj [(''bind'', JStr ''127.0.0.1''), (''bolt_port'', JStr ''ephemeral'')]), (''version'', JInt 1)],
       cf_pyproject = JObj [(''tool'', JObj [(''uv'', JObj [(''sources'', JObj [(''groovemap-runtime'',
         JObj [(''rev'', JStr runtime)])])])])],
       cf_relationship_source = JObj [(''contract_sha256'', sha ''contracts/projections/v1/relationship-types.json'')],
       cf_relationship_document = JObj [(''contract'', JStr ''groovemap.musicbrainz-graph-enricher.relationship-types''), (''version'', JInt 1)],
       cf_relationship_types = MB_RELATIONSHIP_MAP,
       cf_edge_types = [''COLLABORATED_WITH'', ''FOUNDED'', ''MEMBER_OF'', ''RENAMED_TO'', ''SUBGROUP_OF'', ''SUPPORTED'', ''TAUGHT'', ''TRIBUTE_TO''],
       cf_digest = published_digest,
       cf_integration_script = ''IMAGE='' @ published_image\<rparr>)"

lemma published_fields:
  "cf_catalog_source published_contracts = JObj [(''binding_sha256'', JStr (published_digest ''brainzgraphinator/catalog_contract.py'')),
     (''contract_sha256'', JStr (published_digest ''contracts/catalog-events/v1/contract.json''))]"
  "cf_persistence_source published_contracts =
     JObj [(''contract_sha256'', JStr (published_digest ''contracts/persistence/v1/compatibility.json''))]"
  "cf_relationship_source published_contracts =
     JObj [(''contract_sha256'', JStr (published_digest ''contracts/projections/v1/relationship-types.json''))]"
  "cf_digest published_contracts = published_digest"
  "cf_relationship_types published_contracts = MB_RELATIONSHIP_MAP"
  by (simp_all only: published_contracts_def Let_def contract_files.simps)

lemma published_edge_types: "cf_edge_types published_contracts = sorted_values MB_RELATIONSHIP_MAP"
  by (simp add: published_contracts_def Let_def sorted_values_def MB_RELATIONSHIP_MAP_def dvalues_def)

lemma published_documents:
  "path_of (cf_relationship_document published_contracts) [''contract''] =
     Inr (JStr ''groovemap.musicbrainz-graph-enricher.relationship-types'')"
  "path_of (cf_relationship_document published_contracts) [''version''] = Inr (JInt 1)"
  "path_of (cf_compatibility published_contracts) [''contract''] = Inr (JStr ''groovemap.persistence'')"
  "path_of (cf_compatibility published_contracts) [''version''] = Inr (JInt 1)"
  "path_of (cf_compatibility published_contracts) [''application_runtime'', ''tested_version''] = Inr (JStr ''0.1.0'')"
  "path_of (cf_pyproject published_contracts) [''tool'', ''uv'', ''sources'', ''groovemap-runtime'', ''rev''] =
     Inr (JStr ''6d0425f908e01a446b040e2993045e2afe30460e'')"
  "path_of (cf_compatibility published_contracts) [''application_runtime'', ''tested_commit''] =
     Inr (JStr ''6d0425f908e01a446b040e2993045e2afe30460e'')"
  "path_of (cf_integration published_contracts) [''contract''] =
     Inr (JStr ''groovemap.musicbrainz-graph-enricher.integration-testing'')"
  "path_of (cf_integration published_contracts) [''version''] = Inr (JInt 1)"
  "path_of (cf_integration published_contracts) [''database'', ''engine''] = Inr (JStr ''neo4j'')"
  "path_of (cf_integration published_contracts) [''database'', ''image''] = Inr (JStr published_image)"
  "path_of (cf_integration published_contracts) [''network''] =
     Inr (JObj [(''bind'', JStr ''127.0.0.1''), (''bolt_port'', JStr ''ephemeral'')])"
  "path_of (cf_integration published_contracts) [''command''] = Inr (JStr ''just test-integration'')"
  "cf_integration_script published_contracts = ''IMAGE='' @ published_image"
  by (simp_all add: published_contracts_def Let_def path_of_def)

lemma published_contracts_pass: "check_contracts published_contracts = Inr ()"
proof -
  have script: "contains published_image (''IMAGE='' @ published_image)"
    unfolding contains_iff by (metis append.right_neutral)
  have "published_image = ''neo4j:2026-community'' @ ''@sha256:'' @
      ''dbc377fb9cd8fe8dabc19d3041b197d5ca0ef8bae514cea175b8df265e5b7a76''" by (simp add: published_image_def)
  then have image: "contains ''@sha256:'' published_image" unfolding contains_iff by blast
  have digests:
    "path_of (cf_catalog_source published_contracts) [''contract_sha256''] = Inr (JStr (published_digest ''contracts/catalog-events/v1/contract.json''))"
    "path_of (cf_catalog_source published_contracts) [''binding_sha256''] = Inr (JStr (published_digest ''brainzgraphinator/catalog_contract.py''))"
    "path_of (cf_persistence_source published_contracts) [''contract_sha256''] = Inr (JStr (published_digest ''contracts/persistence/v1/compatibility.json''))"
    "path_of (cf_relationship_source published_contracts) [''contract_sha256''] = Inr (JStr (published_digest ''contracts/projections/v1/relationship-types.json''))"
    by (simp_all add: published_fields path_of_def)
  have network: "same_items (JObj [(''bind'', JStr ''127.0.0.1''), (''bolt_port'', JStr ''ephemeral'')])
      [(''bind'', ''127.0.0.1''), (''bolt_port'', ''ephemeral'')]"
    by (simp add: same_items_def)
  show ?thesis
    unfolding check_contracts_def all_asserted_Inr published_fields(4,5)
    by (simp only: list.pred_inject digests published_edge_types assert_text_def assert_one_def published_documents
        rbind.simps py_in.simps in_text.simps image script network
        assert_that_def if_True simp_thms insert_iff)
qed

lemma published_contract_covers_edges_witness:
  "\<exists>st1 g1. create_relationship_edges ''1'' (record_relations sample_artist) (zero_stats, sample_graph) = Inr (st1, g1) \<and>
     fst ` (edge_set g1 - edge_set sample_graph) \<subseteq> set (cf_edge_types published_contracts)"
proof -
  have types: "set (cf_relationship_types published_contracts) = set MB_RELATIONSHIP_MAP"
    by (simp only: published_fields(5))
  obtain st1 g1 where loop: "create_relationship_edges ''1'' (record_relations sample_artist) (zero_stats, sample_graph) = Inr (st1, g1)"
    using sample_relation_ok by (metis create_relationship_edges_Inr surj_pair)
  have "create_relationship_edges_batch [] (zero_stats, sample_graph) = Inr ([], zero_stats, sample_graph)"
    by (simp add: create_relationship_edges_batch_def plan_relations_def)
  note published_contract_covers_edges [OF published_contracts_pass types loop this]
  then have "fst ` (edge_set g1 - edge_set sample_graph) \<subseteq> set (cf_edge_types published_contracts)"
    by (meson Diff_mono Un_upper1 image_mono order_refl order_trans)
  with loop show ?thesis by (intro exI conjI)
qed

end
