(* ===== verification/RelationReplay.thy ===== *)
theory RelationReplay
  imports Relations
begin

text \<open>
  The relationships of a batch without the assumption of simple edges: how many result rows a relation has
  does not change by merging, so an artist is reported complete in a replay exactly when it was before, and
  merging relations that are settled changes nothing.
\<close>

section \<open>Weights\<close>

text \<open>The result rows of a relation: one per edge between its ends, counting the one it creates.\<close>

definition link_weight :: "graph \<Rightarrow> string \<times> string \<times> string \<Rightarrow> nat" where
  "link_weight g k = (case k of (t, a, b) \<Rightarrow>
     if artist_exists g a \<and> artist_exists g b then max 1 (rel_count g t a b) else 0)"

definition rel_weight :: "graph \<Rightarrow> string \<times> json \<Rightarrow> nat" where
  "rel_weight g x = (case relation_key (fst x) (snd x) of None \<Rightarrow> 0 | Some k \<Rightarrow> link_weight g k)"

text \<open>What the completeness flag of an owner compares.\<close>

definition complete_in :: "graph \<Rightarrow> (string \<times> json) list \<Rightarrow> string \<Rightarrow> bool" where
  "complete_in g xs owner \<longleftrightarrow>
     length (filter supported (filter (\<lambda>x. fst x = owner) xs)) \<le>
     sum_list (map (rel_weight g) (filter (\<lambda>x. fst x = owner) xs))"

definition links_kept :: "graph \<Rightarrow> graph \<Rightarrow> bool" where
  "links_kept g g' \<longleftrightarrow> (\<forall>k. link_weight g' k = link_weight g k \<and> (settled g k \<longrightarrow> settled g' k))"

lemma links_kept_refl [simp]: "links_kept g g"
  by (simp add: links_kept_def)

lemma links_kept_trans: "links_kept g h \<Longrightarrow> links_kept h k \<Longrightarrow> links_kept g k"
  by (simp add: links_kept_def)

lemma links_kept_weight: "links_kept g g' \<Longrightarrow> link_weight g' = link_weight g"
  by (simp add: links_kept_def fun_eq_iff)

lemma links_kept_complete:
  assumes "links_kept g g'" shows "complete_in g' = complete_in g"
proof -
  have "rel_weight g' = rel_weight g"
    by (rule ext) (simp only: rel_weight_def links_kept_weight [OF assms])
  then show ?thesis by (intro ext) (simp only: complete_in_def)
qed

lemma links_kept_nodes:
  assumes "\<And>k. (nodes g' k = None) = (nodes g k = None)" and "arels g' = arels g"
  shows "links_kept g g'"
  using assms by (auto simp: links_kept_def link_weight_def settled_def artist_exists_def rel_count_def)

lemma merge_rel_links:
  assumes "merge_rel t a b g = (c, m, g')"
  shows "m = link_weight g (t, a, b)" and "links_kept g g'" and "settled g' (t, a, b)"
    and "settled g (t, a, b) \<Longrightarrow> g' = g \<and> c = 0"
proof -
  show "m = link_weight g (t, a, b)" using merge_rel_result(1) [OF assms] by (simp add: link_weight_def)
  have "artist_exists g' x = artist_exists g x" for x
    using merge_rel_frame(1) [OF assms] by (simp add: artist_exists_def)
  then show "links_kept g g'"
    using settled_merge_rel(2) [OF assms] by (auto simp: links_kept_def link_weight_def merge_rel_count [OF assms])
  show "settled g' (t, a, b)" by (rule settled_merge_rel(1) [OF assms])
  show "settled g (t, a, b) \<Longrightarrow> g' = g \<and> c = 0"
    using merge_rel_of_settled [of g t a b] assms by auto
qed

section \<open>One statement\<close>

lemma merge_rows_links:
  assumes "fold (merge_rel_row t) rows (c, ms, g) = (c', ms', g')"
  shows "ms' = ms @ map (\<lambda>row. (rr_owner row, link_weight g (row_edge (t, row)))) rows \<and> links_kept g g' \<and>
    (\<forall>row \<in> set rows. settled g' (row_edge (t, row))) \<and>
    ((\<forall>row \<in> set rows. settled g (row_edge (t, row))) \<longrightarrow> g' = g \<and> c' = c)"
  using assms
proof (induction rows arbitrary: c ms g)
  case (Cons row rows)
  obtain c1 m1 g1 where mr: "merge_rel t (rr_source row) (rr_target row) g = (c1, m1, g1)" by (metis prod_cases3)
  then have "merge_rel_row t row (c, ms, g) = (c + c1, ms @ [(rr_owner row, m1)], g1)"
    by (simp add: merge_rel_row_def)
  with Cons.prems have rest: "fold (merge_rel_row t) rows (c + c1, ms @ [(rr_owner row, m1)], g1) = (c', ms', g')"
    by simp
  note IH = Cons.IH [OF rest]
  note one = merge_rel_links [OF mr]
  have edge: "row_edge (t, row) = (t, rr_source row, rr_target row)" by (simp add: row_edge_def)
  have "settled g' (row_edge (t, row))" using one(3) IH unfolding links_kept_def edge by blast
  moreover have "links_kept g g'" using one(2) IH links_kept_trans by blast
  moreover have "g' = g \<and> c' = c" if "\<forall>x \<in> set (row # rows). settled g (row_edge (t, x))"
    using IH one(4) that unfolding edge [symmetric] by simp
  ultimately show ?case
    using IH one(1) links_kept_weight [OF one(2)] by (simp add: edge)
qed simp

lemma owner_sum_weights:
  "owner_sum (map (\<lambda>row. (rr_owner row, w (t, row))) rows) owner =
     sum_list (map w (filter (\<lambda>e. rr_owner (snd e) = owner) (map (Pair t) rows)))"
  by (induction rows) (simp_all add: owner_sum_def)

lemma project_edge_type_links:
  assumes "project_edge_type (t, rows) (pr, st, g) = (pr', st', g')"
  shows "links_kept g g'" and "\<forall>e \<in> set (map (Pair t) rows). settled g' (row_edge e)"
    and "count_of pr' owner = count_of pr owner +
      sum_list (map (\<lambda>e. link_weight g (row_edge e)) (filter (\<lambda>e. rr_owner (snd e) = owner) (map (Pair t) rows)))"
    and "\<forall>e \<in> set (map (Pair t) rows). settled g (row_edge e) \<Longrightarrow>
      g' = g \<and> relationships_created st' = relationships_created st"
proof -
  obtain c ms g1 where mb: "merge_rel_batch t rows g = (c, ms, g1)" by (metis prod_cases3)
  note run = merge_rows_links [OF mb [unfolded merge_rel_batch_def]]
  have ms: "ms = map (\<lambda>row. (rr_owner row, link_weight g (row_edge (t, row)))) rows" using run by simp
  have parts: "g' = g1" "pr' = fold (\<lambda>(k, n). add_count k n) (owner_groups ms) pr"
    "relationships_created st' = relationships_created st + int c"
    using assms mb by (auto simp: project_edge_type_def Let_def)
  show "links_kept g g'" "\<forall>e \<in> set (map (Pair t) rows). settled g' (row_edge e)"
    using run by (auto simp: parts)
  show "count_of pr' owner = count_of pr owner +
      sum_list (map (\<lambda>e. link_weight g (row_edge e)) (filter (\<lambda>e. rr_owner (snd e) = owner) (map (Pair t) rows)))"
    unfolding parts(2) count_of_add_all owner_sum_groups ms
    by (simp only: owner_sum_weights [where w = "\<lambda>e. link_weight g (row_edge e)"])
  show "\<forall>e \<in> set (map (Pair t) rows). settled g (row_edge e) \<Longrightarrow>
      g' = g \<and> relationships_created st' = relationships_created st"
    using run parts by simp
qed

section \<open>All statements\<close>

lemma project_edge_types_links:
  assumes "fold project_edge_type d (pr, st, g) = (pr', st', g')"
  shows "links_kept g g' \<and> (\<forall>e \<in> set (flat_rows d). settled g' (row_edge e)) \<and>
    (\<forall>owner. count_of pr' owner = count_of pr owner +
      sum_list (map (\<lambda>e. link_weight g (row_edge e)) (filter (\<lambda>e. rr_owner (snd e) = owner) (flat_rows d)))) \<and>
    ((\<forall>e \<in> set (flat_rows d). settled g (row_edge e)) \<longrightarrow>
      g' = g \<and> relationships_created st' = relationships_created st)"
  using assms
proof (induction d arbitrary: pr st g)
  case Nil
  then show ?case by (simp add: flat_rows_def)
next
  case (Cons x d)
  obtain t rows where x: "x = (t, rows)" by fastforce
  obtain pr1 st1 g1 where one: "project_edge_type (t, rows) (pr, st, g) = (pr1, st1, g1)" by (metis prod_cases3)
  with Cons.prems x have rest: "fold project_edge_type d (pr1, st1, g1) = (pr', st', g')" by simp
  note IH = Cons.IH [OF rest]
  note run = project_edge_type_links [OF one]
  have flat: "flat_rows (x # d) = map (Pair t) rows @ flat_rows d" by (simp add: flat_rows_def x)
  have "links_kept g g'" using run(1) IH links_kept_trans by blast
  moreover have "\<forall>e \<in> set (flat_rows (x # d)). settled g' (row_edge e)"
    using IH run(2) unfolding flat links_kept_def set_append ball_Un by blast
  moreover have "count_of pr' owner = count_of pr owner +
      sum_list (map (\<lambda>e. link_weight g (row_edge e)) (filter (\<lambda>e. rr_owner (snd e) = owner) (flat_rows (x # d))))" for owner
    using IH run(3) [of owner] links_kept_weight [OF run(1)] by (simp add: flat)
  moreover have "g' = g \<and> relationships_created st' = relationships_created st"
    if "\<forall>e \<in> set (flat_rows (x # d)). settled g (row_edge e)"
    using that IH run(4) by (simp add: flat)
  ultimately show ?case by blast
qed

lemma sum_list_mset: "mset xs = mset ys \<Longrightarrow> sum_list (map f xs) = (sum_list (map f ys) :: nat)"
  by (metis mset_map sum_mset_sum_list)

text \<open>What the relationships of a batch leave: the relations settled, the weights kept, and a completeness flag
  that depends on nothing that later batches change.\<close>

lemma create_relationship_edges_batch_links:
  assumes run: "create_relationship_edges_batch rels (st, g) = Inr (complete, st', g')"
  shows "links_kept g g'" and "\<forall>x \<in> set rels. \<forall>k. relation_key (fst x) (snd x) = Some k \<longrightarrow> settled g' k"
    and "map_of complete owner =
      (if \<exists>x \<in> set rels. fst x = owner \<and> supported x then Some (complete_in g rels owner) else None)"
    and "\<forall>x \<in> set rels. \<forall>k. relation_key (fst x) (snd x) = Some k \<longrightarrow> settled g k \<Longrightarrow>
      g' = g \<and> relationships_created st' = relationships_created st"
proof -
  let ?skip = "\<lambda>n. st\<lparr>relationships_skipped_missing_side := relationships_skipped_missing_side st + n\<rparr>"
  obtain p where p: "plan_relations rels = Inr p"
    using run by (auto simp: create_relationship_edges_batch_def res_simps)
  obtain pr st2 g2 where fl: "fold project_edge_type (rp_by_type p) ([], ?skip (int (rp_missing p)), g) = (pr, st2, g2)"
    by (metis prod_cases3)
  have parts: "st' = st2" "g' = g2" and complete: "complete = map (\<lambda>(owner, count). (owner, count \<le> count_of pr owner)) (rp_expected p)"
    using run p fl by (auto simp: create_relationship_edges_batch_def count_of_def Let_def)
  note plan = plan_relations_Inr [OF p]
  note exec = project_edge_types_links [OF fl]
  have rows: "set (flat_rows (rp_by_type p)) = {e. \<exists>x \<in> set rels. rel_entry x = Some e}"
    using arg_cong [OF plan(2), of set_mset] by (simp add: set_map_filter_Some)
  have entry: "relation_key (fst x) (snd x) = Some k \<longleftrightarrow> (\<exists>e. rel_entry x = Some e \<and> row_edge e = k)" for x k
    by (auto simp: rel_entry_def row_edge_def split: option.splits)
  have all: "(\<forall>e \<in> set (flat_rows (rp_by_type p)). settled h (row_edge e)) \<longleftrightarrow>
      (\<forall>x \<in> set rels. \<forall>k. relation_key (fst x) (snd x) = Some k \<longrightarrow> settled h k)" for h
    unfolding rows entry by blast
  show "links_kept g g'" "\<forall>x \<in> set rels. \<forall>k. relation_key (fst x) (snd x) = Some k \<longrightarrow> settled g' k"
    using exec all by (simp_all add: parts)
  show "\<forall>x \<in> set rels. \<forall>k. relation_key (fst x) (snd x) = Some k \<longrightarrow> settled g k \<Longrightarrow>
      g' = g \<and> relationships_created st' = relationships_created st"
    using exec all by (simp add: parts)
  show "map_of complete owner =
      (if \<exists>x \<in> set rels. fst x = owner \<and> supported x then Some (complete_in g rels owner) else None)"
  proof -
    have "sum_list (map (\<lambda>e. link_weight g (row_edge e)) (filter (\<lambda>e. rr_owner (snd e) = owner) (List.map_filter rel_entry xs))) =
        sum_list (map (rel_weight g) (filter (\<lambda>x. fst x = owner) xs))" for xs
      by (induction xs)
        (auto simp: map_filter_def rel_weight_def rel_entry_def row_edge_def split: option.splits)
    moreover have same: "mset (filter (\<lambda>e. rr_owner (snd e) = owner) (flat_rows (rp_by_type p))) =
        mset (filter (\<lambda>e. rr_owner (snd e) = owner) (List.map_filter rel_entry rels))"
      using plan(2) by (simp add: mset_filter)
    have "count_of pr owner = count_of [] owner +
        sum_list (map (\<lambda>e. link_weight g (row_edge e)) (filter (\<lambda>e. rr_owner (snd e) = owner) (flat_rows (rp_by_type p))))"
      using exec by blast
    ultimately have got: "count_of pr owner = sum_list (map (rel_weight g) (filter (\<lambda>x. fst x = owner) rels))"
      using sum_list_mset [OF same, of "\<lambda>e. link_weight g (row_edge e)"] by (simp add: count_of_def)
    have "length (filter (\<lambda>x. fst x = owner \<and> supported x) rels) =
        length (filter supported (filter (\<lambda>x. fst x = owner) rels))"
      by (simp add: conj_commute)
    then have "(count_of (rp_expected p) owner \<le> count_of pr owner) \<longleftrightarrow> complete_in g rels owner"
      unfolding plan(3) got complete_in_def by simp
    moreover have "map_of complete owner = map_option (\<lambda>n. n \<le> count_of pr owner) (map_of (rp_expected p) owner)"
      unfolding complete by (rule map_of_keyed)
    moreover have "(map_of (rp_expected p) owner = None) = (\<not> (\<exists>x \<in> set rels. fst x = owner \<and> supported x))"
      unfolding plan(5) [symmetric] by (simp add: map_of_eq_None_iff)
    ultimately show ?thesis by (auto simp: count_of_def split: option.splits)
  qed
qed

end
