(* ===== verification/EntityReplay.thy ===== *)
theory EntityReplay
  imports ReleaseBatch RelationReplay
begin

text \<open>
  Redelivery in batches: the entity statement. A graph is current for a record when the node of its id carries
  the digest of the record. The statement makes the graph current for the records of the batch, changes the
  digests of no other node, and writes nothing when the graph is current for all of them.
\<close>

section \<open>Current nodes\<close>

definition entity_current ::
    "env \<Rightarrow> nlabel \<Rightarrow> string \<Rightarrow> (obj \<Rightarrow> obj res) \<Rightarrow> (obj \<Rightarrow> json res) \<Rightarrow> graph \<Rightarrow> obj \<Rightarrow> bool" where
  "entity_current E l k build extra g r \<longleftrightarrow> (\<forall>d. record_id k r = Some d \<longrightarrow>
     (\<exists>row x. build r = Inr row \<and> extra r = Inr x \<and>
        (\<forall>n. nodes g (l, d) = Some n \<longrightarrow> n ''mb_hash'' = Some (JStr (payload_hash E [JObj row, x])))))"

text \<open>No two records of a workload name one id.\<close>

definition one_record_per_id :: "string \<Rightarrow> obj set \<Rightarrow> bool" where
  "one_record_per_id k rs \<longleftrightarrow>
     (\<forall>r \<in> rs. \<forall>r' \<in> rs. record_id k r \<noteq> None \<longrightarrow> record_id k r = record_id k r' \<longrightarrow> r = r')"

lemma same_record:
  "one_record_per_id k rs \<Longrightarrow> r \<in> rs \<Longrightarrow> r' \<in> rs \<Longrightarrow> record_id k r = Some d \<Longrightarrow> record_id k r' = Some d \<Longrightarrow> r' = r"
  unfolding one_record_per_id_def by force

text \<open>A step that may change the digests of the nodes \<open>K\<close> only, and keeps the relationships.\<close>

definition step_frame :: "(nlabel \<times> string) set \<Rightarrow> graph \<Rightarrow> graph \<Rightarrow> bool" where
  "step_frame K g g' \<longleftrightarrow> (\<forall>k. (nodes g' k = None) = (nodes g k = None)) \<and> links_kept g g' \<and>
     (\<forall>k n n'. k \<notin> K \<longrightarrow> nodes g k = Some n \<longrightarrow> nodes g' k = Some n' \<longrightarrow>
        n' ''mb_hash'' = n ''mb_hash'' \<and> n' ''mb_relations_hash'' = n ''mb_relations_hash'')"

lemma step_frame_refl [simp]: "step_frame K g g"
  by (simp add: step_frame_def)

lemma step_frame_dom: "step_frame K g g' \<Longrightarrow> (nodes g' k = None) = (nodes g k = None)"
  unfolding step_frame_def by blast

lemma step_frame_links: "step_frame K g g' \<Longrightarrow> links_kept g g'"
  by (simp add: step_frame_def)

lemma step_frame_nodes:
  assumes "step_frame K g g'" and "nodes g' k = Some n'" and "k \<notin> K"
  shows "\<exists>n. nodes g k = Some n \<and> n' ''mb_hash'' = n ''mb_hash'' \<and> n' ''mb_relations_hash'' = n ''mb_relations_hash''"
proof -
  from step_frame_dom [OF assms(1), of k] assms(2) obtain n where "nodes g k = Some n" by (cases "nodes g k") auto
  with assms show ?thesis unfolding step_frame_def by blast
qed

lemma step_frame_intro:
  assumes "\<And>k. (nodes g' k = None) = (nodes g k = None)" and "links_kept g g'"
    and "\<And>k n n'. k \<notin> K \<Longrightarrow> nodes g k = Some n \<Longrightarrow> nodes g' k = Some n' \<Longrightarrow>
      n' ''mb_hash'' = n ''mb_hash'' \<and> n' ''mb_relations_hash'' = n ''mb_relations_hash''"
  shows "step_frame K g g'"
  unfolding step_frame_def using assms by (intro conjI allI impI) simp_all

lemma step_frame_trans:
  assumes f: "step_frame K g h" and f': "step_frame K h g'"
  shows "step_frame K g g'"
proof (rule step_frame_intro)
  fix k n n' assume k: "k \<notin> K" "nodes g k = Some n" "nodes g' k = Some n'"
  from step_frame_nodes [OF f' k(3,1)] obtain m where m: "nodes h k = Some m"
    "n' ''mb_hash'' = m ''mb_hash''" "n' ''mb_relations_hash'' = m ''mb_relations_hash''" by blast
  with step_frame_nodes [OF f m(1) k(1)] k(2) show
    "n' ''mb_hash'' = n ''mb_hash'' \<and> n' ''mb_relations_hash'' = n ''mb_relations_hash''" by auto
qed (use step_frame_dom [OF f] step_frame_dom [OF f'] step_frame_links [OF f] step_frame_links [OF f'] in
      \<open>auto intro: links_kept_trans\<close>)

definition touched :: "nlabel \<Rightarrow> string \<Rightarrow> obj list \<Rightarrow> (nlabel \<times> string) set" where
  "touched l k rs = {(l, d) | d. \<exists>r \<in> set rs. record_id k r = Some d}"

lemma entity_current_frame:
  assumes "step_frame K g g'" and "\<And>d. record_id k r = Some d \<Longrightarrow> (l, d) \<notin> K" and "entity_current E l k build extra g r"
  shows "entity_current E l k build extra g' r"
  unfolding entity_current_def
proof (intro allI impI)
  fix d assume d: "record_id k r = Some d"
  with assms(3) obtain row x where rx: "build r = Inr row" "extra r = Inr x"
    and cur: "\<And>n. nodes g (l, d) = Some n \<Longrightarrow> n ''mb_hash'' = Some (JStr (payload_hash E [JObj row, x]))"
    unfolding entity_current_def by blast
  have "n' ''mb_hash'' = Some (JStr (payload_hash E [JObj row, x]))" if "nodes g' (l, d) = Some n'" for n'
    using step_frame_nodes [OF assms(1) that assms(2) [OF d]] cur by auto
  with rx show "\<exists>row x. build r = Inr row \<and> extra r = Inr x \<and>
      (\<forall>n. nodes g' (l, d) = Some n \<longrightarrow> n ''mb_hash'' = Some (JStr (payload_hash E [JObj row, x])))" by blast
qed

lemma entity_current_hashes:
  assumes "\<And>k. rel_option (\<lambda>n n'. n' ''mb_hash'' = n ''mb_hash'') (nodes g k) (nodes g' k)"
    and "entity_current E l k build extra g r"
  shows "entity_current E l k build extra g' r"
  unfolding entity_current_def
proof (intro allI impI)
  fix d assume d: "record_id k r = Some d"
  with assms(2) obtain row x where rx: "build r = Inr row" "extra r = Inr x"
    and cur: "\<And>n. nodes g (l, d) = Some n \<Longrightarrow> n ''mb_hash'' = Some (JStr (payload_hash E [JObj row, x]))"
    unfolding entity_current_def by blast
  have "n' ''mb_hash'' = Some (JStr (payload_hash E [JObj row, x]))" if "nodes g' (l, d) = Some n'" for n'
    using assms(1) [of "(l, d)"] cur that by (cases "nodes g (l, d)") auto
  with rx show "\<exists>row x. build r = Inr row \<and> extra r = Inr x \<and>
      (\<forall>n. nodes g' (l, d) = Some n \<longrightarrow> n ''mb_hash'' = Some (JStr (payload_hash E [JObj row, x])))" by blast
qed

section \<open>The entity batch\<close>

lemma node_write_hash:
  "replay_gate E \<Longrightarrow> node_write E fs now (row, h) n ''mb_hash'' = Some (JStr h)"
  by (simp add: node_write_def gate_open_def write_props_def)

lemma node_write_closed:
  "replay_gate E \<Longrightarrow> n ''mb_hash'' = Some (JStr h) \<Longrightarrow> node_write E fs now (row, h) n = n"
  by (simp add: node_write_def gate_open_def)

text \<open>The node of an id after the statement.\<close>

lemma entity_batch_node:
  assumes run: "run_entity_batch E now l fs k build extra rel rs (st, g) = Inr (outs, st', g1)"
    and i: "map_of (last_index k rs) d = Some i"
  shows "\<exists>row x. build (rs ! i) = Inr row \<and> extra (rs ! i) = Inr x \<and>
    nodes g1 (l, d) = map_option (node_write E fs now (row, payload_hash E [JObj row, x])) (nodes g (l, d))"
proof -
  obtain rows written where rows: "entity_rows E k build extra rs = Inr rows"
    and gb: "gated_write_batch E l fs now rows g = (written, g1)"
    using run by (elim run_entity_batch_Inr)
  note props = entity_rows_props [OF rows]
  have "i \<in> set (dvalues (last_index k rs))" using i by (auto simp: last_index_values)
  then have "i \<in> set (map e_idx rows)" unfolding props(1) by simp
  then obtain y where y: "y \<in> set rows" "e_idx y = i" by auto
  have id: "e_id y = d" using props(3) [OF y(1)] y(2) i by (metis last_index_inj)
  have "filter (\<lambda>r. e_id r = d) rows = [y]"
    using props(5) y(1) id by (intro filter_single) (auto simp: distinct_map inj_on_def)
  moreover have "g1 = write_nodes E fs now l (\<lambda>d. map (\<lambda>r. (e_row r, e_hash r)) (filter (\<lambda>r. e_id r = d) rows)) g"
    using gated_write_batch_graph [of E l fs now rows "[]" g] gb by (simp add: gated_write_batch_def)
  ultimately have "nodes g1 (l, d) = map_option (node_write E fs now (e_row y, e_hash y)) (nodes g (l, d))"
    by (simp add: write_nodes_def)
  with entity_row_Inr [OF props(2) [OF y(1)]] y(2) show ?thesis by auto
qed

lemma entity_batch_establishes:
  assumes run: "run_entity_batch E now l fs k build extra rel rs (st, g) = Inr (outs, st', g1)"
    and gate: "replay_gate E" and one: "one_record_per_id k (set rs)" and r: "r \<in> set rs"
  shows "entity_current E l k build extra g1 r"
  unfolding entity_current_def
proof (intro allI impI)
  fix d assume d: "record_id k r = Some d"
  then have "map_of (last_index k rs) d \<noteq> None" using r by (auto simp: last_index_None)
  then obtain i where i: "map_of (last_index k rs) d = Some i" by blast
  then have "i < length rs" "record_id k (rs ! i) = Some d" by (simp_all add: last_index_Some)
  then have "rs ! i = r" using same_record [OF one r _ d] by simp
  with entity_batch_node [OF run i] obtain row x where rx: "build r = Inr row" "extra r = Inr x"
    and node: "nodes g1 (l, d) = map_option (node_write E fs now (row, payload_hash E [JObj row, x])) (nodes g (l, d))"
    by auto
  show "\<exists>row x. build r = Inr row \<and> extra r = Inr x \<and>
      (\<forall>n. nodes g1 (l, d) = Some n \<longrightarrow> n ''mb_hash'' = Some (JStr (payload_hash E [JObj row, x])))"
    using rx node node_write_hash [OF gate] by auto
qed

lemma entity_batch_frame:
  assumes run: "run_entity_batch E now l fs k build extra rel rs (st, g) = Inr (outs, st', g1)"
    and clean: "clean_fields fs" "''mb_relations_hash'' \<notin> fst ` set fs"
  shows "step_frame (touched l k rs) g g1"
    and "nodes g key = Some n \<Longrightarrow> nodes g1 key = Some n1 \<Longrightarrow> n1 ''mb_relations_hash'' = n ''mb_relations_hash''"
proof -
  obtain rows written where rows: "entity_rows E k build extra rs = Inr rows"
    and gb: "gated_write_batch E l fs now rows g = (written, g1)"
    using run by (elim run_entity_batch_Inr)
  note base = batch_nodes [OF gb clean(1)]
  have rel: "n1 ''mb_relations_hash'' = n ''mb_relations_hash''"
    if "nodes g key = Some n" "nodes g1 key = Some n1" for key n n1
    using base(2) [OF that] clean(2) by simp
  then show "nodes g key = Some n \<Longrightarrow> nodes g1 key = Some n1 \<Longrightarrow> n1 ''mb_relations_hash'' = n ''mb_relations_hash''" .
  have g1: "g1 = write_nodes E fs now l (\<lambda>d. map (\<lambda>r. (e_row r, e_hash r)) (filter (\<lambda>r. e_id r = d) rows)) g"
    using gated_write_batch_graph [of E l fs now rows "[]" g] gb by (simp add: gated_write_batch_def)
  have same: "nodes g1 key = nodes g key" if key: "key \<notin> touched l k rs" for key
  proof (cases "fst key = l")
    case True
    have "e_id x \<noteq> snd key" if x: "x \<in> set rows" for x
    proof
      assume "e_id x = snd key"
      with entity_rows_props(3) [OF rows x] have "map_of (last_index k rs) (snd key) = Some (e_idx x)" by simp
      then have "rs ! e_idx x \<in> set rs" "record_id k (rs ! e_idx x) = Some (snd key)" by (simp_all add: last_index_Some)
      then have "(l, snd key) \<in> touched l k rs" unfolding touched_def by blast
      with key True show False by (metis prod.collapse)
    qed
    then have "filter (\<lambda>r. e_id r = snd key) rows = []" by (simp add: filter_empty_conv)
    then show ?thesis by (simp add: g1 write_nodes_def option.map_id)
  qed (simp add: g1 write_nodes_def)
  have "links_kept g g1" by (rule links_kept_nodes [OF base(1) base(3)])
  then show "step_frame (touched l k rs) g g1"
    by (rule step_frame_intro [OF base(1)]) (simp add: same)
qed

text \<open>What the outcome of a record says.\<close>

lemma entity_outcome:
  assumes run: "run_entity_batch E now l fs k build extra rel rs (st, g) = Inr (outs, st', g1)" and i: "i < length rs"
  shows "length outs = length rs" and "record_id k (rs ! i) = None \<Longrightarrow> \<not> o_matched (outs ! i)"
    and "record_id k (rs ! i) = Some d \<Longrightarrow> o_matched (outs ! i) = (nodes g (l, d) \<noteq> None)"
    and "record_id k (rs ! i) = Some d \<Longrightarrow> nodes g (l, d) = Some n \<Longrightarrow> rel \<Longrightarrow>
      o_stored (outs ! i) = (case n ''mb_relations_hash'' of None \<Rightarrow> JNull | Some v \<Rightarrow> v)"
proof -
  obtain rows written where rows: "entity_rows E k build extra rs = Inr rows"
    and gb: "gated_write_batch E l fs now rows g = (written, g1)"
    and outs: "outs = map (record_outcome_of k rel (last_index k rs) written) (enumerate 0 rs)"
    using run by (elim run_entity_batch_Inr)
  note props = entity_rows_props [OF rows]
  show "length outs = length rs" by (simp add: outs)
  have out: "outs ! i = record_outcome_of k rel (last_index k rs) written (i, rs ! i)"
    using i by (simp add: outs nth_enumerate_eq)
  show "record_id k (rs ! i) = None \<Longrightarrow> \<not> o_matched (outs ! i)"
    unfolding out by (auto dest: matched_has_id)
  {
    assume d: "record_id k (rs ! i) = Some d"
    then have dd: "dget (rs ! i) k \<noteq> JNull" "py_str (dget (rs ! i) k) = d" by (auto simp: record_id_def split: if_splits)
    have "map_of (last_index k rs) d \<noteq> None" using d i by (auto simp: last_index_None)
    then obtain j where j: "map_of (last_index k rs) d = Some j" by blast
    then have "j \<in> set (dvalues (last_index k rs))" by (auto simp: last_index_values)
    then have "j \<in> set (map e_idx rows)" unfolding props(1) by simp
    then obtain y where y: "y \<in> set rows" "e_idx y = j" by auto
    have "e_id y = d" using props(3) [OF y(1)] y(2) j by (metis last_index_inj)
    then have look: "map_of written j = fst (gated_write E l fs d (e_row y) (e_hash y) now g)"
      using written_lookup [OF rows gb y(1)] y(2) by simp
    show "o_matched (outs ! i) = (nodes g (l, d) \<noteq> None)"
      unfolding out using dd j look by (auto simp: record_outcome_of_def gated_write_def Let_def split: option.split)
    show "o_stored (outs ! i) = (case n ''mb_relations_hash'' of None \<Rightarrow> JNull | Some v \<Rightarrow> v)"
      if "nodes g (l, d) = Some n" rel
      unfolding out using dd j look that by (auto simp: record_outcome_of_def gated_write_def Let_def split: option.split)
  }
qed

text \<open>On a graph that is current for its records the statement writes nothing.\<close>

lemma entity_batch_replays:
  assumes cur: "\<forall>r \<in> set rs. entity_current E l k build extra g r" and gate: "replay_gate E"
  shows "\<exists>outs st'. run_entity_batch E now l fs k build extra rel rs (st, g) = Inr (outs, st', g) \<and>
    relationships_created st' = relationships_created st \<and> (\<forall>i < length rs. \<not> o_changed (outs ! i))"
proof -
  have "buildable k build extra r" if "r \<in> set rs" for r
    using cur that by (cases "record_id k r") (simp add: buildable_def, unfold buildable_def entity_current_def, blast)
  then have "\<forall>r \<in> set rs. buildable k build extra r" ..
  from batch_run [OF this, of E now l fs rel st g] obtain outs st' g' where
    run: "run_entity_batch E now l fs k build extra rel rs (st, g) = Inr (outs, st', g')"
    and g': "g' = write_nodes E fs now l (last_write E k build extra rs) g" by blast
  have closed: "n ''mb_hash'' = Some (JStr (snd (write_of E build extra (rs ! i))))"
    if i: "map_of (last_index k rs) d = Some i" and n: "nodes g (l, d) = Some n" for i d n
  proof -
    have "rs ! i \<in> set rs" "record_id k (rs ! i) = Some d" using i by (simp_all add: last_index_Some)
    with cur obtain row x where "build (rs ! i) = Inr row" "extra (rs ! i) = Inr x"
      "n ''mb_hash'' = Some (JStr (payload_hash E [JObj row, x]))"
      unfolding entity_current_def using n by blast
    then show ?thesis by (simp add: write_of_def)
  qed
  have "map_option (fold (node_write E fs now) (last_write E k build extra rs d)) (nodes g (l, d)) = nodes g (l, d)" for d
  proof (cases "map_of (last_index k rs) d")
    case None
    then show ?thesis by (simp add: last_write_def option.map_id)
  next
    case (Some i)
    then show ?thesis
      using closed [OF Some] node_write_closed [OF gate, of _ "snd (write_of E build extra (rs ! i))" fs now "fst (write_of E build extra (rs ! i))"]
      by (cases "nodes g (l, d)") (simp_all add: last_write_def)
  qed
  then have same: "g' = g"
    unfolding g' by (intro graph.equality ext) (auto simp: write_nodes_def split: prod.split)
  obtain rows written where rows: "entity_rows E k build extra rs = Inr rows"
    and gb: "gated_write_batch E l fs now rows g = (written, g')"
    and outs: "outs = map (record_outcome_of k rel (last_index k rs) written) (enumerate 0 rs)"
    and st': "st' = count_batch outs written st"
    using run by (elim run_entity_batch_Inr)
  have "\<not> o_changed (outs ! i)" if i: "i < length rs" for i
  proof
    assume "o_changed (outs ! i)"
    then have "o_changed (record_outcome_of k rel (last_index k rs) written (i, rs ! i))"
      using i by (simp add: outs nth_enumerate_eq)
    with changed_outcome [OF rows gb i] obtain y n where y: "y \<in> set rows" "e_idx y = i"
      "nodes g (l, e_id y) = Some n" "gate_open E (e_hash y) n" by blast
    have "map_of (last_index k rs) (e_id y) = Some i" using entity_rows_props(3) [OF rows y(1)] y(2) by simp
    from closed [OF this y(3)] entity_row_Inr [OF entity_rows_props(2) [OF rows y(1)]] y(2,4) gate
    show False by (auto simp: write_of_def gate_open_def)
  qed
  moreover have "relationships_created st' = relationships_created st" by (simp add: st' count_batch_def Let_def)
  ultimately show ?thesis using run same by blast
qed

end
