(* ===== verification/ArtistReplay.thy ===== *)
theory ArtistReplay
  imports RelationProperties EntityReplay
begin

text \<open>
  Redelivery of artists in batches. An artist is current when, besides its node, its stored relations digest is
  that of the record, or its relations are all in the graph and still incomplete, so that a replay projects
  them again without effect.
\<close>

section \<open>The collecting loop of the artists\<close>

abbreviation artist_key :: string where
  "artist_key \<equiv> ''discogs_artist_id''"

definition rel_hash :: "env \<Rightarrow> obj \<Rightarrow> string" where
  "rel_hash E r = payload_hash E [py_or (dget r ''relations'') (JArr [])]"

text \<open>The records whose relations are collected, and what each contributes.\<close>

definition due :: "env \<Rightarrow> obj list \<Rightarrow> nat \<times> obj \<times> outcome \<Rightarrow> bool" where
  "due E rs x \<longleftrightarrow> (case x of (i, r, out) \<Rightarrow>
     o_matched out \<and> \<not> superseded i rs \<and> \<not> (replay_gate E \<and> o_stored out = JStr (rel_hash E r)))"

definition owner_of :: "nat \<times> obj \<times> outcome \<Rightarrow> string" where
  "owner_of x = (case x of (i, r, out) \<Rightarrow> py_str (dget r artist_key))"

definition contributed :: "nat \<times> obj \<times> outcome \<Rightarrow> (string \<times> json) list" where
  "contributed x = (case x of (i, r, out) \<Rightarrow> map (Pair (py_str (dget r artist_key))) (record_relations r))"

lemma collect_relations_due:
  "collect_relations E rs (i, r, out) (rels, digs) =
     (if due E rs (i, r, out)
      then rbind (py_iter (py_or (dget r ''relations'') (JArr []))) (\<lambda>xs.
        Inr (rels @ map (Pair (py_str (dget r artist_key))) xs, AList.update (py_str (dget r artist_key)) (rel_hash E r) digs))
      else Inr (rels, digs))"
  by (simp add: collect_relations_def due_def rel_hash_def Let_def)

lemma collect_relations_closed:
  assumes "rfold (collect_relations E rs) xs (rels, digs) = Inr (rels', digs')"
  shows "rels' = rels @ concat (map contributed (filter (due E rs) xs)) \<and>
    digs' = fold (\<lambda>x. AList.update (owner_of x) (rel_hash E (fst (snd x)))) (filter (due E rs) xs) digs \<and>
    (\<forall>(i, r, out) \<in> set xs. due E rs (i, r, out) \<longrightarrow>
       py_iter (py_or (dget r ''relations'') (JArr [])) = Inr (record_relations r))"
  using assms
proof (induction xs arbitrary: rels digs)
  case (Cons x xs)
  obtain i r out where x: "x = (i, r, out)" by (metis prod_cases3)
  show ?case
  proof (cases "due E rs (i, r, out)")
    case False
    then have "rfold (collect_relations E rs) xs (rels, digs) = Inr (rels', digs')"
      using Cons.prems by (simp add: x collect_relations_due)
    from Cons.IH [OF this] False show ?thesis by (simp add: x)
  next
    case True
    with Cons.prems obtain ys where ys: "py_iter (py_or (dget r ''relations'') (JArr [])) = Inr ys"
      and rest: "rfold (collect_relations E rs) xs (rels @ map (Pair (py_str (dget r artist_key))) ys,
        AList.update (py_str (dget r artist_key)) (rel_hash E r) digs) = Inr (rels', digs')"
      by (auto simp: x collect_relations_due res_simps)
    have "record_relations r = ys" using ys by (simp add: record_relations_def)
    with Cons.IH [OF rest] True ys show ?thesis by (simp add: x contributed_def owner_of_def)
  qed
qed simp

lemma collect_relations_total:
  assumes "\<And>i r out. (i, r, out) \<in> set xs \<Longrightarrow> due E rs (i, r, out) \<Longrightarrow>
    \<exists>ys. py_iter (py_or (dget r ''relations'') (JArr [])) = Inr ys"
  shows "\<exists>acc'. rfold (collect_relations E rs) xs acc = Inr acc'"
  using assms
proof (induction xs arbitrary: acc)
  case (Cons x xs)
  obtain i r out where x: "x = (i, r, out)" by (metis prod_cases3)
  obtain rels digs where acc: "acc = (rels, digs)" by fastforce
  have "\<exists>acc1. collect_relations E rs x acc = Inr acc1"
    using Cons.prems [of i r out] by (cases "due E rs (i, r, out)") (auto simp: x acc collect_relations_due)
  then obtain acc1 where "collect_relations E rs x acc = Inr acc1" by blast
  moreover have "\<exists>acc'. rfold (collect_relations E rs) xs acc1 = Inr acc'"
    by (rule Cons.IH) (rule Cons.prems, simp_all)
  ultimately show ?case by simp
qed simp

text \<open>At most one record per artist is due: an earlier one is superseded.\<close>

lemma due_unique:
  assumes "x \<in> set (enumerate 0 (zip rs outs))" and "y \<in> set (enumerate 0 (zip rs outs))"
    and "due E rs x" and "due E rs y" and "owner_of x = owner_of y" and len: "length outs = length rs"
  shows "x = y"
proof -
  have less: False if ab: "a \<in> set (enumerate 0 (zip rs outs))" "b \<in> set (enumerate 0 (zip rs outs))"
      "due E rs a" "owner_of a = owner_of b" "fst a < fst b" for a b
  proof -
    obtain i r out j r' out' where eq: "a = (i, r, out)" "b = (j, r', out')" by (metis prod_cases3)
    with ab len have ij: "i < j" "j < length rs" "r = rs ! i" "r' = rs ! j"
      by (auto simp: in_set_enumerate_eq)
    have "r' \<in> set (drop (i + 1) rs)"
      using ij by (auto simp: in_set_conv_nth intro!: exI [of _ "j - (i + 1)"])
    with ab(4) have "superseded i rs" by (auto simp: eq superseded_def Let_def owner_of_def ij(3))
    with ab(3) show False by (simp add: eq due_def)
  qed
  have "fst x = fst y"
    using less [of x y] less [of y x] assms by (metis linorder_neqE_nat)
  then show ?thesis
    using assms(1,2) by (auto simp: in_set_enumerate_eq prod_eq_iff)
qed

lemma filter_concat_unique:
  assumes "distinct zs" and "x \<in> set zs" and "\<And>y. y \<in> set zs \<Longrightarrow> y \<noteq> x \<Longrightarrow> filter P (h y) = []"
    and "filter P (h x) = h x"
  shows "filter P (concat (map h zs)) = h x"
  using assms(1-3)
proof (induction zs)
  case (Cons z zs)
  show ?case
  proof (cases "z = x")
    case True
    have "filter P (concat (map h zs)) = []"
      using Cons.prems True by (auto simp: filter_empty_conv)
    with True assms(4) show ?thesis by simp
  next
    case False
    with Cons show ?thesis by simp
  qed
qed simp

lemma due_contribution:
  assumes x: "x \<in> set (enumerate 0 (zip rs outs))" "due E rs x" and len: "length outs = length rs"
  shows "filter (\<lambda>p. fst p = owner_of x) (concat (map contributed (filter (due E rs) (enumerate 0 (zip rs outs))))) = contributed x"
proof (rule filter_concat_unique)
  show "distinct (filter (due E rs) (enumerate 0 (zip rs outs)))" by (simp add: distinct_enumerate)
  show "x \<in> set (filter (due E rs) (enumerate 0 (zip rs outs)))" using x by simp
  fix y assume y: "y \<in> set (filter (due E rs) (enumerate 0 (zip rs outs)))" "y \<noteq> x"
  then have "owner_of y \<noteq> owner_of x" using due_unique [OF _ x(1) _ x(2) _ len, of y] by force
  then show "filter (\<lambda>p. fst p = owner_of x) (contributed y) = []"
    by (auto simp: contributed_def owner_of_def filter_empty_conv split: prod.splits)
next
  show "filter (\<lambda>p. fst p = owner_of x) (contributed x) = contributed x"
    by (auto simp: contributed_def owner_of_def filter_id_conv split: prod.splits)
qed

text \<open>The digests collected, one per artist that is due.\<close>

lemma fold_update_absent:
  "\<forall>x \<in> set xs. key x \<noteq> k \<Longrightarrow> map_of (fold (\<lambda>x. AList.update (key x) (val x)) xs d) k = map_of d k"
  by (induction xs arbitrary: d) (auto simp: update_conv)

lemma fold_update_present:
  assumes "\<forall>x \<in> set xs. key x = k \<longrightarrow> val x = v" and "map_of d k = Some v \<or> (\<exists>x \<in> set xs. key x = k)"
  shows "map_of (fold (\<lambda>x. AList.update (key x) (val x)) xs d) k = Some v"
  using assms
proof (induction xs arbitrary: d)
  case (Cons y ys)
  have "map_of (AList.update (key y) (val y) d) k = Some v \<or> (\<exists>x \<in> set ys. key x = k)"
    using Cons.prems by (auto simp: update_conv)
  with Cons show ?case by simp
qed simp

section \<open>The batch of artists\<close>

text \<open>The digests stored at the end.\<close>

lemma store_nodes:
  assumes "distinct (map fst ds)"
  shows "nodes (fold store_relations_hash ds g) key = (case map_of (map (\<lambda>(d, h). ((Artist, d), h)) ds) key of
      None \<Rightarrow> nodes g key | Some h \<Rightarrow> map_option (set_prop ''mb_relations_hash'' (JStr h)) (nodes g key))"
  using assms
proof (induction ds arbitrary: g)
  case (Cons x ds)
  obtain d h where x: "x = (d, h)" by fastforce
  have "map_of (map (\<lambda>(d, h). ((Artist, d), h)) ds) (Artist, d) = None"
    using Cons.prems by (auto simp: x map_of_eq_None_iff image_iff)
  with Cons show ?case by (auto simp: x store_relations_hash_frame split: option.split)
qed simp

lemma map_of_artist_keys: "map_of (map (\<lambda>(d, h). ((Artist, d), h)) ds) (Artist, d) = map_of ds d"
  by (induction ds) auto

lemma store_arels [simp]: "arels (fold store_relations_hash ds g) = arels g"
  by (induction ds arbitrary: g) (simp_all add: store_relations_hash_def frame_simps)

lemma store_dom: "(nodes (fold store_relations_hash ds g) key = None) = (nodes g key = None)"
  by (induction ds arbitrary: g) (simp_all add: store_relations_hash_frame)

lemma store_hashes:
  "rel_option (\<lambda>n n'. n' ''mb_hash'' = n ''mb_hash'') (nodes g key) (nodes (fold store_relations_hash ds g) key)"
proof (induction ds arbitrary: g)
  case (Cons x ds)
  have "rel_option (\<lambda>n n'. n' ''mb_hash'' = n ''mb_hash'') (nodes g key) (nodes (store_relations_hash x g) key)"
    by (cases "nodes g key") (auto simp: store_relations_hash_frame)
  with Cons.IH [of "store_relations_hash x g"] show ?case
    by (cases "nodes g key"; cases "nodes (store_relations_hash x g) key";
        cases "nodes (fold store_relations_hash (x # ds) g) key") auto
qed (simp add: rel_option_refl_hash)

lemma map_of_filter_key: "map_of (filter (\<lambda>x. P (fst x)) ds) k = (if P k then map_of ds k else None)"
  by (induction ds) auto

text \<open>The digests to store, and a run of the batch, taken apart.\<close>

definition done_digests :: "(string \<times> bool) list \<Rightarrow> (string \<times> string) list \<Rightarrow> (string \<times> string) list" where
  "done_digests complete ds = filter (\<lambda>x. case map_of complete (fst x) of None \<Rightarrow> True | Some b \<Rightarrow> b) ds"

lemma done_digests_at:
  "map_of (done_digests complete ds) d = (if map_of complete d = Some False then None else map_of ds d)"
  unfolding done_digests_def using map_of_filter_key [of "\<lambda>d. case map_of complete d of None \<Rightarrow> True | Some b \<Rightarrow> b" ds d]
  by (auto split: option.splits)

lemma done_digests_distinct: "distinct (map fst ds) \<Longrightarrow> distinct (map fst (done_digests complete ds))"
  by (simp add: done_digests_def distinct_map_filter)

definition artist_items :: "obj list \<Rightarrow> outcome list \<Rightarrow> (nat \<times> obj \<times> outcome) list" where
  "artist_items rs outs = enumerate 0 (zip rs outs)"

definition artist_digests :: "env \<Rightarrow> obj list \<Rightarrow> outcome list \<Rightarrow> (string \<times> string) list" where
  "artist_digests E rs outs = fold (\<lambda>x. AList.update (owner_of x) (rel_hash E (fst (snd x))))
     (filter (due E rs) (artist_items rs outs)) []"

definition artist_relations :: "env \<Rightarrow> obj list \<Rightarrow> outcome list \<Rightarrow> (string \<times> json) list" where
  "artist_relations E rs outs = concat (map contributed (filter (due E rs) (artist_items rs outs)))"

lemma fold_update_distinct:
  "distinct (map fst d) \<Longrightarrow> distinct (map fst (fold (\<lambda>x. AList.update (key x) (val x)) xs d))"
  by (induction xs arbitrary: d) (simp_all add: distinct_update)

lemma artist_digests_distinct: "distinct (map fst (artist_digests E rs outs))"
  unfolding artist_digests_def by (rule fold_update_distinct) simp

lemma artist_digests_at:
  "map_of (artist_digests E rs outs) d = None \<longleftrightarrow> (\<forall>x \<in> set (artist_items rs outs). due E rs x \<longrightarrow> owner_of x \<noteq> d)"
proof
  assume "\<forall>x \<in> set (artist_items rs outs). due E rs x \<longrightarrow> owner_of x \<noteq> d"
  then show "map_of (artist_digests E rs outs) d = None"
    unfolding artist_digests_def by (subst fold_update_absent) auto
next
  have some: "map_of (fold (\<lambda>x. AList.update (key x) (val x)) xs e) k \<noteq> None"
    if "map_of e k \<noteq> None \<or> (\<exists>x \<in> set xs. key x = k)" for key :: "'a \<Rightarrow> string" and val :: "'a \<Rightarrow> string" and xs e k
    using that by (induction xs arbitrary: e) (auto simp: update_conv)
  assume "map_of (artist_digests E rs outs) d = None"
  then show "\<forall>x \<in> set (artist_items rs outs). due E rs x \<longrightarrow> owner_of x \<noteq> d"
    using some [of "[]" d "filter (due E rs) (artist_items rs outs)" owner_of "\<lambda>x. rel_hash E (fst (snd x))"]
    unfolding artist_digests_def by auto
qed

lemma artist_digest_due:
  assumes "x \<in> set (artist_items rs outs)" and "due E rs x" and "length outs = length rs"
  shows "map_of (artist_digests E rs outs) (owner_of x) = Some (rel_hash E (fst (snd x)))"
  unfolding artist_digests_def
proof (rule fold_update_present)
  show "\<forall>y \<in> set (filter (due E rs) (artist_items rs outs)). owner_of y = owner_of x \<longrightarrow>
      rel_hash E (fst (snd y)) = rel_hash E (fst (snd x))"
  proof (intro ballI impI)
    fix y assume "y \<in> set (filter (due E rs) (artist_items rs outs))" "owner_of y = owner_of x"
    then have "y = x"
      using assms(1,2) unfolding artist_items_def by (intro due_unique [OF _ _ _ _ _ assms(3)]) simp_all
    then show "rel_hash E (fst (snd y)) = rel_hash E (fst (snd x))" by simp
  qed
  have "x \<in> set (filter (due E rs) (artist_items rs outs))" using assms(1,2) by simp
  then show "map_of [] (owner_of x) = Some (rel_hash E (fst (snd x))) \<or>
      (\<exists>y \<in> set (filter (due E rs) (artist_items rs outs)). owner_of y = owner_of x)" by blast
qed

lemma enrich_artists_batch_parts:
  assumes run: "enrich_artists_batch E now rs (st, g) = Inr (flags, st', g')"
  obtains outs st1 g1 where
    "run_entity_batch E now Artist ARTIST_FIELDS artist_key artist_row
       (\<lambda>record. Inr (py_or (dget record ''relations'') (JArr []))) True rs (st, g) = Inr (outs, st1, g1)"
    "length outs = length rs"
    "\<forall>(i, r, out) \<in> set (artist_items rs outs). due E rs (i, r, out) \<longrightarrow>
       py_iter (py_or (dget r ''relations'') (JArr [])) = Inr (record_relations r)"
    "artist_digests E rs outs = [] \<and> st' = st1 \<and> g' = g1 \<or>
     (\<exists>complete st2 g2. create_relationship_edges_batch (artist_relations E rs outs) (st1, g1) = Inr (complete, st2, g2) \<and>
        st' = st2 \<and> g' = fold store_relations_hash (done_digests complete (artist_digests E rs outs)) g2)"
proof -
  obtain outs st1 g1 relations digests where
    ent: "run_entity_batch E now Artist ARTIST_FIELDS artist_key artist_row
       (\<lambda>record. Inr (py_or (dget record ''relations'') (JArr []))) True rs (st, g) = Inr (outs, st1, g1)"
    and col: "rfold (collect_relations E rs) (enumerate 0 (zip rs outs)) ([], []) = Inr (relations, digests)"
    and rest: "digests = [] \<and> st' = st1 \<and> g' = g1 \<or>
     (\<exists>complete st2 g2. create_relationship_edges_batch relations (st1, g1) = Inr (complete, st2, g2) \<and>
        st' = st2 \<and> g' = fold store_relations_hash
          (filter (\<lambda>x. case map_of complete (fst x) of None \<Rightarrow> True | Some b \<Rightarrow> b) digests) g2)"
    using run by (elim enrich_artists_batch_Inr)
  have len: "length outs = length rs" using ent by (elim run_entity_batch_Inr) simp
  note closed = collect_relations_closed [OF col]
  then have eq: "relations = artist_relations E rs outs" "digests = artist_digests E rs outs"
    by (simp_all add: artist_relations_def artist_digests_def artist_items_def)
  have "\<forall>(i, r, out) \<in> set (artist_items rs outs). due E rs (i, r, out) \<longrightarrow>
       py_iter (py_or (dget r ''relations'') (JArr [])) = Inr (record_relations r)"
    using closed unfolding artist_items_def by blast
  from that [OF ent len this rest [unfolded eq, folded done_digests_def]] show ?thesis .
qed

text \<open>What an item of a batch is.\<close>

lemma artist_item:
  assumes "x \<in> set (artist_items rs outs)" and "length outs = length rs"
  shows "\<exists>i. i < length rs \<and> x = (i, rs ! i, outs ! i)"
  using assms by (auto simp: artist_items_def in_set_enumerate_eq)

lemma artist_due_id:
  assumes ent: "run_entity_batch E now Artist ARTIST_FIELDS artist_key artist_row extra True rs (st, g) = Inr (outs, st1, g1)"
    and x: "x \<in> set (artist_items rs outs)" "due E rs x"
  shows "fst (snd x) \<in> set rs \<and> record_id artist_key (fst (snd x)) = Some (owner_of x)"
proof -
  have "length outs = length rs" using ent by (elim run_entity_batch_Inr) simp
  from artist_item [OF x(1) this] obtain i where i: "i < length rs" "x = (i, rs ! i, outs ! i)" by blast
  with x(2) have "o_matched (outs ! i)" by (simp add: due_def)
  then obtain d where "record_id artist_key (rs ! i) = Some d"
    using entity_outcome(2) [OF ent i(1)] by (cases "record_id artist_key (rs ! i)") auto
  with i show ?thesis by (auto simp: owner_of_def record_id_def split: if_splits)
qed

lemma artist_fields_clean: "''mb_relations_hash'' \<notin> fst ` set ARTIST_FIELDS"
  by (simp add: ARTIST_FIELDS_def)

text \<open>From the entity statement on, only relations digests of artists that are due change.\<close>

lemma artists_batch_rest:
  assumes rest: "artist_digests E rs outs = [] \<and> st' = st1 \<and> g' = g1 \<or>
     (\<exists>complete st2 g2. create_relationship_edges_batch (artist_relations E rs outs) (st1, g1) = Inr (complete, st2, g2) \<and>
        st' = st2 \<and> g' = fold store_relations_hash (done_digests complete (artist_digests E rs outs)) g2)"
  shows "(nodes g' key = None) = (nodes g1 key = None)" and "links_kept g1 g'"
    and "rel_option (\<lambda>n n'. n' ''mb_hash'' = n ''mb_hash'') (nodes g1 key) (nodes g' key)"
    and "\<forall>d. key = (Artist, d) \<longrightarrow> map_of (artist_digests E rs outs) d = None \<Longrightarrow> nodes g' key = nodes g1 key"
proof -
  have "(nodes g' key = None) = (nodes g1 key = None) \<and> links_kept g1 g' \<and>
    rel_option (\<lambda>n n'. n' ''mb_hash'' = n ''mb_hash'') (nodes g1 key) (nodes g' key) \<and>
    ((\<forall>d. key = (Artist, d) \<longrightarrow> map_of (artist_digests E rs outs) d = None) \<longrightarrow> nodes g' key = nodes g1 key)"
    using rest
  proof (elim disjE exE conjE)
    fix complete st2 g2
    let ?done = "done_digests complete (artist_digests E rs outs)"
    assume cre: "create_relationship_edges_batch (artist_relations E rs outs) (st1, g1) = Inr (complete, st2, g2)"
      and g': "g' = fold store_relations_hash ?done g2"
    have n2: "nodes g2 = nodes g1" by (rule create_relationship_edges_batch_run(2) [OF cre])
    have "links_kept g2 g'" unfolding g' by (rule links_kept_nodes [OF store_dom store_arels])
    with create_relationship_edges_batch_links(1) [OF cre] have "links_kept g1 g'" by (rule links_kept_trans)
    moreover have "nodes g' key = nodes g1 key" if "\<forall>d. key = (Artist, d) \<longrightarrow> map_of (artist_digests E rs outs) d = None"
    proof -
      have "distinct (map fst ?done)" by (rule done_digests_distinct [OF artist_digests_distinct])
      moreover have "map_of (map (\<lambda>(d, h). ((Artist, d), h)) ?done) key = None"
      proof (cases "fst key = Artist")
        case True
        then obtain d where "key = (Artist, d)" by (metis prod.collapse)
        with that show ?thesis by (simp add: map_of_artist_keys done_digests_at)
      qed (auto simp: map_of_eq_None_iff)
      ultimately show ?thesis unfolding g' by (simp add: store_nodes n2)
    qed
    ultimately show ?thesis
      using store_hashes [of g2 key ?done] by (simp add: g' store_dom n2)
  qed (simp add: rel_option_refl_hash)
  then show "(nodes g' key = None) = (nodes g1 key = None)" "links_kept g1 g'"
    "rel_option (\<lambda>n n'. n' ''mb_hash'' = n ''mb_hash'') (nodes g1 key) (nodes g' key)"
    "\<forall>d. key = (Artist, d) \<longrightarrow> map_of (artist_digests E rs outs) d = None \<Longrightarrow> nodes g' key = nodes g1 key"
    by blast+
qed

lemma artists_batch_frame:
  assumes run: "enrich_artists_batch E now rs (st, g) = Inr (flags, st', g')"
  shows "step_frame (touched Artist artist_key rs) g g'"
proof -
  obtain outs st1 g1 where
    ent: "run_entity_batch E now Artist ARTIST_FIELDS artist_key artist_row
       (\<lambda>record. Inr (py_or (dget record ''relations'') (JArr []))) True rs (st, g) = Inr (outs, st1, g1)"
    and rest: "artist_digests E rs outs = [] \<and> st' = st1 \<and> g' = g1 \<or>
     (\<exists>complete st2 g2. create_relationship_edges_batch (artist_relations E rs outs) (st1, g1) = Inr (complete, st2, g2) \<and>
        st' = st2 \<and> g' = fold store_relations_hash (done_digests complete (artist_digests E rs outs)) g2)"
    using run by (elim enrich_artists_batch_parts)
  note tail = artists_batch_rest [OF rest]
  have same: "nodes g' key = nodes g1 key" if key: "key \<notin> touched Artist artist_key rs" for key
  proof (rule tail(4), intro allI impI)
    fix d assume d: "key = (Artist, d)"
    have "owner_of x \<noteq> d" if "x \<in> set (artist_items rs outs)" "due E rs x" for x
      using artist_due_id [OF ent that] key d by (auto simp: touched_def)
    then show "map_of (artist_digests E rs outs) d = None" unfolding artist_digests_at by blast
  qed
  have "step_frame (touched Artist artist_key rs) g1 g'"
    by (rule step_frame_intro [OF tail(1,2)]) (simp add: same)
  with entity_batch_frame(1) [OF ent clean_entity_fields(1) artist_fields_clean] show ?thesis
    by (rule step_frame_trans)
qed

section \<open>Current artists\<close>

text \<open>
  Either the relations digest is stored, or projecting the relations again is without effect and leaves the
  artist incomplete.
\<close>

definition relations_pending :: "graph \<Rightarrow> string \<Rightarrow> obj \<Rightarrow> bool" where
  "relations_pending g d r \<longleftrightarrow> py_iter (py_or (dget r ''relations'') (JArr [])) = Inr (record_relations r) \<and>
     (\<forall>x \<in> set (record_relations r). relation_ok x \<and> (\<forall>k. relation_key d x = Some k \<longrightarrow> settled g k)) \<and>
     \<not> complete_in g (map (Pair d) (record_relations r)) d"

definition relations_current :: "env \<Rightarrow> graph \<Rightarrow> obj \<Rightarrow> bool" where
  "relations_current E g r \<longleftrightarrow> (\<forall>d n. record_id artist_key r = Some d \<longrightarrow> nodes g (Artist, d) = Some n \<longrightarrow>
     n ''mb_relations_hash'' = Some (JStr (rel_hash E r)) \<or> relations_pending g d r)"

lemma relations_pending_kept: "links_kept g g' \<Longrightarrow> relations_pending g d r \<Longrightarrow> relations_pending g' d r"
  using links_kept_complete [of g g'] by (auto simp: relations_pending_def links_kept_def)

lemma relations_current_frame:
  assumes "step_frame K g g'" and "\<And>d. record_id artist_key r = Some d \<Longrightarrow> (Artist, d) \<notin> K" and "relations_current E g r"
  shows "relations_current E g' r"
  unfolding relations_current_def
proof (intro allI impI)
  fix d n' assume d: "record_id artist_key r = Some d" and n': "nodes g' (Artist, d) = Some n'"
  from step_frame_nodes [OF assms(1) n' assms(2) [OF d]] obtain n where n: "nodes g (Artist, d) = Some n"
    "n' ''mb_relations_hash'' = n ''mb_relations_hash''" by blast
  with assms(3) d have "n ''mb_relations_hash'' = Some (JStr (rel_hash E r)) \<or> relations_pending g d r"
    unfolding relations_current_def by blast
  with n(2) relations_pending_kept [OF step_frame_links [OF assms(1)]]
  show "n' ''mb_relations_hash'' = Some (JStr (rel_hash E r)) \<or> relations_pending g' d r" by auto
qed

lemma complete_in_filter: "complete_in g xs d = complete_in g (filter (\<lambda>x. fst x = d) xs) d"
  by (simp add: complete_in_def)

lemma contributed_complete:
  assumes "x \<in> set (artist_items rs outs)" and "due E rs x" and "length outs = length rs"
  shows "complete_in g (artist_relations E rs outs) (owner_of x) = complete_in g (contributed x) (owner_of x)"
proof -
  have filt: "filter (\<lambda>p. fst p = owner_of x) (artist_relations E rs outs) = contributed x"
    unfolding artist_relations_def artist_items_def
    by (rule due_contribution) (use assms in \<open>simp_all add: artist_items_def\<close>)
  have "filter (\<lambda>p. fst p = owner_of x) (contributed x) = contributed x"
    by (auto simp: contributed_def owner_of_def filter_id_conv split: prod.splits)
  then show ?thesis using filt complete_in_filter [of g "artist_relations E rs outs" "owner_of x"] by simp
qed

lemma set_contributed:
  "x \<in> set (artist_items rs outs) \<Longrightarrow> due E rs x \<Longrightarrow> set (contributed x) \<subseteq> set (artist_relations E rs outs)"
  by (auto simp: artist_relations_def)

text \<open>The last record of an artist is not superseded; a later record without an id could only supersede the id None.\<close>

lemma last_not_superseded:
  assumes i: "map_of (last_index artist_key rs) d = Some i" and d: "d \<noteq> ''None''"
  shows "\<not> superseded i rs"
proof
  assume sup: "superseded i rs"
  have id: "record_id artist_key (rs ! i) = Some d" and later: "\<And>j. i < j \<Longrightarrow> j < length rs \<Longrightarrow> record_id artist_key (rs ! j) \<noteq> Some d"
    using i by (simp_all add: last_index_Some)
  have "py_str (dget (rs ! i) artist_key) = d" using id by (simp add: record_id_def split: if_splits)
  with sup obtain later where l: "later \<in> set (drop (i + 1) rs)" "py_str (dget later artist_key) = d"
    by (auto simp: superseded_def Let_def)
  from l(1) obtain j where "j < length (drop (i + 1) rs)" "later = drop (i + 1) rs ! j" unfolding in_set_conv_nth by blast
  then have j: "i + 1 + j < length rs" "later = rs ! (i + 1 + j)" by simp_all
  then have "record_id artist_key later \<noteq> Some d" using later [of "i + 1 + j"] by simp
  with l(2) have "dget later artist_key = JNull" by (auto simp: record_id_def split: if_splits)
  with l(2) d show False by (simp add: py_str_def)
qed

lemma artists_batch_establishes:
  assumes run: "enrich_artists_batch E now rs (st, g) = Inr (flags, st', g')" and gate: "replay_gate E"
    and one: "one_record_per_id artist_key (set rs)" and r: "r \<in> set rs" and named: "record_id artist_key r \<noteq> Some ''None''"
  shows "relations_current E g' r"
  unfolding relations_current_def
proof (intro allI impI)
  fix d n' assume d: "record_id artist_key r = Some d" and n': "nodes g' (Artist, d) = Some n'"
  obtain outs st1 g1 where
    ent: "run_entity_batch E now Artist ARTIST_FIELDS artist_key artist_row
       (\<lambda>record. Inr (py_or (dget record ''relations'') (JArr []))) True rs (st, g) = Inr (outs, st1, g1)"
    and len: "length outs = length rs"
    and iter: "\<forall>(i, r, out) \<in> set (artist_items rs outs). due E rs (i, r, out) \<longrightarrow>
       py_iter (py_or (dget r ''relations'') (JArr [])) = Inr (record_relations r)"
    and rest: "artist_digests E rs outs = [] \<and> st' = st1 \<and> g' = g1 \<or>
     (\<exists>complete st2 g2. create_relationship_edges_batch (artist_relations E rs outs) (st1, g1) = Inr (complete, st2, g2) \<and>
        st' = st2 \<and> g' = fold store_relations_hash (done_digests complete (artist_digests E rs outs)) g2)"
    using run by (elim enrich_artists_batch_parts)
  note tail = artists_batch_rest [OF rest]
  have "map_of (last_index artist_key rs) d \<noteq> None" using d r by (auto simp: last_index_None)
  then obtain i where i: "map_of (last_index artist_key rs) d = Some i" by blast
  then have il: "i < length rs" and "record_id artist_key (rs ! i) = Some d" by (simp_all add: last_index_Some)
  then have ri: "rs ! i = r" using same_record [OF one r _ d] by simp
  define x where "x = (i, rs ! i, outs ! i)"
  have x: "x \<in> set (artist_items rs outs)" using il len by (simp add: x_def artist_items_def in_set_enumerate_eq)
  have owner: "owner_of x = d" using d by (simp add: x_def owner_of_def ri record_id_def split: if_splits)
  have "nodes g1 (Artist, d) \<noteq> None" using tail(1) [of "(Artist, d)"] n' by auto
  then obtain n1 where n1: "nodes g1 (Artist, d) = Some n1" by blast
  have "nodes g (Artist, d) \<noteq> None"
    using step_frame_dom [OF entity_batch_frame(1) [OF ent clean_entity_fields(1) artist_fields_clean], of "(Artist, d)"] n1 by simp
  then obtain n where n: "nodes g (Artist, d) = Some n" by blast
  have kept: "n1 ''mb_relations_hash'' = n ''mb_relations_hash''"
    by (rule entity_batch_frame(2) [OF ent clean_entity_fields(1) artist_fields_clean n n1])
  have di: "record_id artist_key (rs ! i) = Some d" using d ri by simp
  have matched: "o_matched (outs ! i)" using entity_outcome(3) [OF ent il di] n by simp
  have stored: "o_stored (outs ! i) = (case n ''mb_relations_hash'' of None \<Rightarrow> JNull | Some v \<Rightarrow> v)"
    by (rule entity_outcome(4) [OF ent il di n]) simp
  show "n' ''mb_relations_hash'' = Some (JStr (rel_hash E r)) \<or> relations_pending g' d r"
  proof (cases "due E rs x")
    case False
    then have "o_stored (outs ! i) = JStr (rel_hash E r)"
      using matched last_not_superseded [OF i] named d ri by (auto simp: due_def x_def)
    then have old: "n ''mb_relations_hash'' = Some (JStr (rel_hash E r))" using stored by (simp split: option.splits)
    have "owner_of y \<noteq> d" if y: "y \<in> set (artist_items rs outs)" "due E rs y" for y
    proof
      assume "owner_of y = d"
      obtain j where j: "j < length rs" "y = (j, rs ! j, outs ! j)" using artist_item [OF y(1) len] by blast
      have rj: "record_id artist_key (rs ! j) = Some d" using artist_due_id [OF ent y] \<open>owner_of y = d\<close> j by simp
      then have "rs ! j = r" using same_record [OF one r _ d] j(1) by simp
      moreover have "o_stored (outs ! j) = JStr (rel_hash E r)"
        using entity_outcome(4) [OF ent j(1) rj n] old by simp
      ultimately show False using y(2) gate by (simp add: due_def j(2))
    qed
    then have "map_of (artist_digests E rs outs) d = None" unfolding artist_digests_at by blast
    then have "nodes g' (Artist, d) = nodes g1 (Artist, d)" by (intro tail(4)) simp
    with n' n1 kept old show ?thesis by simp
  next
    case True
    have hash: "map_of (artist_digests E rs outs) d = Some (rel_hash E r)"
      using artist_digest_due [OF x True len] by (simp add: owner) (simp add: x_def ri)
    then have "artist_digests E rs outs \<noteq> []" by auto
    with rest obtain complete st2 g2 where
      cre: "create_relationship_edges_batch (artist_relations E rs outs) (st1, g1) = Inr (complete, st2, g2)"
      and g': "g' = fold store_relations_hash (done_digests complete (artist_digests E rs outs)) g2" by blast
    note links = create_relationship_edges_batch_links [OF cre]
    have n2: "nodes g2 = nodes g1" by (rule create_relationship_edges_batch_run(2) [OF cre])
    show ?thesis
    proof (cases "map_of complete d = Some False")
      case False
      then have "map_of (map (\<lambda>(d, h). ((Artist, d), h)) (done_digests complete (artist_digests E rs outs))) (Artist, d) =
          Some (rel_hash E r)"
        using hash by (simp add: map_of_artist_keys done_digests_at)
      then have "nodes g' (Artist, d) = map_option (set_prop ''mb_relations_hash'' (JStr (rel_hash E r))) (nodes g2 (Artist, d))"
        unfolding g' by (simp add: store_nodes [OF done_digests_distinct [OF artist_digests_distinct]])
      with n' n1 n2 show ?thesis by auto
    next
      case incomplete: True
      then have "\<not> complete_in g1 (artist_relations E rs outs) d" using links(3) [of d] by (auto split: if_splits)
      then have "\<not> complete_in g1 (contributed x) d"
        using contributed_complete [OF x True len, of g1] by (simp add: owner)
      moreover have contrib: "contributed x = map (Pair d) (record_relations r)"
        using owner by (simp add: contributed_def owner_of_def x_def ri)
      ultimately have "\<not> complete_in g' (map (Pair d) (record_relations r)) d"
        using links_kept_complete [OF tail(2)] by simp
      moreover have "relation_ok y \<and> (\<forall>k. relation_key d y = Some k \<longrightarrow> settled g' k)" if "y \<in> set (record_relations r)" for y
      proof -
        have y: "(d, y) \<in> set (artist_relations E rs outs)"
          using set_contributed [OF x True] that by (auto simp: contrib)
        have "links_kept g2 g'" unfolding g' by (rule links_kept_nodes [OF store_dom store_arels])
        with links(2) y have "\<forall>k. relation_key d y = Some k \<longrightarrow> settled g' k"
          unfolding links_kept_def by fastforce
        with create_relationship_edges_batch_run(1) [OF cre] y show ?thesis by fastforce
      qed
      moreover have "py_iter (py_or (dget r ''relations'') (JArr [])) = Inr (record_relations r)"
        using iter x True by (auto simp: x_def ri)
      ultimately show ?thesis by (simp add: relations_pending_def)
    qed
  qed
qed

text \<open>When every artist of the batch is current, nothing changes.\<close>

lemma artists_batch_replays:
  assumes entity: "\<forall>r \<in> set rs. entity_current E Artist artist_key artist_row
      (\<lambda>record. Inr (py_or (dget record ''relations'') (JArr []))) g r"
    and relations: "\<forall>r \<in> set rs. relations_current E g r" and gate: "replay_gate E"
  shows "\<exists>flags st'. enrich_artists_batch E now rs (st, g) = Inr (flags, st', g) \<and>
    relationships_created st' = relationships_created st"
proof -
  obtain outs st1 where
    ent: "run_entity_batch E now Artist ARTIST_FIELDS artist_key artist_row
       (\<lambda>record. Inr (py_or (dget record ''relations'') (JArr []))) True rs (st, g) = Inr (outs, st1, g)"
    and created: "relationships_created st1 = relationships_created st"
    using entity_batch_replays [OF entity gate] by blast
  have len: "length outs = length rs" using ent by (elim run_entity_batch_Inr) simp
  have pending: "relations_pending g (owner_of x) (fst (snd x)) \<and> record_id artist_key (fst (snd x)) = Some (owner_of x)"
    if x: "x \<in> set (artist_items rs outs)" "due E rs x" for x
  proof -
    note id = artist_due_id [OF ent x]
    obtain i where i: "i < length rs" "x = (i, rs ! i, outs ! i)" using artist_item [OF x(1) len] by blast
    have di: "record_id artist_key (rs ! i) = Some (owner_of x)" using id i(2) by simp
    have "o_matched (outs ! i)" using x(2) by (simp add: i(2) due_def)
    then obtain n where n: "nodes g (Artist, owner_of x) = Some n" using entity_outcome(3) [OF ent i(1) di] by auto
    have "n ''mb_relations_hash'' \<noteq> Some (JStr (rel_hash E (rs ! i)))"
      using entity_outcome(4) [OF ent i(1) di n] x(2) gate by (auto simp: i(2) due_def)
    with relations i(1) di n have "relations_pending g (owner_of x) (rs ! i)"
      unfolding relations_current_def by (meson nth_mem)
    with id show ?thesis by (simp add: i(2))
  qed
  have "\<exists>acc. rfold (collect_relations E rs) (artist_items rs outs) ([], []) = Inr acc"
    by (rule collect_relations_total) (use pending in \<open>force simp: relations_pending_def\<close>)
  then obtain relations digests where
    col: "rfold (collect_relations E rs) (artist_items rs outs) ([], []) = Inr (relations, digests)" by auto
  from collect_relations_closed [OF col] have eq: "relations = artist_relations E rs outs" "digests = artist_digests E rs outs"
    by (simp_all add: artist_relations_def artist_digests_def)
  show ?thesis
  proof (cases "digests = []")
    case True
    with ent col created show ?thesis by (simp add: enrich_artists_batch_def artist_items_def)
  next
    case False
    have all: "relation_ok (snd p) \<and> (\<forall>k. relation_key (fst p) (snd p) = Some k \<longrightarrow> settled g k)"
      if "p \<in> set (artist_relations E rs outs)" for p
    proof -
      from that obtain x where x: "x \<in> set (artist_items rs outs)" "due E rs x" "p \<in> set (contributed x)"
        by (auto simp: artist_relations_def)
      then have "fst p = owner_of x" "snd p \<in> set (record_relations (fst (snd x)))"
        by (auto simp: contributed_def owner_of_def split: prod.splits)
      with pending [OF x(1,2)] show ?thesis by (auto simp: relations_pending_def)
    qed
    then have "\<forall>p \<in> set (artist_relations E rs outs). relation_ok (snd p)" by blast
    from create_relationship_edges_batch_total [OF this, of "(st1, g)"] obtain complete st2 g2 where
      cre: "create_relationship_edges_batch (artist_relations E rs outs) (st1, g) = Inr (complete, st2, g2)" by auto
    note links = create_relationship_edges_batch_links [OF cre]
    have same: "g2 = g" "relationships_created st2 = relationships_created st1" using links(4) all by blast+
    have "map_of complete (owner_of x) = Some False" if x: "x \<in> set (artist_items rs outs)" "due E rs x" for x
    proof -
      have contrib: "contributed x = map (Pair (owner_of x)) (record_relations (fst (snd x)))"
        by (simp add: contributed_def owner_of_def split: prod.splits)
      have no: "\<not> complete_in g (artist_relations E rs outs) (owner_of x)"
        using pending [OF x] contributed_complete [OF x len, of g] by (simp add: contrib relations_pending_def)
      then have "filter supported (filter (\<lambda>p. fst p = owner_of x) (artist_relations E rs outs)) \<noteq> []"
        by (auto simp: complete_in_def)
      then have "\<exists>p \<in> set (artist_relations E rs outs). fst p = owner_of x \<and> supported p"
        by (auto simp: filter_empty_conv)
      with links(3) [of "owner_of x"] no show ?thesis by simp
    qed
    then have none: "map_of (done_digests complete (artist_digests E rs outs)) d = None" for d
      using artist_digests_at [of E rs outs d] by (auto simp: done_digests_at)
    have "done_digests complete (artist_digests E rs outs) = []"
    proof (rule ccontr)
      assume "done_digests complete (artist_digests E rs outs) \<noteq> []"
      then obtain d h ds where "done_digests complete (artist_digests E rs outs) = (d, h) # ds" by (metis neq_Nil_conv surj_pair)
      with none [of d] show False by simp
    qed
    then show ?thesis
      using ent col created cre same False
      by (simp add: enrich_artists_batch_def artist_items_def eq done_digests_def Let_def)
  qed
qed

end
