(* ===== verification/BatchReplay.thy ===== *)
theory BatchReplay
  imports ArtistReplay
begin

text \<open>
  Redelivery in batches: what every batch projection promises when its records come back in other batches, as
  the locale \<open>batch_replay_safe\<close>, interpreted on the four batch projections, and the redelivery of a whole
  history of batches.
\<close>

section \<open>The contract\<close>

locale batch_replay_safe =
  fixes enrich_batch :: "string \<Rightarrow> obj list \<Rightarrow> tx_state \<Rightarrow> (bool list \<times> tx_state) res"
    and label :: nlabel and key :: string and named :: "obj \<Rightarrow> bool" and current :: "graph \<Rightarrow> obj \<Rightarrow> bool"
  assumes establishes: "enrich_batch now rs (st, g) = Inr (flags, st', g') \<Longrightarrow> one_record_per_id key (set rs) \<Longrightarrow>
      \<forall>r \<in> set rs. named r \<Longrightarrow> r \<in> set rs \<Longrightarrow> current g' r"
    and frames: "enrich_batch now rs (st, g) = Inr (flags, st', g') \<Longrightarrow> step_frame (touched label key rs) g g'"
    and keeps: "step_frame K g g' \<Longrightarrow> (\<And>d. record_id key r = Some d \<Longrightarrow> (label, d) \<notin> K) \<Longrightarrow> current g r \<Longrightarrow> current g' r"
    and replays: "\<forall>r \<in> set rs. current g r \<Longrightarrow> \<exists>flags st'. enrich_batch now rs (st, g) = Inr (flags, st', g) \<and>
      relationships_created st' = relationships_created st"
begin

text \<open>A record stays current through a batch of its own kind.\<close>

lemma stays_current:
  assumes run: "enrich_batch now rs (st, g) = Inr (flags, st', g')" and one: "one_record_per_id key (insert r (set rs))"
    and named: "\<forall>r \<in> set rs. named r" and cur: "current g r"
  shows "current g' r"
proof (cases "r \<in> set rs")
  case True
  have "one_record_per_id key (set rs)" using one by (auto simp: one_record_per_id_def)
  then show ?thesis using establishes [OF run _ named True] by blast
next
  case False
  have "(label, d) \<notin> touched label key rs" if "record_id key r = Some d" for d
  proof
    assume "(label, d) \<in> touched label key rs"
    then obtain r' where r': "r' \<in> set rs" "record_id key r' = Some d" by (auto simp: touched_def)
    have "r' = r" by (rule same_record [OF one _ _ that r'(2)]) (use r'(1) in simp_all)
    with r'(1) False show False by simp
  qed
  with keeps [OF frames [OF run] _ cur] show ?thesis by blast
qed

text \<open>Redelivering the batch at once, at any later instant.\<close>

lemma same_batch_again:
  assumes "enrich_batch now rs (st, g) = Inr (flags, st', g')" and "one_record_per_id key (set rs)"
    and "\<forall>r \<in> set rs. named r"
  shows "\<exists>flags st3. enrich_batch now' rs (st2, g') = Inr (flags, st3, g') \<and> relationships_created st3 = relationships_created st2"
  using establishes [OF assms] by (intro replays) blast

end

section \<open>The four kinds\<close>

definition label_current :: "env \<Rightarrow> graph \<Rightarrow> obj \<Rightarrow> bool" where
  "label_current E = entity_current E Label ''discogs_label_id'' label_row (\<lambda>_. Inr JNull)"

definition release_group_current :: "env \<Rightarrow> graph \<Rightarrow> obj \<Rightarrow> bool" where
  "release_group_current E = entity_current E Master ''discogs_master_id'' release_group_row (\<lambda>_. Inr JNull)"

definition release_current :: "env \<Rightarrow> graph \<Rightarrow> obj \<Rightarrow> bool" where
  "release_current E = entity_current E Release ''discogs_release_id'' release_row (media_digest E)"

definition artist_current :: "env \<Rightarrow> graph \<Rightarrow> obj \<Rightarrow> bool" where
  "artist_current E g r \<longleftrightarrow> entity_current E Artist artist_key artist_row
     (\<lambda>record. Inr (py_or (dget record ''relations'') (JArr []))) g r \<and> relations_current E g r"

lemma fields_without_relations_hash:
  "''mb_relations_hash'' \<notin> fst ` set LABEL_FIELDS" "''mb_relations_hash'' \<notin> fst ` set RELEASE_FIELDS"
  "''mb_relations_hash'' \<notin> fst ` set RELEASE_GROUP_FIELDS"
  by (simp_all add: LABEL_FIELDS_def RELEASE_FIELDS_def RELEASE_GROUP_FIELDS_def)

interpretation labels_batch_replay:
  batch_replay_safe "enrich_labels_batch (gated E)" Label "''discogs_label_id''" "\<lambda>_. True" "label_current (gated E)" for E
proof
  fix now rs st g flags st' g' r
  assume "enrich_labels_batch (gated E) now rs (st, g) = Inr (flags, st', g')"
  then obtain outs where run: "run_entity_batch (gated E) now Label LABEL_FIELDS ''discogs_label_id'' label_row
      (\<lambda>_. Inr JNull) False rs (st, g) = Inr (outs, st', g')"
    by (auto simp: enrich_labels_batch_def res_simps)
  show "step_frame (touched Label ''discogs_label_id'' rs) g g'"
    by (rule entity_batch_frame(1) [OF run clean_entity_fields(2) fields_without_relations_hash(1)])
  show "label_current (gated E) g' r" if "one_record_per_id ''discogs_label_id'' (set rs)" "r \<in> set rs"
    unfolding label_current_def by (rule entity_batch_establishes [OF run _ that]) simp
next
  fix K g g' r
  assume "step_frame K g g'" "\<And>d. record_id ''discogs_label_id'' r = Some d \<Longrightarrow> (Label, d) \<notin> K" "label_current (gated E) g r"
  then show "label_current (gated E) g' r" unfolding label_current_def by (rule entity_current_frame)
next
  fix rs g now st
  assume "\<forall>r \<in> set rs. label_current (gated E) g r"
  from entity_batch_replays [OF this [unfolded label_current_def], of now LABEL_FIELDS False st]
  show "\<exists>flags st'. enrich_labels_batch (gated E) now rs (st, g) = Inr (flags, st', g) \<and>
      relationships_created st' = relationships_created st"
    by (auto simp: enrich_labels_batch_def)
qed

interpretation release_groups_batch_replay:
  batch_replay_safe "enrich_release_groups_batch (gated E)" Master "''discogs_master_id''" "\<lambda>_. True"
    "release_group_current (gated E)" for E
proof
  fix now rs st g flags st' g' r
  assume "enrich_release_groups_batch (gated E) now rs (st, g) = Inr (flags, st', g')"
  then obtain outs where run: "run_entity_batch (gated E) now Master RELEASE_GROUP_FIELDS ''discogs_master_id''
      release_group_row (\<lambda>_. Inr JNull) False rs (st, g) = Inr (outs, st', g')"
    by (auto simp: enrich_release_groups_batch_def res_simps)
  show "step_frame (touched Master ''discogs_master_id'' rs) g g'"
    by (rule entity_batch_frame(1) [OF run clean_entity_fields(4) fields_without_relations_hash(3)])
  show "release_group_current (gated E) g' r" if "one_record_per_id ''discogs_master_id'' (set rs)" "r \<in> set rs"
    unfolding release_group_current_def by (rule entity_batch_establishes [OF run _ that]) simp
next
  fix K g g' r
  assume "step_frame K g g'" "\<And>d. record_id ''discogs_master_id'' r = Some d \<Longrightarrow> (Master, d) \<notin> K"
    "release_group_current (gated E) g r"
  then show "release_group_current (gated E) g' r" unfolding release_group_current_def by (rule entity_current_frame)
next
  fix rs g now st
  assume "\<forall>r \<in> set rs. release_group_current (gated E) g r"
  from entity_batch_replays [OF this [unfolded release_group_current_def], of now RELEASE_GROUP_FIELDS False st]
  show "\<exists>flags st'. enrich_release_groups_batch (gated E) now rs (st, g) = Inr (flags, st', g) \<and>
      relationships_created st' = relationships_created st"
    by (auto simp: enrich_release_groups_batch_def)
qed

text \<open>Releases: the media statements change neither digest; unchanged releases collect no media.\<close>

lemma apply_media_hashes:
  "rel_option (\<lambda>n n'. n' ''mb_hash'' = n ''mb_hash'' \<and> n' ''mb_relations_hash'' = n ''mb_relations_hash'')
     (nodes g k) (nodes (apply_media S I g) k)"
proof -
  have "n' p = n p" if "nodes g k = Some n" "nodes (apply_media S I g) k = Some n'"
    "p \<in> {''mb_hash'', ''mb_relations_hash''}" for n n' p
    using that by (intro apply_media_prop) auto
  then show ?thesis
    using nodes_apply_media_dom [of S I g k] by (cases "nodes g k"; cases "nodes (apply_media S I g) k") auto
qed

lemma collect_media_unchanged: "\<forall>x \<in> set xs. \<not> o_changed (snd x) \<Longrightarrow> rfold (collect_media E) xs acc = Inr acc"
  by (induction xs arbitrary: acc) (auto simp: collect_media_def)

interpretation releases_batch_replay:
  batch_replay_safe "enrich_releases_batch (gated E)" Release "''discogs_release_id''" "\<lambda>_. True" "release_current (gated E)" for E
proof
  fix now rs st g flags st' g' r
  assume "enrich_releases_batch (gated E) now rs (st, g) = Inr (flags, st', g')"
  then obtain outs g1 S Ed where
    run: "run_entity_batch (gated E) now Release RELEASE_FIELDS ''discogs_release_id'' release_row (media_digest (gated E))
       False rs (st, g) = Inr (outs, st', g1)"
    and "media_acc_ok (S, Ed)" and g': "g' = (if S = [] then g1 else apply_media (dvalues S) (items_flat Ed) g1)"
    by (elim enrich_releases_batch_Inr)
  have hashes: "rel_option (\<lambda>n n'. n' ''mb_hash'' = n ''mb_hash'' \<and> n' ''mb_relations_hash'' = n ''mb_relations_hash'')
      (nodes g1 k) (nodes g' k)" for k
    using apply_media_hashes [of g1 k "dvalues S" "items_flat Ed"] by (cases "S = []"; cases "nodes g1 k") (simp_all add: g')
  have dom: "(nodes g' k = None) = (nodes g1 k = None)" for k
    using hashes [of k] by (cases "nodes g1 k"; cases "nodes g' k") auto
  have rel: "arels g' = arels g1" by (simp add: g' apply_media_frame)
  have "step_frame (touched Release ''discogs_release_id'' rs) g1 g'"
  proof (rule step_frame_intro [OF dom links_kept_nodes [OF dom rel]])
    fix k n n' assume "nodes g1 k = Some n" "nodes g' k = Some n'"
    then show "n' ''mb_hash'' = n ''mb_hash'' \<and> n' ''mb_relations_hash'' = n ''mb_relations_hash''"
      using hashes [of k] by simp
  qed
  with entity_batch_frame(1) [OF run clean_entity_fields(3) fields_without_relations_hash(2)]
  show "step_frame (touched Release ''discogs_release_id'' rs) g g'" by (rule step_frame_trans)
  show "release_current (gated E) g' r" if "one_record_per_id ''discogs_release_id'' (set rs)" "r \<in> set rs"
    unfolding release_current_def
  proof (rule entity_current_hashes)
    show "entity_current (gated E) Release ''discogs_release_id'' release_row (media_digest (gated E)) g1 r"
      by (rule entity_batch_establishes [OF run _ that]) simp
    show "rel_option (\<lambda>n n'. n' ''mb_hash'' = n ''mb_hash'') (nodes g1 k) (nodes g' k)" for k
      using hashes [of k] by (rule option.rel_mono_strong) simp
  qed
next
  fix K g g' r
  assume "step_frame K g g'" "\<And>d. record_id ''discogs_release_id'' r = Some d \<Longrightarrow> (Release, d) \<notin> K"
    "release_current (gated E) g r"
  then show "release_current (gated E) g' r" unfolding release_current_def by (rule entity_current_frame)
next
  fix rs g now st
  assume "\<forall>r \<in> set rs. release_current (gated E) g r"
  from entity_batch_replays [OF this [unfolded release_current_def], of now RELEASE_FIELDS False st] obtain outs st' where
    run: "run_entity_batch (gated E) now Release RELEASE_FIELDS ''discogs_release_id'' release_row (media_digest (gated E))
       False rs (st, g) = Inr (outs, st', g)"
    and created: "relationships_created st' = relationships_created st" and old: "\<forall>i < length rs. \<not> o_changed (outs ! i)"
    by auto
  have "\<forall>x \<in> set (zip rs outs). \<not> o_changed (snd x)" using old by (auto simp: in_set_zip)
  from collect_media_unchanged [OF this, of "gated E" "([], [])"] run created
  show "\<exists>flags st'. enrich_releases_batch (gated E) now rs (st, g) = Inr (flags, st', g) \<and>
      relationships_created st' = relationships_created st"
    by (simp add: enrich_releases_batch_def)
qed

text \<open>Artists: no artist has the text None as its id.\<close>

interpretation artists_batch_replay:
  batch_replay_safe "enrich_artists_batch (gated E)" Artist artist_key "\<lambda>r. record_id artist_key r \<noteq> Some ''None''"
    "artist_current (gated E)" for E
proof
  fix now rs st g flags st' g' r
  assume run: "enrich_artists_batch (gated E) now rs (st, g) = Inr (flags, st', g')"
  then show "step_frame (touched Artist artist_key rs) g g'" by (rule artists_batch_frame)
  show "artist_current (gated E) g' r" if one: "one_record_per_id artist_key (set rs)"
    and named: "\<forall>r \<in> set rs. record_id artist_key r \<noteq> Some ''None''" and r: "r \<in> set rs"
    unfolding artist_current_def
  proof
    obtain outs st1 g1 where
      ent: "run_entity_batch (gated E) now Artist ARTIST_FIELDS artist_key artist_row
         (\<lambda>record. Inr (py_or (dget record ''relations'') (JArr []))) True rs (st, g) = Inr (outs, st1, g1)"
      and rest: "artist_digests (gated E) rs outs = [] \<and> st' = st1 \<and> g' = g1 \<or>
       (\<exists>complete st2 g2. create_relationship_edges_batch (artist_relations (gated E) rs outs) (st1, g1) = Inr (complete, st2, g2) \<and>
          st' = st2 \<and> g' = fold store_relations_hash (done_digests complete (artist_digests (gated E) rs outs)) g2)"
      using run by (elim enrich_artists_batch_parts)
    show "entity_current (gated E) Artist artist_key artist_row (\<lambda>record. Inr (py_or (dget record ''relations'') (JArr []))) g' r"
      by (rule entity_current_hashes [OF artists_batch_rest(3) [OF rest] entity_batch_establishes [OF ent _ one r]]) simp
    show "relations_current (gated E) g' r"
      by (rule artists_batch_establishes [OF run _ one r]) (use named r in simp_all)
  qed
next
  fix K g g' r
  assume "step_frame K g g'" "\<And>d. record_id artist_key r = Some d \<Longrightarrow> (Artist, d) \<notin> K" "artist_current (gated E) g r"
  then show "artist_current (gated E) g' r"
    unfolding artist_current_def by (blast intro: entity_current_frame relations_current_frame)
next
  fix rs g now st
  assume "\<forall>r \<in> set rs. artist_current (gated E) g r"
  then show "\<exists>flags st'. enrich_artists_batch (gated E) now rs (st, g) = Inr (flags, st', g) \<and>
      relationships_created st' = relationships_created st"
    unfolding artist_current_def by (intro artists_batch_replays) simp_all
qed

section \<open>Any kind\<close>

text \<open>The record of a data type is current, and its id is no text the code confuses with a missing one.\<close>

definition record_current :: "env \<Rightarrow> string \<Rightarrow> graph \<Rightarrow> obj \<Rightarrow> bool" where
  "record_current E dt = (if dt = ''artists'' then artist_current E else if dt = ''labels'' then label_current E
     else if dt = ''release-groups'' then release_group_current E else release_current E)"

definition well_named :: "string \<Rightarrow> obj \<Rightarrow> bool" where
  "well_named dt r \<longleftrightarrow> \<not> (dt = ''artists'' \<and> record_id artist_key r = Some ''None'')"

lemma projection_replay_safe:
  assumes "dt \<in> set ENTITY_TYPES"
  shows "batch_replay_safe (\<lambda>now. the (map_of (BATCH_PROJECTIONS (gated E) now) dt)) (target_label dt) (target_key dt)
    (well_named dt) (record_current (gated E) dt)"
proof -
  consider "dt = ''artists''" | "dt = ''labels''" | "dt = ''release-groups''" | "dt = ''releases''"
    using assms by (auto simp: ENTITY_TYPES_def)
  then show ?thesis
  proof cases
    case 1
    then show ?thesis
      using artists_batch_replay.batch_replay_safe_axioms [of E]
      by (simp add: BATCH_PROJECTIONS_def target_simps record_current_def well_named_def [abs_def])
  next
    case 2
    then show ?thesis
      using labels_batch_replay.batch_replay_safe_axioms [of E]
      by (simp add: BATCH_PROJECTIONS_def target_simps record_current_def well_named_def [abs_def])
  next
    case 3
    then show ?thesis
      using release_groups_batch_replay.batch_replay_safe_axioms [of E]
      by (simp add: BATCH_PROJECTIONS_def target_simps record_current_def well_named_def [abs_def])
  next
    case 4
    then show ?thesis
      using releases_batch_replay.batch_replay_safe_axioms [of E]
      by (simp add: BATCH_PROJECTIONS_def target_simps record_current_def well_named_def [abs_def])
  qed
qed

lemma target_label_inj: "dt \<in> set ENTITY_TYPES \<Longrightarrow> dt' \<in> set ENTITY_TYPES \<Longrightarrow> target_label dt = target_label dt' \<Longrightarrow> dt = dt'"
  by (auto simp: ENTITY_TYPES_def target_label_def)

section \<open>A history of batches\<close>

text \<open>Batches in the order they are committed: the instant, the data type and the records of each.\<close>

definition run_batch :: "env \<Rightarrow> string \<times> string \<times> obj list \<Rightarrow> tx_state \<Rightarrow> tx_state res" where
  "run_batch E b s = (case b of (now, dt, rs) \<Rightarrow> (case map_of (BATCH_PROJECTIONS E now) dt of
      None \<Rightarrow> Inl KeyError
    | Some f \<Rightarrow> rbind (f rs s) (\<lambda>(flags, s'). Inr s')))"

definition run_batches :: "env \<Rightarrow> (string \<times> string \<times> obj list) list \<Rightarrow> tx_state \<Rightarrow> tx_state res" where
  "run_batches E bs = rfold (run_batch E) bs"

definition batch_records :: "string \<times> string \<times> obj list \<Rightarrow> (string \<times> obj) set" where
  "batch_records b = (case b of (now, dt, rs) \<Rightarrow> Pair dt ` set rs)"

definition records_in :: "(string \<times> string \<times> obj list) list \<Rightarrow> nat" where
  "records_in bs = sum_list (map (\<lambda>(now, dt, rs). length rs) bs)"

text \<open>The records of a history: one per data type and id, none with an ambiguous id.\<close>

definition coherent_records :: "(string \<times> obj) set \<Rightarrow> bool" where
  "coherent_records R \<longleftrightarrow> (\<forall>dt. one_record_per_id (target_key dt) {r. (dt, r) \<in> R}) \<and> (\<forall>(dt, r) \<in> R. well_named dt r)"

definition all_current :: "env \<Rightarrow> (string \<times> obj) set \<Rightarrow> graph \<Rightarrow> bool" where
  "all_current E R g \<longleftrightarrow> (\<forall>(dt, r) \<in> R. dt \<in> set ENTITY_TYPES \<and> record_current E dt g r)"

lemma run_batch_Inr:
  assumes "run_batch (gated E) (now, dt, rs) (st, g) = Inr (st', g')"
  obtains flags where "dt \<in> set ENTITY_TYPES"
    "the (map_of (BATCH_PROJECTIONS (gated E) now) dt) rs (st, g) = Inr (flags, st', g')"
  using assms dispatch_known(2) [of dt "gated E" now] that
  by (auto simp: run_batch_def res_simps split: option.splits)

text \<open>One batch: its records become current, those of the history before stay so.\<close>

lemma run_batch_current:
  assumes run: "run_batch (gated E) b (st, g) = Inr (st', g')" and coh: "coherent_records (R \<union> batch_records b)"
    and cur: "all_current (gated E) R g"
  shows "all_current (gated E) (R \<union> batch_records b) g'"
proof -
  obtain now dt rs where b: "b = (now, dt, rs)" by (metis prod_cases3)
  from run [unfolded b] obtain flags where dt: "dt \<in> set ENTITY_TYPES"
    and fb: "the (map_of (BATCH_PROJECTIONS (gated E) now) dt) rs (st, g) = Inr (flags, st', g')"
    by (rule run_batch_Inr)
  note safe = projection_replay_safe [OF dt, of E]
  have recs: "batch_records b = Pair dt ` set rs" by (simp add: b batch_records_def)
  have named: "\<forall>r \<in> set rs. well_named dt r" using coh by (auto simp: coherent_records_def recs)
  have one: "one_record_per_id (target_key dt) S" if "Pair dt ` S \<subseteq> R \<union> batch_records b" for S
    using coh that unfolding coherent_records_def one_record_per_id_def by blast
  have "dt' \<in> set ENTITY_TYPES \<and> record_current (gated E) dt' g' r" if "(dt', r) \<in> R \<union> batch_records b" for dt' r
  proof (cases "(dt', r) \<in> batch_records b")
    case True
    then have r: "dt' = dt" "r \<in> set rs" by (auto simp: recs)
    have "record_current (gated E) dt g' r"
      by (rule batch_replay_safe.establishes [OF safe fb one named r(2)]) (simp add: recs)
    with dt r(1) show ?thesis by simp
  next
    case False
    with that cur have old: "(dt', r) \<in> R" "dt' \<in> set ENTITY_TYPES" "record_current (gated E) dt' g r"
      by (auto simp: all_current_def)
    show ?thesis
    proof (cases "dt' = dt")
      case True
      have "record_current (gated E) dt g' r"
        by (rule batch_replay_safe.stays_current [OF safe fb one named]) (use old True in \<open>auto simp: recs\<close>)
      with old(2) True show ?thesis by simp
    next
      case other: False
      then have label: "target_label dt' \<noteq> target_label dt" using target_label_inj [OF old(2) dt] by blast
      have "record_current (gated E) dt' g' r"
        by (rule batch_replay_safe.keeps [OF projection_replay_safe [OF old(2), of E] batch_replay_safe.frames [OF safe fb] _ old(3)])
          (use label in \<open>auto simp: touched_def\<close>)
      with old(2) show ?thesis by simp
    qed
  qed
  then show ?thesis by (auto simp: all_current_def)
qed

lemma run_batches_current:
  "run_batches (gated E) bs (st, g) = Inr (st', g') \<Longrightarrow> coherent_records (R \<union> \<Union> (batch_records ` set bs)) \<Longrightarrow>
     all_current (gated E) R g \<Longrightarrow> all_current (gated E) (R \<union> \<Union> (batch_records ` set bs)) g'"
proof (induction bs arbitrary: st g R)
  case (Cons b bs)
  obtain st1 g1 where one: "run_batch (gated E) b (st, g) = Inr (st1, g1)"
    and rest: "run_batches (gated E) bs (st1, g1) = Inr (st', g')"
    using Cons.prems(1) by (auto simp: run_batches_def res_simps)
  have "coherent_records (R \<union> batch_records b)"
    using Cons.prems(2) unfolding coherent_records_def one_record_per_id_def by (auto; blast)
  from run_batch_current [OF one this Cons.prems(3)] Cons.IH [OF rest, of "R \<union> batch_records b"] Cons.prems(2)
  show ?case by (simp add: Un_assoc)
qed (simp add: run_batches_def)

text \<open>On a graph that is current for all their records, batches change nothing.\<close>

lemma run_batches_replay:
  assumes "\<forall>(now, dt, rs) \<in> set bs. rs \<noteq> []" and "all_current (gated E) (\<Union> (batch_records ` set bs)) g"
  shows "\<exists>st'. run_batches (gated E) bs (st, g) = Inr (st', g) \<and> relationships_created st' = relationships_created st \<and>
    handled st' = handled st + int (records_in bs)"
  using assms
proof (induction bs arbitrary: st)
  case (Cons b bs)
  obtain now dt rs where b: "b = (now, dt, rs)" by (metis prod_cases3)
  have cur: "\<forall>r \<in> set rs. dt \<in> set ENTITY_TYPES \<and> record_current (gated E) dt g r"
    using Cons.prems(2) by (auto simp: all_current_def b batch_records_def)
  with Cons.prems(1) have dt: "dt \<in> set ENTITY_TYPES" by (cases rs) (auto simp: b)
  from cur have "\<forall>r \<in> set rs. record_current (gated E) dt g r" by blast
  from batch_replay_safe.replays [OF projection_replay_safe [OF dt, of E] this, of now st] obtain flags st1 where
    fb: "the (map_of (BATCH_PROJECTIONS (gated E) now) dt) rs (st, g) = Inr (flags, st1, g)"
    and created: "relationships_created st1 = relationships_created st" by blast
  obtain f where f: "map_of (BATCH_PROJECTIONS (gated E) now) dt = Some f" using dt dispatch_known(2) by blast
  have "handled st1 = handled st + int (length rs)"
    by (rule batch_enricher.counts [OF batch_projection_enricher [OF f]]) (use fb f in simp)
  moreover have "run_batch (gated E) b (st, g) = Inr (st1, g)" using f fb by (simp add: run_batch_def b)
  moreover have "all_current (gated E) (\<Union> (batch_records ` set bs)) g"
    using Cons.prems(2) unfolding all_current_def by auto
  with Cons.IH [OF _ this, of st1] Cons.prems(1) obtain st2 where "run_batches (gated E) bs (st1, g) = Inr (st2, g)"
    "relationships_created st2 = relationships_created st1" "handled st2 = handled st1 + int (records_in bs)"
    by auto
  ultimately show ?case using created by (simp add: run_batches_def records_in_def b)
qed (simp add: run_batches_def records_in_def)

end
