(* ===== verification/RedeliveryProperties.thy ===== *)
theory RedeliveryProperties
  imports BatchReplay BatchProperties
begin

text \<open>
  The redelivery of a history of batches: whatever the batches in which the records come back, the graph stays
  as it is.
\<close>

text \<open>The batches of a redelivery: not empty, and every record is one of the history.\<close>

definition redelivers :: "(string \<times> string \<times> obj list) list \<Rightarrow> (string \<times> string \<times> obj list) list \<Rightarrow> bool" where
  "redelivers history again \<longleftrightarrow>
     (\<forall>(now, dt, rs) \<in> set again. rs \<noteq> []) \<and> \<Union> (batch_records ` set again) \<subseteq> \<Union> (batch_records ` set history)"

lemma redelivery_current:
  assumes "run_batches (gated E) history (st, g) = Inr (st1, g1)"
    and "coherent_records (\<Union> (batch_records ` set history))" and "redelivers history again"
  shows "all_current (gated E) (\<Union> (batch_records ` set again)) g1"
proof -
  have "all_current (gated E) (\<Union> (batch_records ` set history)) g1"
    using run_batches_current [OF assms(1), of "{}"] assms(2) by (simp add: all_current_def)
  with assms(3) show ?thesis unfolding all_current_def redelivers_def by blast
qed

text \<open>C2: With the replay gate on, redelivery in batches is idempotent: after any history of batches of the four kinds
  that names each id with one record, delivering any of its records again, in any grouping, order and number and at
  any instants, succeeds, leaves the graph exactly as it is, creates no relationship and counts every record once.
  No artist id is the text None, which the code confuses with a missing id.\<close>

theorem batch_redelivery_is_idempotent:
  assumes "run_batches (gated E) history (st, g) = Inr (st1, g1)"
    and "coherent_records (\<Union> (batch_records ` set history))" and "redelivers history again"
  shows "\<exists>st3. run_batches (gated E) again (st2, g1) = Inr (st3, g1) \<and>
    relationships_created st3 = relationships_created st2 \<and> handled st3 = handled st2 + int (records_in again)"
  using assms(3) redelivery_current [OF assms] by (intro run_batches_replay) (simp_all add: redelivers_def)

lemma batch_redelivery_is_idempotent_witness:
  "\<exists>st1 g1 st3. run_batches (gated sample_env) [(''t'', ''artists'', [sample_artist]), (''t'', ''labels'', [sample_label])]
       (zero_stats, sample_graph) = Inr (st1, g1) \<and>
     run_batches (gated sample_env) [(''u'', ''labels'', [sample_label, sample_label]), (''u'', ''artists'', [sample_artist])]
       (zero_stats, g1) = Inr (st3, g1) \<and> handled st3 = 3"
proof -
  let ?h = "[(''t'', ''artists'', [sample_artist]), (''t'', ''labels'', [sample_label])]"
  let ?a = "[(''u'', ''labels'', [sample_label, sample_label]), (''u'', ''artists'', [sample_artist])]"
  obtain flags sa ga where a: "enrich_artists_batch (gated sample_env) ''t'' [sample_artist] (zero_stats, sample_graph) = Inr (flags, sa, ga)"
    using sample_artist_batch_runs by blast
  have "\<forall>r \<in> set [sample_label]. buildable ''discogs_label_id'' label_row (\<lambda>_. Inr JNull) r"
    by (simp add: buildable_def label_row_def life_span_def sample_label_def py_or_def)
  from batch_run [OF this, of "gated sample_env" "''t''" Label LABEL_FIELDS False sa ga] obtain flags' sb gb where
    b: "enrich_labels_batch (gated sample_env) ''t'' [sample_label] (sa, ga) = Inr (flags', sb, gb)"
    by (auto simp: enrich_labels_batch_def)
  have run: "run_batches (gated sample_env) ?h (zero_stats, sample_graph) = Inr (sb, gb)"
    using a b by (simp add: run_batches_def run_batch_def BATCH_PROJECTIONS_def)
  have records: "\<Union> (batch_records ` set ?h) = {(''artists'', sample_artist), (''labels'', sample_label)}"
    by (auto simp: batch_records_def)
  have "record_id artist_key sample_artist = Some ''1''"
    by (simp add: record_id_def sample_artist_def dget_def sample_ids)
  then have coh: "coherent_records (\<Union> (batch_records ` set ?h))"
    unfolding records by (auto simp: coherent_records_def one_record_per_id_def well_named_def)
  have "redelivers ?h ?a" by (auto simp: redelivers_def batch_records_def)
  from batch_redelivery_is_idempotent [OF run coh this, of zero_stats] run show ?thesis
    by (auto simp: handled_def zero_stats_def records_in_def)
qed

end
