(* ===== verification/Bench.thy ===== *)
theory Bench
  imports BatchReplay Text
begin

text \<open>
  The benchmarks \<^verbatim>\<open>bench_batching.py\<close> and \<^verbatim>\<open>bench_media_contention.py\<close>: the messages they deliver, the
  catalog they seed, what they read back from the graph and count. Timing, the connection and the random
  generator are left out; the generator's choices are an argument. A message is its data type with its record.
\<close>

section \<open>The batching workload\<close>

definition PREFETCH :: nat where
  "PREFETCH = 200"

definition num_str :: "nat \<Rightarrow> string" where
  "num_str i = int_str (int i)"

definition bench_relations :: "nat \<Rightarrow> nat \<Rightarrow> json" where
  "bench_relations NODES n = JArr
     [JObj [(''type'', JStr ''member of band''), (''target_discogs_artist_id'', JStr (num_str ((n + 1) mod NODES)))],
      JObj [(''type'', JStr ''collaboration''), (''target_discogs_artist_id'', JStr (num_str ((n + 7) mod NODES)))],
      JObj [(''type'', JStr ''teacher''), (''target_discogs_artist_id'', JStr (num_str ((n + 13) mod NODES))),
            (''direction'', JStr ''backward'')]]"

definition bench_media :: json where
  "bench_media = JObj [(''items'', JArr
     [JObj [(''medium'', JStr ''cd''), (''family'', JStr ''optical''), (''qty'', JInt 1)],
      JObj [(''medium'', JStr ''vinyl-12''), (''family'', JStr ''analog''), (''qty'', JInt 1)]])]"

text \<open>The message of index \<open>i\<close>; the four handlers are named by their data types.\<close>

definition bench_message :: "nat \<Rightarrow> nat \<Rightarrow> string \<times> obj" where
  "bench_message NODES i =
     (let kind = i mod 4; n = i mod NODES in
      if kind = 0 then (''artists'', [(''id'', JStr (''mb-a'' @ num_str i)), (''discogs_artist_id'', JStr (num_str n)),
        (''type'', JStr ''Group''), (''relations'', bench_relations NODES n)])
      else if kind = 1 then (''labels'', [(''id'', JStr (''mb-l'' @ num_str i)), (''discogs_label_id'', JStr (num_str n)),
        (''label_code'', JInt (int n))])
      else if kind = 2 then (''release-groups'', [(''id'', JStr (''mb-m'' @ num_str i)), (''discogs_master_id'', JStr (num_str n)),
        (''secondary_types'', JArr [JStr ''Live''])])
      else (''releases'', [(''id'', JStr (''mb-r'' @ num_str i)), (''discogs_release_id'', JStr (num_str n)),
        (''barcode'', JStr (num_str n)),
        (''release_events'', JArr [JObj [(''date'', JStr ''1969''), (''area_name'', JStr ''UK'')]]),
        (''media'', bench_media)]))"

definition bench_workload :: "nat \<Rightarrow> nat \<Rightarrow> (string \<times> obj) list" where
  "bench_workload NODES MESSAGES = map (bench_message NODES) [0..<MESSAGES]"

section \<open>The seeded catalog\<close>

text \<open>For every label the nodes with the ids 0 to \<open>NODES - 1\<close>, and nothing else.\<close>

definition seed_keys :: "nat \<Rightarrow> (nlabel \<times> string) list" where
  "seed_keys NODES = concat (map (\<lambda>l. map (\<lambda>i. (l, num_str i)) [0..<NODES]) [Artist, Label, Master, Release])"

definition bench_seed :: "nat \<Rightarrow> graph" where
  "bench_seed NODES = \<lparr>nodes = map_of (map (\<lambda>k. (k, Map.empty)) (seed_keys NODES)), arels = [], mediums = Map.empty,
     families = {}, in_family = [], issued = [], other_rels = {}\<rparr>"

section \<open>What is read back\<close>

text \<open>The times of change of the nodes that carry an \<open>mbid\<close>, and the number of edges of this source.\<close>

record bench_summary =
  bs_stamps :: "((nlabel \<times> string) \<times> json) list"
  bs_edges :: nat

definition node_prop :: "graph \<Rightarrow> nlabel \<times> string \<Rightarrow> string \<Rightarrow> json" where
  "node_prop g k p = (case nodes g k of None \<Rightarrow> JNull | Some n \<Rightarrow> (case n p of None \<Rightarrow> JNull | Some v \<Rightarrow> v))"

definition bench_graph_summary :: "(nlabel \<times> string) list \<Rightarrow> graph \<Rightarrow> bench_summary" where
  "bench_graph_summary keys g =
     \<lparr>bs_stamps = map (\<lambda>k. (k, node_prop g k ''mb_updated_at'')) (filter (\<lambda>k. node_prop g k ''mbid'' \<noteq> JNull) keys),
      bs_edges = length (filter (\<lambda>e. a_source e = Some ''musicbrainz'') (arels g)) +
        length (filter (\<lambda>e. i_source e = Some ''musicbrainz'') (issued g))\<rparr>"

record replay_report =
  rr_nodes_rewritten :: nat
  rr_of_nodes :: nat
  rr_edges_unchanged :: bool

text \<open>\<open>first["stamps"].get(key) != stamp\<close>.\<close>

definition run_replay_report :: "bench_summary \<Rightarrow> bench_summary \<Rightarrow> replay_report" where
  "run_replay_report first second =
     \<lparr>rr_nodes_rewritten = length (filter (\<lambda>(key, stamp).
        (case map_of (bs_stamps first) key of None \<Rightarrow> JNull | Some v \<Rightarrow> v) \<noteq> stamp) (bs_stamps second)),
      rr_of_nodes = length (bs_stamps second), rr_edges_unchanged = (bs_edges first = bs_edges second)\<rparr>"

section \<open>The contention benchmark\<close>

definition FAMILIES :: nat where
  "FAMILIES = 12"

definition two_digits :: "nat \<Rightarrow> string" where
  "two_digits i = (if i < 10 then ''0'' @ num_str i else num_str i)"

text \<open>The vocabulary without the weights, which only bias the generator.\<close>

definition VOCAB :: "(string \<times> string) list" where
  "VOCAB = map (\<lambda>i. (''medium_'' @ two_digits i, ''family_'' @ two_digits (i mod FAMILIES))) [0..<36]"

text \<open>\<open>picks\<close> are the positions the generator chose for each release, possibly with repetitions.\<close>

definition contention_record :: "nat \<Rightarrow> nat list \<Rightarrow> obj" where
  "contention_record i picked =
     [(''id'', JStr (''mb-r'' @ num_str i)), (''discogs_release_id'', JStr (num_str i)),
      (''media'', JObj [(''items'', JArr (map (\<lambda>p. JObj [(''medium'', JStr (fst (VOCAB ! p))), (''family'', JStr (snd (VOCAB ! p))),
         (''qty'', JInt 1)]) (sort (remdups picked))))])]"

definition contention_workload :: "nat list list \<Rightarrow> obj list" where
  "contention_workload picks = map (\<lambda>(i, picked). contention_record i picked) (enumerate 0 picks)"

text \<open>The counter of the transactions the driver says it will retry, by error code.\<close>

definition retry_code :: "string \<Rightarrow> string" where
  "retry_code t = (if contains ''DeadlockDetected'' t then ''Deadlock'' else if contains ''LockClient'' t then ''LockClient'' else ''other'')"

definition retry_emit :: "string \<Rightarrow> (string \<times> nat) list \<Rightarrow> (string \<times> nat) list" where
  "retry_emit t codes = (if \<not> contains ''will be retried'' t then codes
     else AList.update (retry_code t) ((case map_of codes (retry_code t) of None \<Rightarrow> 0 | Some n \<Rightarrow> n) + 1) codes)"

end
