(* ===== verification/BenchProperties.thy ===== *)
theory BenchProperties
  imports Bench RedeliveryProperties
begin

text \<open>
  Properties of the benchmarks: the batching workload always projects and matches the seeded catalog, its replay
  rewrites nothing, and the retry counter counts every retry once.
\<close>

section \<open>Batches that run\<close>

lemma entity_flags:
  assumes run: "run_entity_batch E now l fs k build extra rel rs (st, g) = Inr (outs, st', g1)"
  shows "map o_matched outs = map (has_node g l k) rs"
proof (rule nth_equalityI)
  show len: "length (map o_matched outs) = length (map (has_node g l k) rs)" using run by (elim run_entity_batch_Inr) simp
  fix i assume "i < length (map o_matched outs)"
  then have i: "i < length rs" using len by simp
  show "map o_matched outs ! i = map (has_node g l k) rs ! i"
    using entity_outcome(1-3) [OF run i] i
    by (cases "record_id k (rs ! i)") (simp_all add: has_node_def)
qed

lemma artists_batch_total:
  assumes build: "\<forall>r \<in> set rs. buildable artist_key artist_row (\<lambda>record. Inr (py_or (dget record ''relations'') (JArr []))) r"
    and iter: "\<forall>r \<in> set rs. py_iter (py_or (dget r ''relations'') (JArr [])) = Inr (record_relations r) \<and>
      (\<forall>x \<in> set (record_relations r). relation_ok x)"
  shows "\<exists>flags st' g'. enrich_artists_batch E now rs (st, g) = Inr (flags, st', g')"
proof -
  from batch_run [OF build, of E now Artist ARTIST_FIELDS True st g] obtain outs st1 g1 where
    ent: "run_entity_batch E now Artist ARTIST_FIELDS artist_key artist_row
      (\<lambda>record. Inr (py_or (dget record ''relations'') (JArr []))) True rs (st, g) = Inr (outs, st1, g1)" by blast
  have len: "length outs = length rs" using ent by (elim run_entity_batch_Inr) simp
  have item: "fst (snd x) \<in> set rs" if "x \<in> set (artist_items rs outs)" for x
    using artist_item [OF that len] by auto
  have "\<exists>acc. rfold (collect_relations E rs) (artist_items rs outs) ([], []) = Inr acc"
    by (rule collect_relations_total) (use item iter in force)
  then obtain relations digests where
    col: "rfold (collect_relations E rs) (artist_items rs outs) ([], []) = Inr (relations, digests)" by auto
  have rels: "relations = artist_relations E rs outs"
    using collect_relations_closed [OF col] by (simp add: artist_relations_def)
  have "relation_ok (snd p)" if p: "p \<in> set relations" for p
  proof -
    from p obtain x where x: "x \<in> set (artist_items rs outs)" "p \<in> set (contributed x)"
      by (auto simp: rels artist_relations_def)
    then have "snd p \<in> set (record_relations (fst (snd x)))" by (auto simp: contributed_def split: prod.splits)
    with iter item [OF x(1)] show ?thesis by blast
  qed
  then have "\<forall>p \<in> set relations. relation_ok (snd p)" ..
  from create_relationship_edges_batch_total [OF this, of "(st1, g1)"] show ?thesis
    by (auto simp: enrich_artists_batch_def ent col [unfolded artist_items_def] Let_def)
qed

lemma releases_batch_total:
  assumes build: "\<forall>r \<in> set rs. buildable ''discogs_release_id'' release_row (media_digest E) r"
  shows "\<exists>flags st' g'. enrich_releases_batch E now rs (st, g) = Inr (flags, st', g')"
proof -
  from batch_run [OF build, of E now Release RELEASE_FIELDS False st g] obtain outs st1 g1 where
    ent: "run_entity_batch E now Release RELEASE_FIELDS ''discogs_release_id'' release_row (media_digest E) False rs (st, g) =
      Inr (outs, st1, g1)" by blast
  have ok: "\<exists>acc'. collect_media E x acc = Inr acc'" if x: "x \<in> set (zip rs outs)" for x acc
  proof -
    obtain i where i: "i < length rs" "x = (rs ! i, outs ! i)" using x by (auto simp: in_set_zip)
    have "\<exists>y. media_digest E (rs ! i) = Inr y" if ch: "o_changed (outs ! i)"
    proof -
      have "rewritten E rs g (py_str (dget (rs ! i) ''discogs_release_id'')) = Some (rs ! i)"
        using changed_record [OF ent, of "rs ! i"] x i(2) ch by blast
      then obtain j where "map_of (last_index ''discogs_release_id'' rs) (py_str (dget (rs ! i) ''discogs_release_id'')) = Some j"
        "rs ! j = rs ! i" by (auto simp: rewritten_def split: option.splits sum.splits if_splits)
      then have "record_id ''discogs_release_id'' (rs ! i) \<noteq> None" by (auto simp: last_index_Some)
      moreover have "buildable ''discogs_release_id'' release_row (media_digest E) (rs ! i)" using build i(1) by simp
      ultimately obtain y where "media_digest E (rs ! i) = Inr y" unfolding buildable_def by (elim disjE exE conjE) simp_all
      then show ?thesis ..
    qed
    then show ?thesis
      by (cases acc; cases "o_changed (outs ! i)")
        (auto simp: i(2) collect_media_def media_digest_def res_simps Let_def split: option.splits)
  qed
  have "\<exists>acc'. rfold (collect_media E) xs acc = Inr acc'" if "set xs \<subseteq> set (zip rs outs)" for xs acc
    using that
  proof (induction xs arbitrary: acc)
    case (Cons y ys)
    with ok [of y acc] show ?case by auto
  qed simp
  from this [of "zip rs outs" "([], [])"] obtain S Ed where "rfold (collect_media E) (zip rs outs) ([], []) = Inr (S, Ed)" by auto
  with ent show ?thesis by (auto simp: enrich_releases_batch_def Let_def)
qed

text \<open>Every kind counts as enriched the records whose node is in the catalog.\<close>

lemma batch_enriches:
  assumes f: "map_of (BATCH_PROJECTIONS E now) dt = Some f" and run: "f rs (st, g) = Inr (flags, st', g')"
  shows "flags = map (has_node g (target_label dt) (target_key dt)) rs"
  using f
proof (cases rule: batch_projection_cases)
  case 1
  with run show ?thesis
    by (auto simp: target_simps elim!: enrich_artists_batch_Inr dest: entity_flags)
next
  case 2
  with run show ?thesis
    by (auto simp: target_simps enrich_labels_batch_def res_simps dest: entity_flags)
next
  case 3
  with run show ?thesis
    by (auto simp: target_simps enrich_release_groups_batch_def res_simps dest: entity_flags)
next
  case 4
  with run show ?thesis
    by (auto simp: target_simps elim!: enrich_releases_batch_Inr dest: entity_flags)
qed

section \<open>The workload\<close>

lemma nat_digits_chars: "c \<in> set (nat_digits n) \<Longrightarrow> of_char c \<in> {48..<58::nat}"
proof (induction n rule: nat_digits.induct)
  case (1 n)
  show ?case
  proof (cases "n < 10")
    case True
    with 1 show ?thesis by (simp add: nat_digits.simps [of n] of_char_of)
  next
    case False
    with 1 show ?thesis by (auto simp: nat_digits.simps [of n] of_char_of)
  qed
qed

lemma num_str_not_None: "num_str i \<noteq> ''None''"
proof
  assume "num_str i = ''None''"
  then have "nat_digits i = ''None''" by (simp add: num_str_def int_str_def)
  then have "CHR ''N'' \<in> set (nat_digits i)" by simp
  from nat_digits_chars [OF this] show False by simp
qed

lemma num_str_inj: "num_str i = num_str j \<longleftrightarrow> i = j"
  using int_str_inj [of "int i" "int j"] by (auto simp: num_str_def)

lemma bench_message_id:
  "fst (bench_message NODES i) \<in> set ENTITY_TYPES"
  "record_id (target_key (fst (bench_message NODES i))) (snd (bench_message NODES i)) = Some (num_str (i mod NODES))"
  by (simp_all add: bench_message_def ENTITY_TYPES_def target_key_def record_id_def Let_def)

lemma bench_workload_coherent:
  assumes "MESSAGES \<le> NODES" shows "coherent_records (set (bench_workload NODES MESSAGES))"
proof -
  have mem: "\<exists>i < MESSAGES. (dt, r) = bench_message NODES i \<and> record_id (target_key dt) r = Some (num_str i)"
    if dr: "(dt, r) \<in> set (bench_workload NODES MESSAGES)" for dt r
  proof -
    from dr obtain i where i: "i < MESSAGES" "(dt, r) = bench_message NODES i" by (auto simp: bench_workload_def)
    with assms have "i mod NODES = i" by simp
    with bench_message_id(2) [of NODES i] i show ?thesis by (metis fst_conv snd_conv)
  qed
  have "one_record_per_id (target_key dt) {r. (dt, r) \<in> set (bench_workload NODES MESSAGES)}" for dt
    unfolding one_record_per_id_def
  proof (intro ballI impI)
    fix r r' assume rr: "r \<in> {r. (dt, r) \<in> set (bench_workload NODES MESSAGES)}" "r' \<in> {r. (dt, r) \<in> set (bench_workload NODES MESSAGES)}"
      "record_id (target_key dt) r = record_id (target_key dt) r'"
    from mem [of dt r] rr(1) obtain i where i: "(dt, r) = bench_message NODES i" "record_id (target_key dt) r = Some (num_str i)" by auto
    from mem [of dt r'] rr(2) obtain j where j: "(dt, r') = bench_message NODES j" "record_id (target_key dt) r' = Some (num_str j)" by auto
    have "i = j" using i(2) j(2) rr(3) by (simp add: num_str_inj)
    with i(1) j(1) show "r = r'" by (metis snd_conv)
  qed
  moreover have "well_named dt r" if "(dt, r) \<in> set (bench_workload NODES MESSAGES)" for dt r
  proof -
    from mem [OF that] obtain i where "record_id (target_key dt) r = Some (num_str i)" by blast
    with num_str_not_None [of i] show ?thesis by (auto simp: well_named_def target_key_def)
  qed
  ultimately show ?thesis by (auto simp: coherent_records_def)
qed

lemma bench_artist_relations:
  assumes "bench_message NODES i = (''artists'', r)"
  shows "py_iter (py_or (dget r ''relations'') (JArr [])) = Inr (record_relations r) \<and> (\<forall>x \<in> set (record_relations r). relation_ok x)"
  using assms
  by (auto simp: bench_message_def Let_def bench_relations_def record_relations_def py_or_def relation_ok_def
      dget_default_def split: if_splits)

lemma bench_buildable:
  assumes "bench_message NODES i = (dt, r)"
  shows "dt = ''artists'' \<Longrightarrow> buildable artist_key artist_row (\<lambda>record. Inr (py_or (dget record ''relations'') (JArr []))) r"
    and "dt = ''labels'' \<Longrightarrow> buildable ''discogs_label_id'' label_row (\<lambda>_. Inr JNull) r"
    and "buildable ''discogs_master_id'' release_group_row (\<lambda>_. Inr JNull) r"
    and "dt = ''releases'' \<Longrightarrow> buildable ''discogs_release_id'' release_row (media_digest E) r"
  using assms
  by (auto simp: buildable_def bench_message_def Let_def artist_row_def label_row_def release_group_row_def release_row_def
      life_span_def release_event_rows_def media_digest_def release_media_block_def media_items_def media_edge_rows_def
      block_items_def bench_media_def py_or_def split: if_splits)

text \<open>Any batch of messages of the workload projects.\<close>

lemma bench_batch_runs:
  assumes "rs \<noteq> []" and msgs: "\<forall>r \<in> set rs. \<exists>i. bench_message NODES i = (dt, r)"
  shows "\<exists>st' g'. run_batch E (now, dt, rs) (st, g) = Inr (st', g')"
proof -
  obtain i r where "bench_message NODES i = (dt, r)" using assms by (cases rs) auto
  then have "dt \<in> set ENTITY_TYPES" using bench_message_id(1) [of NODES i] by simp
  then consider "dt = ''artists''" | "dt = ''labels''" | "dt = ''release-groups''" | "dt = ''releases''"
    by (auto simp: ENTITY_TYPES_def)
  then show ?thesis
  proof cases
    case 1
    have "\<exists>flags st' g'. enrich_artists_batch E now rs (st, g) = Inr (flags, st', g')"
      using msgs 1 bench_buildable(1) bench_artist_relations by (intro artists_batch_total) blast+
    with 1 show ?thesis by (auto simp: run_batch_def BATCH_PROJECTIONS_def)
  next
    case 2
    have "\<forall>r \<in> set rs. buildable ''discogs_label_id'' label_row (\<lambda>_. Inr JNull) r"
      using msgs 2 bench_buildable(2) by blast
    from batch_run [OF this, of E now Label LABEL_FIELDS False st g] 2 show ?thesis
      by (auto simp: run_batch_def BATCH_PROJECTIONS_def enrich_labels_batch_def)
  next
    case 3
    have "\<forall>r \<in> set rs. buildable ''discogs_master_id'' release_group_row (\<lambda>_. Inr JNull) r"
      using msgs bench_buildable(3) by blast
    from batch_run [OF this, of E now Master RELEASE_GROUP_FIELDS False st g] 3 show ?thesis
      by (auto simp: run_batch_def BATCH_PROJECTIONS_def enrich_release_groups_batch_def)
  next
    case 4
    have "\<exists>flags st' g'. enrich_releases_batch E now rs (st, g) = Inr (flags, st', g')"
      using msgs 4 bench_buildable(4) by (intro releases_batch_total) blast
    with 4 show ?thesis by (auto simp: run_batch_def BATCH_PROJECTIONS_def)
  qed
qed

lemma run_batch_enriched:
  assumes "run_batch E (now, dt, rs) (st, g) = Inr (st', g')"
  shows "entities_enriched st' = entities_enriched st + int (length (filter (has_node g (target_label dt) (target_key dt)) rs))"
    and "(nodes g' k = None) = (nodes g k = None)"
proof -
  obtain f flags where f: "map_of (BATCH_PROJECTIONS E now) dt = Some f" and run: "f rs (st, g) = Inr (flags, st', g')"
    using assms by (auto simp: run_batch_def res_simps split: option.splits)
  note contract = batch_projection_enricher [OF f]
  show "entities_enriched st' = entities_enriched st + int (length (filter (has_node g (target_label dt) (target_key dt)) rs))"
    using batch_enricher.enriched [OF contract run] batch_enriches [OF f run] by (simp add: filter_map comp_def)
  show "(nodes g' k = None) = (nodes g k = None)"
    using batch_enricher.frames [OF contract run] unfolding graph_frame_def by blast
qed

text \<open>The catalog holds the node of every message.\<close>

definition seeded :: "nat \<Rightarrow> graph \<Rightarrow> bool" where
  "seeded NODES g \<longleftrightarrow> (\<forall>l i. nodes g (l, num_str (i mod NODES)) \<noteq> None)"

lemma bench_seed_seeded: "0 < NODES \<Longrightarrow> seeded NODES (bench_seed NODES)"
  unfolding seeded_def
proof (intro allI)
  fix l i assume "0 < NODES"
  then have "(l, num_str (i mod NODES)) \<in> set (seed_keys NODES)" by (cases l) (auto simp: seed_keys_def)
  then show "nodes (bench_seed NODES) (l, num_str (i mod NODES)) \<noteq> None"
    by (simp add: bench_seed_def map_of_eq_None_iff image_image)
qed

text \<open>The batches deliver every message once, in any order and grouping.\<close>

definition delivers :: "(string \<times> string \<times> obj list) list \<Rightarrow> (string \<times> obj) list \<Rightarrow> bool" where
  "delivers bs work \<longleftrightarrow> (\<forall>(now, dt, rs) \<in> set bs. rs \<noteq> []) \<and>
     mset (concat (map (\<lambda>(now, dt, rs). map (Pair dt) rs) bs)) = mset work"

lemma delivers_records:
  assumes "delivers bs work"
  shows "\<Union> (batch_records ` set bs) = set work" and "records_in bs = length work"
proof -
  have mset: "mset (concat (map (\<lambda>(now, dt, rs). map (Pair dt) rs) bs)) = mset work"
    using assms by (simp add: delivers_def)
  have "\<Union> (batch_records ` set bs) = set (concat (map (\<lambda>(now, dt, rs). map (Pair dt) rs) bs))"
    by (auto simp: batch_records_def)
  also have "\<dots> = set work" using mset by (metis set_mset_mset)
  finally show "\<Union> (batch_records ` set bs) = set work" .
  have "records_in bs = length (concat (map (\<lambda>(now, dt, rs). map (Pair dt) rs) bs))"
    by (induction bs) (auto simp: records_in_def)
  also have "\<dots> = length work" using mset by (metis size_mset)
  finally show "records_in bs = length work" .
qed

lemma bench_run:
  assumes "\<forall>(now, dt, rs) \<in> set bs. rs \<noteq> []" and "\<Union> (batch_records ` set bs) \<subseteq> range (bench_message NODES)" and "seeded NODES g"
  shows "\<exists>st' g'. run_batches E bs (st, g) = Inr (st', g') \<and> entities_enriched st' = entities_enriched st + int (records_in bs)"
  using assms
proof (induction bs arbitrary: st g)
  case (Cons b bs)
  obtain now dt rs where b: "b = (now, dt, rs)" by (metis prod_cases3)
  have msg: "\<exists>i. bench_message NODES i = (dt, r)" if "r \<in> set rs" for r
  proof -
    have "(dt, r) \<in> range (bench_message NODES)" using Cons.prems(2) that by (auto simp: b batch_records_def)
    then show ?thesis by (metis rangeE)
  qed
  with Cons.prems(1) obtain st1 g1 where one: "run_batch E (now, dt, rs) (st, g) = Inr (st1, g1)"
    using bench_batch_runs [of rs NODES dt E now st g] by (auto simp: b)
  note enriched = run_batch_enriched [OF one]
  have "has_node g (target_label dt) (target_key dt) r" if r: "r \<in> set rs" for r
  proof -
    obtain i where i: "bench_message NODES i = (dt, r)" using msg [OF r] by blast
    with bench_message_id(2) [of NODES i] have "record_id (target_key dt) r = Some (num_str (i mod NODES))" by simp
    with Cons.prems(3) show ?thesis by (simp add: has_node_def seeded_def)
  qed
  then have "filter (has_node g (target_label dt) (target_key dt)) rs = rs" by (simp add: filter_id_conv)
  then have "entities_enriched st1 = entities_enriched st + int (length rs)" using enriched(1) by simp
  moreover have "seeded NODES g1" using Cons.prems(3) enriched(2) by (simp add: seeded_def)
  with Cons.IH [of g1 st1] Cons.prems obtain st' g' where "run_batches E bs (st1, g1) = Inr (st', g')"
    "entities_enriched st' = entities_enriched st1 + int (records_in bs)" by auto
  ultimately show ?case using one by (simp add: run_batches_def records_in_def b)
qed (simp add: run_batches_def records_in_def)

lemma same_graph_report:
  "rr_nodes_rewritten (run_replay_report (bench_graph_summary keys g) (bench_graph_summary keys g)) = 0 \<and>
   rr_edges_unchanged (run_replay_report (bench_graph_summary keys g) (bench_graph_summary keys g))"
proof -
  have "map_of (map (\<lambda>k. (k, f k)) ks) k = Some (f k)" if "k \<in> set ks" for f :: "nlabel \<times> string \<Rightarrow> json" and ks k
    using that by (induction ks) auto
  then show ?thesis by (auto simp: run_replay_report_def bench_graph_summary_def filter_empty_conv)
qed

text \<open>C39: The replay benchmark reports what it is meant to show: with at most one message per node, delivering the
  workload in batches of any order and grouping enriches every message, and delivering it again, in whatever other
  batches, rewrites no node, creates no relationship and leaves the number of edges unchanged.\<close>

theorem benchmark_replay_rewrites_nothing:
  assumes "MESSAGES \<le> NODES" and "delivers first_run (bench_workload NODES MESSAGES)"
    and "delivers second_run (bench_workload NODES MESSAGES)"
  shows "\<exists>st1 g1 st2 g2. run_batches (gated E) first_run (zero_stats, bench_seed NODES) = Inr (st1, g1) \<and>
    run_batches (gated E) second_run (zero_stats, g1) = Inr (st2, g2) \<and>
    entities_enriched st1 = int MESSAGES \<and> relationships_created st2 = 0 \<and>
    (let report = run_replay_report (bench_graph_summary (seed_keys NODES) g1) (bench_graph_summary (seed_keys NODES) g2) in
     rr_nodes_rewritten report = 0 \<and> rr_edges_unchanged report)"
proof -
  let ?W = "bench_workload NODES MESSAGES"
  note first = delivers_records [OF assms(2)]
  note second = delivers_records [OF assms(3)]
  have msgs: "set ?W \<subseteq> range (bench_message NODES)" by (auto simp: bench_workload_def)
  obtain st1 g1 where run: "run_batches (gated E) first_run (zero_stats, bench_seed NODES) = Inr (st1, g1)"
    and enriched: "entities_enriched st1 = int MESSAGES"
  proof (cases "NODES = 0")
    case True
    with assms(1) have "?W = []" by (simp add: bench_workload_def)
    with assms(2) first(1) have "first_run = []"
      by (cases first_run) (auto simp: delivers_def batch_records_def)
    with that [of zero_stats "bench_seed NODES"] True assms(1) show ?thesis by (simp add: run_batches_def zero_stats_def)
  next
    case False
    then have "seeded NODES (bench_seed NODES)" by (simp add: bench_seed_seeded)
    from bench_run [OF _ _ this, of first_run "gated E" zero_stats] assms(2) first msgs that show ?thesis
      by (auto simp: delivers_def zero_stats_def bench_workload_def)
  qed
  have coh: "coherent_records (\<Union> (batch_records ` set first_run))"
    unfolding first(1) by (rule bench_workload_coherent [OF assms(1)])
  have again: "redelivers first_run second_run"
    using assms(3) by (simp add: redelivers_def first(1) second(1) delivers_def)
  from run_batches_replay [OF _ redelivery_current [OF run coh again], of zero_stats] again obtain st2 where
    "run_batches (gated E) second_run (zero_stats, g1) = Inr (st2, g1)" "relationships_created st2 = 0"
    by (auto simp: redelivers_def zero_stats_def)
  with run enriched same_graph_report [of "seed_keys NODES" g1] show ?thesis
    unfolding Let_def by (intro exI [of _ st1] exI [of _ g1] exI [of _ st2] exI [of _ g1] conjI) simp_all
qed

lemma benchmark_replay_rewrites_nothing_witness:
  "\<exists>st1 g1. run_batches (gated sample_env) [(''t'', ''labels'', [snd (bench_message 2 1)]), (''t'', ''artists'', [snd (bench_message 2 0)])]
     (zero_stats, bench_seed 2) = Inr (st1, g1) \<and> entities_enriched st1 = 2"
proof -
  have work: "bench_workload 2 2 = [bench_message 2 0, bench_message 2 1]" by (simp add: bench_workload_def upt_rec)
  have kinds: "fst (bench_message 2 0) = ''artists''" "fst (bench_message 2 1) = ''labels''"
    by (simp_all add: bench_message_def Let_def)
  then have msgs: "(''artists'', snd (bench_message 2 0)) = bench_message 2 0" "(''labels'', snd (bench_message 2 1)) = bench_message 2 1"
    by (metis prod.collapse)+
  have "delivers [(''t'', ''labels'', [snd (bench_message 2 1)]), (''t'', ''artists'', [snd (bench_message 2 0)])] (bench_workload 2 2)"
    by (simp only: delivers_def work msgs list.set ball_simps prod.case list.map concat.simps append_Nil append_Cons list.simps)
      (simp add: add_mset_commute)
  from benchmark_replay_rewrites_nothing [OF order_refl this this, of sample_env] show ?thesis by auto
qed

section \<open>The retry counter\<close>

lemma retry_count_total:
  "sum_list (map snd (fold retry_emit texts codes)) =
     sum_list (map snd codes) + length (filter (contains ''will be retried'') texts)"
proof -
  have step: "sum_list (map snd (AList.update k ((case map_of d k of None \<Rightarrow> 0 | Some n \<Rightarrow> n) + 1) d)) = sum_list (map snd d) + 1"
    for k :: string and d :: "(string \<times> nat) list"
    by (induction d) auto
  have "sum_list (map snd (retry_emit t d)) = sum_list (map snd d) + (if contains ''will be retried'' t then 1 else 0)" for t d
    using step [of "retry_code t" d] by (simp add: retry_emit_def)
  then show ?thesis by (induction texts arbitrary: codes) simp_all
qed

lemma VOCAB_shape: "length VOCAB = 36" "distinct (map fst VOCAB)" "length (remdups (map snd VOCAB)) = FAMILIES"
  by (simp_all add: VOCAB_def FAMILIES_def two_digits_def num_str_def int_str_def nat_digits.simps char_of_def bit_0 upt_rec comp_def)

end
